(* ===== verification/Prelude.thy ===== *)
theory Prelude
  imports Main "HOL-Library.Word"
begin

unbundle bit_operations_syntax

text \<open>
  Shared vocabulary of the development: the machine integer types, the result type that
  stands for C code which may end the process, generic lemmas on lists and words, and the
  collections \<open>wire_simps\<close>, \<open>frame_simps\<close> and \<open>inv_intros\<close> the components add to.
\<close>

section \<open>Types\<close>

type_synonym byte = "8 word"
type_synonym u16 = "16 word"
type_synonym u32 = "32 word"
type_synonym u64 = "64 word"

text \<open>
  How a call can fail to return to its caller: \<open>fatal()\<close>, \<open>packet_disconnect()\<close> and
  \<open>cleanup_exit()\<close> end the process; \<open>MemFault\<close> marks an access outside an object, which C
  leaves undefined; \<open>NoReturn\<close> marks a loop whose fuel ran out.
\<close>

datatype error =
    Fatal string
  | Disconnect string
  | CleanupExit int
  | MemFault string
  | NoReturn

type_synonym 'a result = "error + 'a"

definition rbind :: "'a result \<Rightarrow> ('a \<Rightarrow> 'b result) \<Rightarrow> 'b result" where
  "rbind r f = (case r of Inl e \<Rightarrow> Inl e | Inr x \<Rightarrow> f x)"

definition the_result :: "'a result \<Rightarrow> 'a option" where
  "the_result r = (case r of Inl _ \<Rightarrow> None | Inr x \<Rightarrow> Some x)"

text \<open>The bytes of a string literal.\<close>

definition bytes_of :: "string \<Rightarrow> byte list" where
  "bytes_of s = map (\<lambda>c. of_nat (of_char c)) s"

named_theorems wire_simps \<open>encodings of machine integers\<close>
named_theorems frame_simps \<open>fields an operation leaves unchanged\<close>
named_theorems inv_intros \<open>operations that keep an invariant\<close>

section \<open>Results\<close>

lemma rbind_simps [simp]:
  "rbind (Inl e) f = Inl e"
  "rbind (Inr x) f = f x"
  by (simp_all add: rbind_def)

lemma rbind_eq_Inr [simp]: "rbind r f = Inr y \<longleftrightarrow> (\<exists>x. r = Inr x \<and> f x = Inr y)"
  by (cases r) auto

lemma rbind_eq_Inl: "rbind r f = Inl e \<longleftrightarrow> r = Inl e \<or> (\<exists>x. r = Inr x \<and> f x = Inl e)"
  by (cases r) auto

lemma rbind_cong: "(\<And>x. r = Inr x \<Longrightarrow> f x = g x) \<Longrightarrow> rbind r f = rbind r g"
  by (cases r) simp_all

lemma rbind_Inr [simp]: "rbind r Inr = r"
  by (cases r) simp_all

lemma rbind_assoc: "rbind (rbind r f) g = rbind r (\<lambda>x. rbind (f x) g)"
  by (cases r) auto

section \<open>Lists\<close>

text \<open>\<open>memcpy\<close> of \<open>d\<close> to position \<open>p\<close> of an array.\<close>

definition overwrite :: "nat \<Rightarrow> 'a list \<Rightarrow> 'a list \<Rightarrow> 'a list" where
  "overwrite p d xs = take p xs @ d @ drop (p + length d) xs"

lemma length_overwrite [simp]:
  "p + length d \<le> length xs \<Longrightarrow> length (overwrite p d xs) = length xs"
  by (simp add: overwrite_def)

lemma take_overwrite [simp]: "n \<le> p \<Longrightarrow> p \<le> length xs \<Longrightarrow> take n (overwrite p d xs) = take n xs"
  by (simp add: overwrite_def min_def)

lemma take_overwrite_end:
  "p \<le> length xs \<Longrightarrow> take (p + length d) (overwrite p d xs) = take p xs @ d"
  by (simp add: overwrite_def)

lemma nth_overwrite:
  "p + length d \<le> length xs \<Longrightarrow> i < length xs \<Longrightarrow>
   overwrite p d xs ! i = (if p \<le> i \<and> i < p + length d then d ! (i - p) else xs ! i)"
  by (auto simp: overwrite_def nth_append min_def)

lemma drop_take_split:
  assumes "i \<le> j" and "j \<le> k" and "j \<le> length xs"
  shows "drop i (take k xs) = drop i (take j xs) @ drop j (take k xs)"
proof -
  have "take k xs = take j xs @ drop j (take k xs)"
    using assms(2) append_take_drop_id [of j "take k xs"] by (simp add: min_def)
  then have "drop i (take k xs) = drop i (take j xs @ drop j (take k xs))"
    by simp
  then show ?thesis
    using assms(1,3) by (simp del: append_take_drop_id)
qed

lemma length_4_conv: "length xs = 4 \<longleftrightarrow> (\<exists>a b c d. xs = [a, b, c, d])"
  by (auto simp: numeral_eq_Suc length_Suc_conv)

section \<open>Words\<close>

lemma unat_add_small:
  fixes a b :: "'a :: len word"
  assumes "unat a + unat b < 2 ^ LENGTH('a)"
  shows "unat (a + b) = unat a + unat b"
  using assms by (simp add: unat_word_ariths)

lemma unat_sub_small:
  fixes a b :: "'a :: len word"
  assumes "unat b \<le> unat a"
  shows "unat (a - b) = unat a - unat b"
  using assms by (simp add: unat_sub word_le_nat_alt)

lemma unat_u32_lt [simp]: "unat (x :: u32) < 4294967296"
  using unsigned_less [of x, where 'a = nat] by simp

end
