(* ===== verification/Wire.thy ===== *)
theory Wire
  imports Prelude
begin

unbundle bit_operations_syntax

text \<open>
  The big-endian loads and stores of \<open>misc.c\<close> (\<open>get_u64\<close> to \<open>put_u16\<close>), which every
  integer of the wire formats goes through, and their round trips.
\<close>

section \<open>Loads and stores\<close>

definition get_u64 :: "byte list \<Rightarrow> u64" where
  "get_u64 p =
     push_bit 56 (ucast (p ! 0)) OR push_bit 48 (ucast (p ! 1)) OR
     push_bit 40 (ucast (p ! 2)) OR push_bit 32 (ucast (p ! 3)) OR
     push_bit 24 (ucast (p ! 4)) OR push_bit 16 (ucast (p ! 5)) OR
     push_bit 8 (ucast (p ! 6)) OR ucast (p ! 7)"

definition get_u32 :: "byte list \<Rightarrow> u32" where
  "get_u32 p =
     push_bit 24 (ucast (p ! 0)) OR push_bit 16 (ucast (p ! 1)) OR
     push_bit 8 (ucast (p ! 2)) OR ucast (p ! 3)"

definition get_u16 :: "byte list \<Rightarrow> u16" where
  "get_u16 p = push_bit 8 (ucast (p ! 0)) OR ucast (p ! 1)"

definition put_u64 :: "u64 \<Rightarrow> byte list" where
  "put_u64 v =
     [ucast (drop_bit 56 v) AND 0xff, ucast (drop_bit 48 v) AND 0xff,
      ucast (drop_bit 40 v) AND 0xff, ucast (drop_bit 32 v) AND 0xff,
      ucast (drop_bit 24 v) AND 0xff, ucast (drop_bit 16 v) AND 0xff,
      ucast (drop_bit 8 v) AND 0xff, ucast v AND 0xff]"

definition put_u32 :: "u32 \<Rightarrow> byte list" where
  "put_u32 v =
     [ucast (drop_bit 24 v) AND 0xff, ucast (drop_bit 16 v) AND 0xff,
      ucast (drop_bit 8 v) AND 0xff, ucast v AND 0xff]"

definition put_u16 :: "u16 \<Rightarrow> byte list" where
  "put_u16 v = [ucast (drop_bit 8 v) AND 0xff, ucast v AND 0xff]"

section \<open>Round trips\<close>

lemma length_put [simp]:
  "length (put_u16 a) = 2" "length (put_u32 b) = 4" "length (put_u64 c) = 8"
  by (simp_all add: put_u16_def put_u32_def put_u64_def)

lemma bit_byte_lt: "bit (b :: byte) n \<Longrightarrow> n < 8"
  using bit_imp_le_length [of b n] by simp

lemma byte_and_ff [simp]: "(x :: byte) AND 0xff = x"
proof -
  have "x AND mask 8 = x" by (auto intro: bit_word_eqI simp: bit_simps)
  then show ?thesis by (simp add: mask_eq_exp_minus_1)
qed

lemma bit_shifted_byte:
  "bit (push_bit k (ucast (b :: byte)) :: 'a :: len word) n \<longleftrightarrow>
     k \<le> n \<and> n < k + 8 \<and> n < LENGTH('a) \<and> bit b (n - k)"
  by (auto simp: bit_simps dest: bit_byte_lt)

lemma bit_ucast_byte:
  "bit (ucast (b :: byte) :: 'a :: len word) n \<longleftrightarrow> n < 8 \<and> n < LENGTH('a) \<and> bit b n"
  by (auto simp: bit_simps dest: bit_byte_lt)

lemma bit_byte_of: "bit (ucast (v :: 'a :: len word) :: byte) n \<longleftrightarrow> n < 8 \<and> bit v n"
  by (auto simp: bit_simps)

lemma bit_shift_down: "bit (drop_bit k (v :: 'a :: len word)) n \<longleftrightarrow> bit v (k + n)"
  by (simp add: bit_simps)

lemmas byte_bits = bit_shifted_byte bit_ucast_byte bit_byte_of bit_shift_down bit_or_iff

text \<open>A bit position below 64 lies in one octet: case analysis on which.\<close>

lemma octet_cases:
  assumes "(n :: nat) < 64"
  obtains k where "k < 8" and "n \<in> {k, 8 + k, 16 + k, 24 + k, 32 + k, 40 + k, 48 + k, 56 + k}"
proof (rule that)
  show "n mod 8 < 8" by simp
  have "n = 8 * (n div 8) + n mod 8" by simp
  moreover have "n div 8 < 8" using assms by simp
  then have "n div 8 \<in> {0, 1, 2, 3, 4, 5, 6, 7}"
    by (simp only: insert_iff empty_iff) presburger
  ultimately show "n \<in> {n mod 8, 8 + n mod 8, 16 + n mod 8, 24 + n mod 8, 32 + n mod 8,
      40 + n mod 8, 48 + n mod 8, 56 + n mod 8}"
    by (elim insertE emptyE) (simp_all add: insert_iff)
qed

lemma get_put_u16 [wire_simps]: "get_u16 (put_u16 v @ r) = v"
proof (rule bit_word_eqI)
  fix n assume n: "n < LENGTH(16)"
  then obtain k where "k < 8" "n = k \<or> n = 8 + k"
    using octet_cases [of n] by auto
  then show "bit (get_u16 (put_u16 v @ r)) n = bit v n"
    by (elim disjE) (simp_all add: get_u16_def put_u16_def byte_bits)
qed

lemma get_put_u32 [wire_simps]: "get_u32 (put_u32 v @ r) = v"
proof (rule bit_word_eqI)
  fix n assume n: "n < LENGTH(32)"
  then obtain k where "k < 8" "n = k \<or> n = 8 + k \<or> n = 16 + k \<or> n = 24 + k"
    using octet_cases [of n] by auto
  then show "bit (get_u32 (put_u32 v @ r)) n = bit v n"
    by (elim disjE) (simp_all add: get_u32_def put_u32_def byte_bits)
qed

lemma get_put_u64 [wire_simps]: "get_u64 (put_u64 v @ r) = v"
proof (rule bit_word_eqI)
  fix n assume n: "n < LENGTH(64)"
  then have n64: "n < 64" by simp
  obtain k where "k < 8" and "n \<in> {k, 8 + k, 16 + k, 24 + k, 32 + k, 40 + k, 48 + k, 56 + k}"
    by (rule octet_cases [OF n64])
  then show "bit (get_u64 (put_u64 v @ r)) n = bit v n"
    by (elim insertE emptyE) (simp_all add: get_u64_def put_u64_def byte_bits)
qed

lemma get_put_u16_Nil [wire_simps]: "get_u16 (put_u16 v) = v"
  using get_put_u16 [of v "[]"] by simp

lemma get_put_u32_Nil [wire_simps]: "get_u32 (put_u32 v) = v"
  using get_put_u32 [of v "[]"] by simp

lemma get_put_u64_Nil [wire_simps]: "get_u64 (put_u64 v) = v"
  using get_put_u64 [of v "[]"] by simp

lemma put_get_u32:
  assumes "length bs = 4"
  shows "put_u32 (get_u32 bs) = bs"
proof -
  obtain a b c d where bs: "bs = [a, b, c, d]" using assms by (auto simp: length_4_conv)
  have "ucast (drop_bit 24 (get_u32 bs)) = a"
    by (rule bit_word_eqI) (simp add: bs get_u32_def byte_bits)
  moreover have "ucast (drop_bit 16 (get_u32 bs)) = b"
    by (rule bit_word_eqI) (simp add: bs get_u32_def byte_bits)
  moreover have "ucast (drop_bit 8 (get_u32 bs)) = c"
    by (rule bit_word_eqI) (simp add: bs get_u32_def byte_bits)
  moreover have "ucast (get_u32 bs) = d"
    by (rule bit_word_eqI) (simp add: bs get_u32_def byte_bits)
  ultimately show ?thesis by (simp add: put_u32_def bs)
qed

lemma ucast_byte_u32 [simp]: "(ucast (ucast (c :: byte) :: u32) :: byte) = c"
  by (rule bit_word_eqI) (simp add: byte_bits)

lemma get_u32_take [simp]: "4 \<le> n \<Longrightarrow> get_u32 (take n bs) = get_u32 bs"
  by (simp add: get_u32_def)

end
