(* ===== verification/SshBuffer.thy ===== *)
theory SshBuffer
  imports Wire
begin

text \<open>
  The growable byte queue of \<open>buffer.c\<close>. A buffer is the allocated block \<open>b_buf\<close> with its
  size \<open>b_alloc\<close> and the offsets of the first used byte (\<open>b_offset\<close>) and of the first free
  one (\<open>b_end\<close>), all three \<open>u_int\<close>s. The interface the rest of the program relies on is the
  locale \<open>byte_queue\<close>: appending adds at the end of \<open>buffer_contents\<close>, getting takes from
  its front, and both keep \<open>buffer_ok\<close>.
\<close>

section \<open>Data\<close>

record buffer =
  b_buf :: "byte list"
  b_alloc :: u32
  b_offset :: u32
  b_end :: u32

abbreviation BUFFER_MAX_CHUNK :: u32 where "BUFFER_MAX_CHUNK \<equiv> 0x100000"
abbreviation BUFFER_MAX_LEN :: u32 where "BUFFER_MAX_LEN \<equiv> 0xa00000"
abbreviation BUFFER_ALLOCSZ :: u32 where "BUFFER_ALLOCSZ \<equiv> 0x8000"

definition roundup :: "u32 \<Rightarrow> u32 \<Rightarrow> u32" where
  "roundup x y = ((x + (y - 1)) div y) * y"

section \<open>Operations\<close>

text \<open>Bytes of a fresh block are unspecified in C; they are 0 here and are only ever visible
  after a store.\<close>

definition buffer_init :: buffer where
  "buffer_init = \<lparr>b_buf = replicate 4096 0, b_alloc = 4096, b_offset = 0, b_end = 0\<rparr>"

definition buffer_free :: "buffer \<Rightarrow> buffer" where
  "buffer_free b = (if b_alloc b > 0 then b\<lparr>b_buf := [], b_alloc := 0\<rparr> else b)"

definition buffer_clear :: "buffer \<Rightarrow> buffer" where
  "buffer_clear b = b\<lparr>b_offset := 0, b_end := 0\<rparr>"

definition buffer_compact :: "buffer \<Rightarrow> bool \<times> buffer" where
  "buffer_compact b =
     (if b_offset b > min (b_alloc b) BUFFER_MAX_CHUNK
      then (True, b\<lparr>b_buf := overwrite 0
              (take (unat (b_end b - b_offset b)) (drop (unat (b_offset b)) (b_buf b))) (b_buf b),
            b_end := b_end b - b_offset b, b_offset := 0\<rparr>)
      else (False, b))"

definition buffer_rewind :: "buffer \<Rightarrow> buffer" where
  "buffer_rewind b = (if b_offset b = b_end b then b\<lparr>b_offset := 0, b_end := 0\<rparr> else b)"

text \<open>\<open>xrealloc\<close> to \<open>newlen\<close> bytes: the old bytes stay, the new ones are unspecified.\<close>

definition buffer_grow :: "buffer \<Rightarrow> u32 \<Rightarrow> buffer" where
  "buffer_grow b newlen = b\<lparr>b_buf := take (unat newlen) (b_buf b) @
     replicate (unat newlen - length (b_buf b)) 0, b_alloc := newlen\<rparr>"

text \<open>The code after the label \<open>restart\<close>; \<open>fuel\<close> bounds the number of jumps back to it.\<close>

fun append_restart :: "nat \<Rightarrow> buffer \<Rightarrow> u32 \<Rightarrow> (u32 \<times> buffer) result" where
  "append_restart 0 b len = Inl NoReturn"
| "append_restart (Suc fuel) b len =
     (if b_end b + len < b_alloc b
      then Inr (b_end b, b\<lparr>b_end := b_end b + len\<rparr>)
      else let (moved, b') = buffer_compact b in
        if moved then append_restart fuel b' len
        else let newlen = roundup (b_alloc b' + len) BUFFER_ALLOCSZ in
          if newlen > BUFFER_MAX_LEN then Inl (Fatal ''buffer_append_space: alloc not supported'')
          else if newlen = 0 then Inl (Fatal ''xrealloc: zero size'')
          else append_restart fuel (buffer_grow b' newlen) len)"

declare append_restart.simps(2) [simp del]

definition buffer_append_space :: "buffer \<Rightarrow> u32 \<Rightarrow> (u32 \<times> buffer) result" where
  "buffer_append_space b len =
     (if len > BUFFER_MAX_CHUNK then Inl (Fatal ''buffer_append_space: len not supported'')
      else append_restart 3 (buffer_rewind b) len)"

definition buffer_append :: "buffer \<Rightarrow> byte list \<Rightarrow> u32 \<Rightarrow> buffer result" where
  "buffer_append b data len =
     rbind (buffer_append_space b len)
       (\<lambda>(p, b'). Inr (b'\<lparr>b_buf := overwrite (unat p) (take (unat len) data) (b_buf b')\<rparr>))"

fun check_restart :: "nat \<Rightarrow> buffer \<Rightarrow> u32 \<Rightarrow> (bool \<times> buffer) result" where
  "check_restart 0 b len = Inl NoReturn"
| "check_restart (Suc fuel) b len =
     (if b_end b + len < b_alloc b then Inr (True, b)
      else let (moved, b') = buffer_compact b in
        if moved then check_restart fuel b' len
        else Inr (roundup (b_alloc b' + len) BUFFER_ALLOCSZ \<le> BUFFER_MAX_LEN, b'))"

declare check_restart.simps(2) [simp del]

definition buffer_check_alloc :: "buffer \<Rightarrow> u32 \<Rightarrow> (bool \<times> buffer) result" where
  "buffer_check_alloc b len = check_restart 2 (buffer_rewind b) len"

definition buffer_len :: "buffer \<Rightarrow> u32" where
  "buffer_len b = b_end b - b_offset b"

definition buffer_get_ret :: "buffer \<Rightarrow> u32 \<Rightarrow> (byte list \<times> buffer) option" where
  "buffer_get_ret b len =
     (if len > b_end b - b_offset b then None
      else Some (take (unat len) (drop (unat (b_offset b)) (b_buf b)),
                 b\<lparr>b_offset := b_offset b + len\<rparr>))"

definition buffer_get :: "buffer \<Rightarrow> u32 \<Rightarrow> (byte list \<times> buffer) result" where
  "buffer_get b len =
     (case buffer_get_ret b len of None \<Rightarrow> Inl (Fatal ''buffer_get: buffer error'') | Some r \<Rightarrow> Inr r)"

definition buffer_consume_ret :: "buffer \<Rightarrow> u32 \<Rightarrow> buffer option" where
  "buffer_consume_ret b bytes =
     (if bytes > b_end b - b_offset b then None else Some (b\<lparr>b_offset := b_offset b + bytes\<rparr>))"

definition buffer_consume :: "buffer \<Rightarrow> u32 \<Rightarrow> buffer result" where
  "buffer_consume b bytes =
     (case buffer_consume_ret b bytes of
        None \<Rightarrow> Inl (Fatal ''buffer_consume: buffer error'') | Some b' \<Rightarrow> Inr b')"

definition buffer_consume_end_ret :: "buffer \<Rightarrow> u32 \<Rightarrow> buffer option" where
  "buffer_consume_end_ret b bytes =
     (if bytes > b_end b - b_offset b then None else Some (b\<lparr>b_end := b_end b - bytes\<rparr>))"

definition buffer_consume_end :: "buffer \<Rightarrow> u32 \<Rightarrow> buffer result" where
  "buffer_consume_end b bytes =
     (case buffer_consume_end_ret b bytes of
        None \<Rightarrow> Inl (Fatal ''buffer_consume_end: trying to get more bytes than in buffer'')
      | Some b' \<Rightarrow> Inr b')"

text \<open>\<open>buffer_ptr\<close> points at the first used byte: the block from there to its end.\<close>

definition buffer_ptr :: "buffer \<Rightarrow> byte list" where
  "buffer_ptr b = drop (unat (b_offset b)) (b_buf b)"

section \<open>Invariant and abstraction\<close>

definition buffer_ok :: "buffer \<Rightarrow> bool" where
  "buffer_ok b \<longleftrightarrow> unat (b_offset b) \<le> unat (b_end b) \<and> unat (b_end b) < unat (b_alloc b) \<and>
     unat (b_alloc b) = length (b_buf b) \<and> unat (b_alloc b) \<le> unat BUFFER_MAX_LEN"

definition buffer_contents :: "buffer \<Rightarrow> byte list" where
  "buffer_contents b = drop (unat (b_offset b)) (take (unat (b_end b)) (b_buf b))"

lemma length_contents: "buffer_ok b \<Longrightarrow> length (buffer_contents b) = unat (b_end b) - unat (b_offset b)"
  by (simp add: buffer_ok_def buffer_contents_def)

lemma unat_buffer_len: "buffer_ok b \<Longrightarrow> unat (buffer_len b) = length (buffer_contents b)"
  by (simp add: length_contents buffer_len_def unat_sub_small buffer_ok_def)

lemma contents_ptr: "buffer_ok b \<Longrightarrow> buffer_contents b = take (unat (buffer_len b)) (buffer_ptr b)"
  by (simp add: unat_buffer_len length_contents) (simp add: buffer_contents_def buffer_ptr_def drop_take)

lemma buffer_init_ok [inv_intros, simp]: "buffer_ok buffer_init"
  by (simp add: buffer_ok_def buffer_init_def)

lemma contents_init [simp]: "buffer_contents buffer_init = []"
  by (simp add: buffer_contents_def buffer_init_def)

lemma buffer_clear_ok [inv_intros]: "buffer_ok b \<Longrightarrow> buffer_ok (buffer_clear b)"
  by (auto simp: buffer_ok_def buffer_clear_def)

lemma contents_clear [simp]: "buffer_contents (buffer_clear b) = []"
  by (simp add: buffer_contents_def buffer_clear_def)

lemma buffer_rewind_ok: "buffer_ok b \<Longrightarrow> buffer_ok (buffer_rewind b)"
  by (auto simp: buffer_ok_def buffer_rewind_def)

lemma contents_rewind: "buffer_contents (buffer_rewind b) = buffer_contents b"
  by (simp add: buffer_rewind_def buffer_contents_def)

lemma buffer_compact_ok:
  assumes ok: "buffer_ok b" and c: "buffer_compact b = (m, b')"
  shows "buffer_ok b'" and "buffer_contents b' = buffer_contents b"
    and "m \<Longrightarrow> b_offset b' = 0" and "b_alloc b' = b_alloc b" and "\<not> m \<Longrightarrow> b' = b"
proof -
  let ?n = "unat (b_end b - b_offset b)"
  have n: "?n = unat (b_end b) - unat (b_offset b)"
    using ok by (simp add: buffer_ok_def unat_sub_small)
  let ?d = "take ?n (drop (unat (b_offset b)) (b_buf b))"
  have d: "length ?d = ?n" "0 + length ?d \<le> length (b_buf b)"
    using ok n by (auto simp: buffer_ok_def)
  have t: "take ?n (overwrite 0 ?d (b_buf b)) = ?d"
    using take_overwrite_end [of 0 "b_buf b" ?d] d(1) by simp
  show "buffer_ok b'" "b_alloc b' = b_alloc b" "\<not> m \<Longrightarrow> b' = b"
    using ok c d n by (auto simp: buffer_compact_def buffer_ok_def split: if_splits)
  show "m \<Longrightarrow> b_offset b' = 0"
    using c by (auto simp: buffer_compact_def split: if_splits)
  show "buffer_contents b' = buffer_contents b"
    using c t n by (auto simp: buffer_compact_def buffer_contents_def drop_take split: if_splits)
qed

text \<open>What the reallocation computes: a multiple of \<open>BUFFER_ALLOCSZ\<close> that is large enough.\<close>

lemma unat_roundup:
  assumes "unat x < 0x80000000"
  shows "unat (roundup x BUFFER_ALLOCSZ) = (unat x + 0x7fff) div 0x8000 * 0x8000"
proof -
  have s: "unat (x + (BUFFER_ALLOCSZ - 1)) = unat x + 0x7fff"
    using assms by (simp add: unat_add_small)
  have "(unat x + 0x7fff) div 0x8000 * 0x8000 \<le> unat x + 0x7fff" by simp
  also have "\<dots> < 2 ^ 32" using assms by simp
  finally have b: "(unat x + 0x7fff) div 0x8000 * 0x8000 < 2 ^ 32" .
  then show ?thesis
    using s unat_mult_lem [of "(x + (BUFFER_ALLOCSZ - 1)) div BUFFER_ALLOCSZ" BUFFER_ALLOCSZ]
    by (simp add: roundup_def unat_div)
qed

lemma roundup_ge: "unat x < 0x80000000 \<Longrightarrow> unat x \<le> unat (roundup x BUFFER_ALLOCSZ)"
  by (simp add: unat_roundup)

text \<open>The space an append hands out starts where the old contents end.\<close>

definition appended :: "buffer \<Rightarrow> u32 \<Rightarrow> u32 \<Rightarrow> buffer \<Rightarrow> bool" where
  "appended b len p b' \<longleftrightarrow> buffer_ok b' \<and> unat p + unat len = unat (b_end b') \<and>
     unat (b_offset b') \<le> unat p \<and>
     drop (unat (b_offset b')) (take (unat p) (b_buf b')) = buffer_contents b"

abbreviation too_big :: error where
  "too_big \<equiv> Fatal ''buffer_append_space: alloc not supported''"

lemma fits_iff:
  "buffer_ok b \<Longrightarrow> unat len \<le> 0x100000 \<Longrightarrow>
   b_end b + len < b_alloc b \<longleftrightarrow> unat (b_end b) + unat len < unat (b_alloc b)"
  by (simp add: word_less_nat_alt buffer_ok_def unat_add_small)

lemmas restart_step = append_restart.simps(2) check_restart.simps(2)

lemma restart_fits:
  assumes "buffer_ok b" "unat len \<le> 0x100000" "b_end b + len < b_alloc b"
  shows "\<exists>p b'. append_restart (Suc f) b len = Inr (p, b') \<and> appended b len p b'"
  using assms fits_iff [OF assms(1,2)]
  by (simp add: append_restart.simps(2) appended_def buffer_ok_def unat_add_small buffer_contents_def)

lemma appended_cong: "buffer_contents b = buffer_contents c \<Longrightarrow> appended b len p b' = appended c len p b'"
  by (simp add: appended_def)

lemma buffer_grow_ok:
  assumes ok: "buffer_ok b" and len: "unat len \<le> 0x100000"
    and n: "newlen = roundup (b_alloc b + len) BUFFER_ALLOCSZ" "newlen \<le> BUFFER_MAX_LEN"
  shows "buffer_ok (buffer_grow b newlen)" and "buffer_contents (buffer_grow b newlen) = buffer_contents b"
    and "b_end (buffer_grow b newlen) + len < b_alloc (buffer_grow b newlen)"
proof -
  have s: "unat (b_alloc b + len) = unat (b_alloc b) + unat len"
    using ok len by (simp add: buffer_ok_def unat_add_small)
  have g: "unat (b_alloc b) + unat len \<le> unat newlen"
    using ok len roundup_ge [of "b_alloc b + len"] s n(1) by (simp add: buffer_ok_def)
  have m: "unat newlen \<le> 0xa00000" using n(2) by (simp add: word_le_nat_alt)
  show ok': "buffer_ok (buffer_grow b newlen)"
    using ok g m by (auto simp: buffer_ok_def buffer_grow_def)
  show "buffer_contents (buffer_grow b newlen) = buffer_contents b"
    using ok g by (auto simp: buffer_ok_def buffer_grow_def buffer_contents_def)
  show "b_end (buffer_grow b newlen) + len < b_alloc (buffer_grow b newlen)"
    using ok g fits_iff [OF ok' len] by (simp add: buffer_grow_def buffer_ok_def)
qed

lemma restart_grow:
  assumes ok: "buffer_ok b" and len: "unat len \<le> 0x100000"
    and no: "\<not> b_end b + len < b_alloc b" and c: "buffer_compact b = (False, b)"
  shows "if roundup (b_alloc b + len) BUFFER_ALLOCSZ \<le> BUFFER_MAX_LEN
         then \<exists>p b'. append_restart (Suc (Suc f)) b len = Inr (p, b') \<and> appended b len p b'
         else append_restart (Suc (Suc f)) b len = Inl too_big"
proof (cases "roundup (b_alloc b + len) BUFFER_ALLOCSZ \<le> BUFFER_MAX_LEN")
  case True
  let ?n = "roundup (b_alloc b + len) BUFFER_ALLOCSZ"
  note g = buffer_grow_ok [OF ok len refl True]
  have nz: "?n \<noteq> 0" using g(1) by (auto simp: buffer_ok_def buffer_grow_def)
  have "append_restart (Suc (Suc f)) b len = append_restart (Suc f) (buffer_grow b ?n) len"
    using no c leD [OF True] nz by (subst append_restart.simps(2)) simp
  with restart_fits [OF g(1) len g(3), of f] True g(2) show ?thesis
    by (auto simp: appended_cong [OF g(2)])
next
  case False
  then have "BUFFER_MAX_LEN < roundup (b_alloc b + len) BUFFER_ALLOCSZ" by simp
  with no c False show ?thesis by (simp add: append_restart.simps(2))
qed

text \<open>Three passes are enough: compact, grow, store.\<close>

lemma append_space_spec:
  assumes ok: "buffer_ok b" and len: "len \<le> BUFFER_MAX_CHUNK"
  shows "(\<exists>p b'. buffer_append_space b len = Inr (p, b') \<and> appended b len p b' \<and>
            (\<exists>c. buffer_check_alloc b len = Inr (True, c))) \<or>
         buffer_append_space b len = Inl too_big \<and> (\<exists>c. buffer_check_alloc b len = Inr (False, c))"
proof -
  let ?r = "buffer_rewind b"
  have l: "unat len \<le> 0x100000" using len by (simp add: word_le_nat_alt)
  have okr: "buffer_ok ?r" and cr: "buffer_contents ?r = buffer_contents b"
    using ok by (simp_all add: buffer_rewind_ok contents_rewind)
  have u: "buffer_append_space b len = append_restart (Suc (Suc (Suc 0))) ?r len"
    "buffer_check_alloc b len = check_restart (Suc (Suc 0)) ?r len"
    using len by (auto simp: buffer_append_space_def buffer_check_alloc_def numeral_eq_Suc
      simp del: append_restart.simps)
  obtain m c where comp: "buffer_compact ?r = (m, c)" by fastforce
  note cok = buffer_compact_ok [OF okr comp]
  show ?thesis
  proof (cases "b_end ?r + len < b_alloc ?r")
    case True
    with restart_fits [OF okr l True] show ?thesis
      by (auto simp: u restart_step appended_cong [OF cr])
  next
    case no: False
    show ?thesis
    proof (cases m)
      case True
      have again: "buffer_compact c = (False, c)"
        using cok(3) [OF True] by (simp add: buffer_compact_def not_less)
      have cc: "buffer_contents c = buffer_contents b" using cok(2) cr by simp
      show ?thesis
      proof (cases "b_end c + len < b_alloc c")
        case fits: True
        with no True comp restart_fits [OF cok(1) l fits] show ?thesis
          by (auto simp: u restart_step appended_cong [OF cc])
      next
        case False
        with no True comp again restart_grow [OF cok(1) l False again, of 0] show ?thesis
          by (auto simp: u restart_step appended_cong [OF cc] split: if_splits)
      qed
    next
      case False
      then have cb: "c = ?r" "buffer_compact ?r = (False, ?r)" using cok(5) comp by auto
      with no restart_grow [OF okr l no cb(2), of "Suc 0"] show ?thesis
        by (auto simp: u restart_step appended_cong [OF cr] split: if_splits)
    qed
  qed
qed

section \<open>The interface of a byte queue\<close>

text \<open>
  What the users of a buffer rely on. \<open>app q d\<close> is \<open>None\<close> when the process ends in
  \<open>fatal\<close>; \<open>get q n\<close> is \<open>None\<close> when fewer than \<open>n\<close> bytes are queued.
\<close>

locale byte_queue =
  fixes contents :: "'q \<Rightarrow> byte list"
    and invar :: "'q \<Rightarrow> bool"
    and app :: "'q \<Rightarrow> byte list \<Rightarrow> 'q option"
    and get :: "'q \<Rightarrow> nat \<Rightarrow> (byte list \<times> 'q) option"
  assumes app_law: "invar q \<Longrightarrow> app q d = Some q' \<Longrightarrow> invar q' \<and> contents q' = contents q @ d"
    and get_law: "invar q \<Longrightarrow> n \<le> length (contents q) \<Longrightarrow>
      \<exists>q'. get q n = Some (take n (contents q), q') \<and> invar q' \<and> contents q' = drop n (contents q)"
    and get_short: "invar q \<Longrightarrow> length (contents q) < n \<Longrightarrow> get q n = None"
begin

lemma get_prefix:
  assumes "invar q" and "contents q = d @ r"
  shows "\<exists>q'. get q (length d) = Some (d, q') \<and> invar q' \<and> contents q' = r"
  using get_law [OF assms(1), of "length d"] assms(2) by auto

lemma get_SomeD:
  assumes "invar q" and "get q n = Some (d, q')"
  shows "d = take n (contents q) \<and> length d = n \<and> invar q' \<and> contents q = d @ contents q'"
proof (cases "n \<le> length (contents q)")
  case True
  then show ?thesis using get_law [OF assms(1) True] assms(2) by auto
next
  case False
  then show ?thesis using get_short [OF assms(1), of n] assms(2) by simp
qed

lemma fifo:
  assumes "invar q" and "contents q = []" and "app q d = Some q1" and "app q1 e = Some q2"
  shows "\<exists>q3 q4. get q2 (length d) = Some (d, q3) \<and> get q3 (length e) = Some (e, q4) \<and>
    contents q4 = []"
proof -
  have q1: "invar q1" "contents q1 = d" using app_law assms by auto
  then have q2: "invar q2" "contents q2 = d @ e" using app_law assms(4) by auto
  from get_prefix [OF q2] obtain q3 where q3: "get q2 (length d) = Some (d, q3)" "invar q3"
    "contents q3 = e @ []" by auto
  from get_prefix [OF q3(2,3)] q3 show ?thesis by auto
qed

end

section \<open>Buffers are byte queues\<close>

definition buf_app :: "buffer \<Rightarrow> byte list \<Rightarrow> buffer option" where
  "buf_app b d = (if length d < 2 ^ 32 then the_result (buffer_append b d (of_nat (length d))) else None)"

definition buf_get :: "buffer \<Rightarrow> nat \<Rightarrow> (byte list \<times> buffer) option" where
  "buf_get b n = (if n < 2 ^ 32 then buffer_get_ret b (of_nat n) else None)"

lemma append_spec:
  assumes ok: "buffer_ok b" and app: "buffer_append b d len = Inr b'" and len: "unat len \<le> length d"
  shows "buffer_ok b'" and "buffer_contents b' = buffer_contents b @ take (unat len) d"
proof -
  from app obtain p c where sp: "buffer_append_space b len = Inr (p, c)"
    and b': "b' = c\<lparr>b_buf := overwrite (unat p) (take (unat len) d) (b_buf c)\<rparr>"
    by (auto simp: buffer_append_def)
  then have "len \<le> BUFFER_MAX_CHUNK" by (auto simp: buffer_append_space_def split: if_splits)
  with append_space_spec [OF ok] sp have a: "appended b len p c" by fastforce
  have fit: "unat p + length (take (unat len) d) \<le> length (b_buf c)"
    using a len by (simp add: appended_def buffer_ok_def)
  show "buffer_ok b'" using a fit b' by (simp add: appended_def buffer_ok_def)
  have "take (unat (b_end c)) (overwrite (unat p) (take (unat len) d) (b_buf c)) =
      take (unat p) (b_buf c) @ take (unat len) d"
    using take_overwrite_end [of "unat p" "b_buf c" "take (unat len) d"] a len fit
    by (simp add: appended_def)
  then show "buffer_contents b' = buffer_contents b @ take (unat len) d"
    using a fit b' by (simp add: appended_def buffer_contents_def)
qed

lemma get_ret_spec:
  assumes ok: "buffer_ok b"
  shows "buffer_get_ret b len = (if unat len \<le> length (buffer_contents b)
    then Some (take (unat len) (buffer_contents b), b\<lparr>b_offset := b_offset b + len\<rparr>) else None)"
proof -
  have "len > b_end b - b_offset b \<longleftrightarrow> \<not> unat len \<le> length (buffer_contents b)"
    using unat_buffer_len [OF ok] by (simp add: buffer_len_def word_less_nat_alt not_le)
  moreover have "unat len \<le> length (buffer_contents b) \<Longrightarrow>
      take (unat len) (drop (unat (b_offset b)) (b_buf b)) = take (unat len) (buffer_contents b)"
    using ok by (simp add: length_contents) (simp add: buffer_contents_def drop_take min_def)
  ultimately show ?thesis by (simp add: buffer_get_ret_def)
qed

lemma consumed_ok:
  assumes ok: "buffer_ok b" and len: "unat len \<le> length (buffer_contents b)"
  shows "buffer_ok (b\<lparr>b_offset := b_offset b + len\<rparr>)"
    and "buffer_contents (b\<lparr>b_offset := b_offset b + len\<rparr>) = drop (unat len) (buffer_contents b)"
proof -
  have "unat (b_offset b + len) = unat (b_offset b) + unat len"
    using ok len by (intro unat_add_small) (auto simp: length_contents buffer_ok_def)
  then show "buffer_ok (b\<lparr>b_offset := b_offset b + len\<rparr>)"
    "buffer_contents (b\<lparr>b_offset := b_offset b + len\<rparr>) = drop (unat len) (buffer_contents b)"
    using ok len by (auto simp: length_contents buffer_ok_def buffer_contents_def add.commute)
qed

interpretation bq: byte_queue buffer_contents buffer_ok buf_app buf_get
proof
  fix b d b' assume "buffer_ok b" "buf_app b d = Some b'"
  then show "buffer_ok b' \<and> buffer_contents b' = buffer_contents b @ d"
    using append_spec [of b d "of_nat (length d)" b']
    by (auto simp: buf_app_def the_result_def unat_of_nat split: if_splits sum.splits)
next
  fix b n assume ok: "buffer_ok b" and n: "n \<le> length (buffer_contents b)"
  then have "n < 2 ^ 32" by (auto simp: length_contents buffer_ok_def)
  with n show "\<exists>b'. buf_get b n = Some (take n (buffer_contents b), b') \<and> buffer_ok b' \<and>
      buffer_contents b' = drop n (buffer_contents b)"
    using consumed_ok [OF ok, of "of_nat n"] by (simp add: buf_get_def get_ret_spec [OF ok] unat_of_nat)
next
  fix b n assume ok: "buffer_ok b" and n: "length (buffer_contents b) < n"
  then show "buf_get b n = None"
    by (simp add: buf_get_def get_ret_spec [OF ok] unat_of_nat)
qed

section \<open>Properties\<close>

text \<open>C23: \<open>buffer_check_alloc\<close> and \<open>buffer_append_space\<close> agree: on a well-formed buffer and a
  length both support, the check says yes exactly when the append succeeds, the space then
  handed out lies behind the old contents and in a well-formed buffer, and the only other
  outcome is the \<open>fatal\<close> for a buffer grown too large. Neither ever jumps back to its label
  forever.\<close>

theorem check_alloc_agrees_with_append:
  assumes "buffer_ok b" and "len \<le> BUFFER_MAX_CHUNK"
  shows "(\<exists>p b' c. buffer_append_space b len = Inr (p, b') \<and> buffer_check_alloc b len = Inr (True, c) \<and>
      buffer_ok b' \<and> unat (b_end b') = unat p + unat len \<and>
      drop (unat (b_offset b')) (take (unat p) (b_buf b')) = buffer_contents b) \<or>
    (\<exists>c. buffer_append_space b len = Inl too_big \<and> buffer_check_alloc b len = Inr (False, c))"
  using append_space_spec [OF assms] by (auto simp: appended_def)

definition demo_buffer :: buffer where
  "demo_buffer = \<lparr>b_buf = [9, 1, 2, 0, 0, 0, 0, 0], b_alloc = 8, b_offset = 1, b_end = 3\<rparr>"

lemma demo_buffer_ok: "buffer_ok demo_buffer"
  by (simp add: buffer_ok_def demo_buffer_def)

theorem check_alloc_agrees_with_append_witness:
  "\<exists>p b' c. buffer_append_space demo_buffer 4 = Inr (p, b') \<and>
     buffer_check_alloc demo_buffer 4 = Inr (True, c) \<and> buffer_ok b' \<and> b_end b' = 7"
proof -
  have s: "buffer_append_space demo_buffer 4 = Inr (3, demo_buffer\<lparr>b_end := 7\<rparr>)"
    by (simp add: buffer_append_space_def demo_buffer_def buffer_rewind_def numeral_3_eq_3
      append_restart.simps(2))
  with check_alloc_agrees_with_append [OF demo_buffer_ok, of 4] show ?thesis by simp
qed

text \<open>The guard of \<open>buffer_check_alloc\<close> alone does not protect an append of arbitrary length:
  its sum is a \<open>u_int\<close>, and for lengths near the top of the type it wraps and answers yes,
  while \<open>buffer_append_space\<close> on the same buffer ends the process.\<close>

theorem check_alloc_wraps:
  "buffer_check_alloc buffer_init 0xfffffff0 = Inr (True, buffer_init) \<and>
   buffer_append_space buffer_init 0xfffffff0 = Inl (Fatal ''buffer_append_space: len not supported'')"
proof -
  have r: "buffer_rewind buffer_init = buffer_init" by (simp add: buffer_rewind_def buffer_init_def)
  have c: "buffer_compact buffer_init = (False, buffer_init)"
    by (simp add: buffer_compact_def buffer_init_def)
  have a: "b_alloc buffer_init = 4096" "b_end buffer_init = 0" by (simp_all add: buffer_init_def)
  have "roundup (4096 + 0xfffffff0) BUFFER_ALLOCSZ \<le> BUFFER_MAX_LEN"
    by (simp add: roundup_def word_le_nat_alt unat_div unat_word_ariths)
  then have "buffer_check_alloc buffer_init 0xfffffff0 = Inr (True, buffer_init)"
    using check_restart.simps(2) [of "Suc 0" buffer_init "0xfffffff0"]
    unfolding buffer_check_alloc_def numeral_2_eq_2 by (simp add: r c a)
  then show ?thesis by (simp add: buffer_append_space_def)
qed

text \<open>C24: A buffer is first in, first out: what two appends stored in an empty well-formed buffer,
  two reads of the same lengths return in that order, leaving the buffer empty.\<close>

theorem buffer_fifo:
  assumes "buffer_ok b" and "buffer_contents b = []"
    and "buf_app b d = Some b1" and "buf_app b1 e = Some b2"
  shows "\<exists>b3 b4. buf_get b2 (length d) = Some (d, b3) \<and> buf_get b3 (length e) = Some (e, b4) \<and>
    buffer_contents b4 = []"
  using assms by (rule bq.fifo)

lemma demo_append:
  "buf_app \<lparr>b_buf = [0, 0, 0, 0, 0, 0, 0, 0], b_alloc = 8, b_offset = 0, b_end = 0\<rparr> [1, 2] =
     Some \<lparr>b_buf = [1, 2, 0, 0, 0, 0, 0, 0], b_alloc = 8, b_offset = 0, b_end = 2\<rparr>"
  "buf_app \<lparr>b_buf = [1, 2, 0, 0, 0, 0, 0, 0], b_alloc = 8, b_offset = 0, b_end = 2\<rparr> [3] =
     Some \<lparr>b_buf = [1, 2, 3, 0, 0, 0, 0, 0], b_alloc = 8, b_offset = 0, b_end = 3\<rparr>"
  by (simp_all add: buf_app_def the_result_def buffer_append_def buffer_append_space_def
    buffer_rewind_def numeral_3_eq_3 append_restart.simps(2) overwrite_def)

theorem buffer_fifo_witness:
  "\<exists>b3 b4. buf_get \<lparr>b_buf = [1, 2, 3, 0, 0, 0, 0, 0], b_alloc = 8, b_offset = 0, b_end = 3\<rparr>
       (length [1, 2 :: byte]) = Some ([1, 2], b3) \<and> buf_get b3 1 = Some ([3], b4) \<and> buffer_contents b4 = []"
  using buffer_fifo [OF _ _ demo_append] by (simp add: buffer_ok_def buffer_contents_def)

end
