(* ===== verification/Bufaux.thy ===== *)
theory Bufaux
  imports SshBuffer
begin

text \<open>
  The typed reads and writes of \<open>bufaux.c\<close> on top of \<open>SshBuffer\<close>: integers, strings and
  characters. The \<open>_ret\<close> variants report failure to the caller, the others end the process.
  Every pair is an instance of the locale \<open>wire_codec\<close>, which states once that what was put
  is what is got.
\<close>

section \<open>Integers\<close>

definition buffer_get_short_ret :: "buffer \<Rightarrow> (u16 \<times> buffer) option" where
  "buffer_get_short_ret b =
     (case buffer_get_ret b 2 of None \<Rightarrow> None | Some (bs, b') \<Rightarrow> Some (get_u16 bs, b'))"

definition buffer_get_short :: "buffer \<Rightarrow> (u16 \<times> buffer) result" where
  "buffer_get_short b =
     (case buffer_get_short_ret b of
        None \<Rightarrow> Inl (Fatal ''buffer_get_short: buffer error'') | Some r \<Rightarrow> Inr r)"

definition buffer_get_int_ret :: "buffer \<Rightarrow> (u32 \<times> buffer) option" where
  "buffer_get_int_ret b =
     (case buffer_get_ret b 4 of None \<Rightarrow> None | Some (bs, b') \<Rightarrow> Some (get_u32 bs, b'))"

definition buffer_get_int :: "buffer \<Rightarrow> (u32 \<times> buffer) result" where
  "buffer_get_int b =
     (case buffer_get_int_ret b of
        None \<Rightarrow> Inl (Fatal ''buffer_get_int: buffer error'') | Some r \<Rightarrow> Inr r)"

definition buffer_get_int64_ret :: "buffer \<Rightarrow> (u64 \<times> buffer) option" where
  "buffer_get_int64_ret b =
     (case buffer_get_ret b 8 of None \<Rightarrow> None | Some (bs, b') \<Rightarrow> Some (get_u64 bs, b'))"

definition buffer_get_int64 :: "buffer \<Rightarrow> (u64 \<times> buffer) result" where
  "buffer_get_int64 b =
     (case buffer_get_int64_ret b of
        None \<Rightarrow> Inl (Fatal ''buffer_get_int: buffer error'') | Some r \<Rightarrow> Inr r)"

definition buffer_put_short :: "buffer \<Rightarrow> u16 \<Rightarrow> buffer result" where
  "buffer_put_short b value = buffer_append b (put_u16 value) 2"

definition buffer_put_int :: "buffer \<Rightarrow> u32 \<Rightarrow> buffer result" where
  "buffer_put_int b value = buffer_append b (put_u32 value) 4"

definition buffer_put_int64 :: "buffer \<Rightarrow> u64 \<Rightarrow> buffer result" where
  "buffer_put_int64 b value = buffer_append b (put_u64 value) 8"

section \<open>Strings\<close>

text \<open>
  A failed string read has already consumed the length word: the buffer it leaves is part of
  the result. The terminating NUL that the code appends to the copy is not part of the list.
\<close>

definition buffer_get_string_ret :: "buffer \<Rightarrow> byte list option \<times> buffer" where
  "buffer_get_string_ret b =
     (case buffer_get_int_ret b of
        None \<Rightarrow> (None, b)
      | Some (len, b1) \<Rightarrow>
          if len > 256 * 1024 then (None, b1)
          else case buffer_get_ret b1 len of
                 None \<Rightarrow> (None, b1)
               | Some (value, b2) \<Rightarrow> (Some value, b2))"

definition buffer_get_string :: "buffer \<Rightarrow> (byte list \<times> buffer) result" where
  "buffer_get_string b =
     (case buffer_get_string_ret b of
        (None, _) \<Rightarrow> Inl (Fatal ''buffer_get_string: buffer error'')
      | (Some s, b') \<Rightarrow> Inr (s, b'))"

text \<open>\<open>memchr\<close>: the position of the first \<open>c\<close>, if there is one.\<close>

fun memchr :: "byte \<Rightarrow> byte list \<Rightarrow> nat option" where
  "memchr c [] = None"
| "memchr c (x # xs) = (if x = c then Some 0 else map_option Suc (memchr c xs))"

definition buffer_get_cstring_ret :: "buffer \<Rightarrow> byte list option \<times> buffer" where
  "buffer_get_cstring_ret b =
     (case buffer_get_string_ret b of
        (None, b') \<Rightarrow> (None, b')
      | (Some ret, b') \<Rightarrow>
          (case memchr 0 ret of
             None \<Rightarrow> (Some ret, b')
           | Some cp \<Rightarrow> if cp = length ret - 1 then (Some ret, b') else (None, b')))"

definition buffer_get_cstring :: "buffer \<Rightarrow> (byte list \<times> buffer) result" where
  "buffer_get_cstring b =
     (case buffer_get_cstring_ret b of
        (None, _) \<Rightarrow> Inl (Fatal ''buffer_get_cstring: buffer error'')
      | (Some s, b') \<Rightarrow> Inr (s, b'))"

definition buffer_get_string_ptr_ret :: "buffer \<Rightarrow> (byte list option \<times> buffer) result" where
  "buffer_get_string_ptr_ret b =
     (case buffer_get_int_ret b of
        None \<Rightarrow> Inr (None, b)
      | Some (len, b1) \<Rightarrow>
          if len > 256 * 1024 then Inr (None, b1)
          else let ptr = take (unat len) (buffer_ptr b1) in
            rbind (buffer_consume b1 len) (\<lambda>b2. Inr (Some ptr, b2)))"

definition buffer_get_string_ptr :: "buffer \<Rightarrow> (byte list \<times> buffer) result" where
  "buffer_get_string_ptr b =
     rbind (buffer_get_string_ptr_ret b) (\<lambda>(r, b').
       case r of None \<Rightarrow> Inl (Fatal ''buffer_get_string_ptr: buffer error'') | Some s \<Rightarrow> Inr (s, b'))"

definition buffer_put_string :: "buffer \<Rightarrow> byte list \<Rightarrow> u32 \<Rightarrow> buffer result" where
  "buffer_put_string b buf len = rbind (buffer_put_int b len) (\<lambda>b'. buffer_append b' buf len)"

text \<open>A C string is the list of its bytes, up to but without the NUL.\<close>

definition strlen :: "byte list \<Rightarrow> u32" where
  "strlen s = of_nat (length (takeWhile (\<lambda>c. c \<noteq> 0) s))"

definition buffer_put_cstring :: "buffer \<Rightarrow> byte list option \<Rightarrow> buffer result" where
  "buffer_put_cstring b s =
     (case s of
        None \<Rightarrow> Inl (Fatal ''buffer_put_cstring: s == NULL'')
      | Some s \<Rightarrow> buffer_put_string b s (strlen s))"

section \<open>Characters\<close>

definition buffer_get_char_ret :: "buffer \<Rightarrow> (byte \<times> buffer) option" where
  "buffer_get_char_ret b =
     (case buffer_get_ret b 1 of None \<Rightarrow> None | Some (bs, b') \<Rightarrow> Some (bs ! 0, b'))"

definition buffer_get_char :: "buffer \<Rightarrow> (byte \<times> buffer) result" where
  "buffer_get_char b =
     (case buffer_get_char_ret b of
        None \<Rightarrow> Inl (Fatal ''buffer_get_char: buffer error'') | Some r \<Rightarrow> Inr r)"

definition buffer_put_char :: "buffer \<Rightarrow> u32 \<Rightarrow> buffer result" where
  "buffer_put_char b value = buffer_append b [ucast value] 1"

section \<open>The codec interface\<close>

text \<open>
  A writer \<open>put\<close> and a reader \<open>get\<close> of values of one kind: the writer appends the encoding
  \<open>enc v\<close>, the reader takes an encoding off the front.
\<close>

locale wire_codec =
  fixes valid :: "'a \<Rightarrow> bool"
    and enc :: "'a \<Rightarrow> byte list"
    and put :: "buffer \<Rightarrow> 'a \<Rightarrow> buffer result"
    and get :: "buffer \<Rightarrow> ('a \<times> buffer) result"
  assumes put_law: "buffer_ok b \<Longrightarrow> valid v \<Longrightarrow> put b v = Inr b' \<Longrightarrow>
      buffer_ok b' \<and> buffer_contents b' = buffer_contents b @ enc v"
    and get_law: "buffer_ok b \<Longrightarrow> valid v \<Longrightarrow> buffer_contents b = enc v @ r \<Longrightarrow>
      \<exists>b'. get b = Inr (v, b') \<and> buffer_ok b' \<and> buffer_contents b' = r"
begin

lemma put_get:
  assumes "buffer_ok b" and "valid v" and "buffer_contents b = []" and "put b v = Inr b'"
  shows "\<exists>b''. get b' = Inr (v, b'') \<and> buffer_ok b'' \<and> buffer_contents b'' = []"
  using put_law [OF assms(1,2,4)] get_law [of b' v "[]"] assms(2,3) by simp

lemma put_put_get_get:
  assumes ok: "buffer_ok b" and v: "valid v" "valid w" and e: "buffer_contents b = []"
    and p: "put b v = Inr b1" "put b1 w = Inr b2"
  shows "\<exists>b3 b4. get b2 = Inr (v, b3) \<and> get b3 = Inr (w, b4) \<and> buffer_contents b4 = []"
proof -
  from put_law [OF ok v(1) p(1)] have b1: "buffer_ok b1" "buffer_contents b1 = enc v"
    using e by auto
  from put_law [OF b1(1) v(2) p(2)] have b2: "buffer_ok b2" "buffer_contents b2 = enc v @ enc w"
    using b1 by auto
  from get_law [OF b2(1) v(1) b2(2)] obtain b3 where b3: "get b2 = Inr (v, b3)" "buffer_ok b3"
    "buffer_contents b3 = enc w @ []" by auto
  from get_law [OF b3(2) v(2) b3(3)] b3(1) show ?thesis by auto
qed

end

section \<open>The codecs\<close>

lemma get_ret_front:
  assumes "buffer_ok b" and "buffer_contents b = d @ r" and "unat len = length d"
  shows "\<exists>b'. buffer_get_ret b len = Some (d, b') \<and> buffer_ok b' \<and> buffer_contents b' = r"
  using consumed_ok [OF assms(1), of len] assms(2,3) by (simp add: get_ret_spec [OF assms(1)])

interpretation short: wire_codec "\<lambda>_. True" put_u16 buffer_put_short buffer_get_short
proof
  fix b v b' assume "buffer_ok b" "buffer_put_short b v = Inr b'"
  then show "buffer_ok b' \<and> buffer_contents b' = buffer_contents b @ put_u16 v"
    using append_spec [of b "put_u16 v" 2 b'] by (simp add: buffer_put_short_def)
next
  fix b v r assume "buffer_ok b" "buffer_contents b = put_u16 v @ r"
  from get_ret_front [OF this, of 2]
  show "\<exists>b'. buffer_get_short b = Inr (v, b') \<and> buffer_ok b' \<and> buffer_contents b' = r"
    by (auto simp: buffer_get_short_def buffer_get_short_ret_def wire_simps)
qed

interpretation int32: wire_codec "\<lambda>_. True" put_u32 buffer_put_int buffer_get_int
proof
  fix b v b' assume "buffer_ok b" "buffer_put_int b v = Inr b'"
  then show "buffer_ok b' \<and> buffer_contents b' = buffer_contents b @ put_u32 v"
    using append_spec [of b "put_u32 v" 4 b'] by (simp add: buffer_put_int_def)
next
  fix b v r assume "buffer_ok b" "buffer_contents b = put_u32 v @ r"
  from get_ret_front [OF this, of 4]
  show "\<exists>b'. buffer_get_int b = Inr (v, b') \<and> buffer_ok b' \<and> buffer_contents b' = r"
    by (auto simp: buffer_get_int_def buffer_get_int_ret_def wire_simps)
qed

interpretation int64: wire_codec "\<lambda>_. True" put_u64 buffer_put_int64 buffer_get_int64
proof
  fix b v b' assume "buffer_ok b" "buffer_put_int64 b v = Inr b'"
  then show "buffer_ok b' \<and> buffer_contents b' = buffer_contents b @ put_u64 v"
    using append_spec [of b "put_u64 v" 8 b'] by (simp add: buffer_put_int64_def)
next
  fix b v r assume "buffer_ok b" "buffer_contents b = put_u64 v @ r"
  from get_ret_front [OF this, of 8]
  show "\<exists>b'. buffer_get_int64 b = Inr (v, b') \<and> buffer_ok b' \<and> buffer_contents b' = r"
    by (auto simp: buffer_get_int64_def buffer_get_int64_ret_def wire_simps)
qed

interpretation octet: wire_codec "\<lambda>_. True" "\<lambda>c. [c]" "\<lambda>b c. buffer_put_char b (ucast c)" buffer_get_char
proof
  fix b :: buffer and v :: byte and b' assume "buffer_ok b" "buffer_put_char b (ucast v) = Inr b'"
  then show "buffer_ok b' \<and> buffer_contents b' = buffer_contents b @ [v]"
    using append_spec [of b "[v]" 1 b'] by (simp add: buffer_put_char_def)
next
  fix b v r assume "buffer_ok b" "buffer_contents b = [v] @ r"
  from get_ret_front [OF this, of 1]
  show "\<exists>b'. buffer_get_char b = Inr (v, b') \<and> buffer_ok b' \<and> buffer_contents b' = r"
    by (auto simp: buffer_get_char_def buffer_get_char_ret_def)
qed

text \<open>A string on the wire: its length as a \<open>u_int\<close>, then its bytes; at most 256k are accepted.\<close>

definition string_enc :: "byte list \<Rightarrow> byte list" where
  "string_enc s = put_u32 (of_nat (length s)) @ s"

definition string_len_ok :: "byte list \<Rightarrow> bool" where
  "string_len_ok s \<longleftrightarrow> length s \<le> 256 * 1024"

lemma unat_len_string: "string_len_ok s \<Longrightarrow> unat (of_nat (length s) :: u32) = length s"
  by (simp add: string_len_ok_def unat_of_nat)

lemma get_int_ret_front:
  assumes "buffer_ok b" "buffer_contents b = put_u32 v @ r"
  shows "\<exists>b'. buffer_get_int_ret b = Some (v, b') \<and> buffer_ok b' \<and> buffer_contents b' = r"
  using get_ret_front [OF assms, of 4] by (auto simp: buffer_get_int_ret_def wire_simps)

lemma string_ret_front:
  assumes ok: "buffer_ok b" and s: "string_len_ok s" and c: "buffer_contents b = string_enc s @ r"
  shows "\<exists>b'. buffer_get_string_ret b = (Some s, b') \<and> buffer_ok b' \<and> buffer_contents b' = r"
proof -
  let ?len = "of_nat (length s) :: u32"
  from get_int_ret_front [OF ok, of ?len "s @ r"] c obtain b1 where
    b1: "buffer_get_int_ret b = Some (?len, b1)" "buffer_ok b1" "buffer_contents b1 = s @ r"
    by (auto simp: string_enc_def)
  have "\<not> ?len > 256 * 1024"
    using s by (simp add: word_less_nat_alt unat_len_string) (simp add: string_len_ok_def)
  with b1 get_ret_front [OF b1(2,3), of ?len] s show ?thesis
    by (auto simp: buffer_get_string_ret_def unat_len_string)
qed

interpretation str: wire_codec string_len_ok string_enc
  "\<lambda>b s. buffer_put_string b s (of_nat (length s))" buffer_get_string
proof
  fix b v b' assume ok: "buffer_ok b" and v: "string_len_ok v"
    and p: "buffer_put_string b v (of_nat (length v)) = Inr b'"
  then obtain b1 where b1: "buffer_put_int b (of_nat (length v)) = Inr b1"
    and b': "buffer_append b1 v (of_nat (length v)) = Inr b'"
    by (auto simp: buffer_put_string_def)
  from int32.put_law [OF ok _ b1] append_spec [OF _ b'] unat_len_string [OF v]
  show "buffer_ok b' \<and> buffer_contents b' = buffer_contents b @ string_enc v"
    by (simp add: string_enc_def)
next
  fix b v r assume "buffer_ok b" "string_len_ok v" "buffer_contents b = string_enc v @ r"
  from string_ret_front [OF this]
  show "\<exists>b'. buffer_get_string b = Inr (v, b') \<and> buffer_ok b' \<and> buffer_contents b' = r"
    by (auto simp: buffer_get_string_def)
qed

section \<open>Properties\<close>

text \<open>C28: Strings round-trip through a buffer: two strings of at most 256k, put one after the
  other into an empty well-formed buffer, are read back unchanged and in order, and leave
  the buffer empty.\<close>

theorem strings_roundtrip:
  assumes "buffer_ok b" and "string_len_ok v" and "string_len_ok w" and "buffer_contents b = []"
    and "buffer_put_string b v (of_nat (length v)) = Inr b1"
    and "buffer_put_string b1 w (of_nat (length w)) = Inr b2"
  shows "\<exists>b3 b4. buffer_get_string b2 = Inr (v, b3) \<and> buffer_get_string b3 = Inr (w, b4) \<and>
    buffer_contents b4 = []"
  using assms by (rule str.put_put_get_get)

definition demo_empty :: buffer where
  "demo_empty = \<lparr>b_buf = [0, 0, 0, 0, 0, 0, 0, 0, 0, 0, 0, 0, 0, 0, 0, 0], b_alloc = 16, b_offset = 0, b_end = 0\<rparr>"

definition demo_one :: buffer where
  "demo_one = \<lparr>b_buf = [0, 0, 0, 1, 65, 0, 0, 0, 0, 0, 0, 0, 0, 0, 0, 0], b_alloc = 16, b_offset = 0, b_end = 5\<rparr>"

definition demo_two :: buffer where
  "demo_two = \<lparr>b_buf = [0, 0, 0, 1, 65, 0, 0, 0, 2, 66, 67, 0, 0, 0, 0, 0], b_alloc = 16, b_offset = 0, b_end = 11\<rparr>"

lemma demo_put:
  "buffer_put_string demo_empty [65] 1 = Inr demo_one"
  "buffer_put_string demo_one [66, 67] 2 = Inr demo_two"
  by (simp_all add: buffer_put_string_def buffer_put_int_def buffer_append_def buffer_append_space_def
    buffer_rewind_def numeral_3_eq_3 append_restart.simps(2) overwrite_def put_u32_def
    demo_empty_def demo_one_def demo_two_def)

theorem strings_roundtrip_witness:
  "\<exists>b3 b4. buffer_get_string demo_two = Inr ([65], b3) \<and> buffer_get_string b3 = Inr ([66, 67], b4) \<and>
    buffer_contents b4 = []"
  using strings_roundtrip [of demo_empty "[65]" "[66, 67]" demo_one demo_two] demo_put
  by (simp add: string_len_ok_def) (simp add: demo_empty_def buffer_ok_def buffer_contents_def)

lemma memchr_None: "memchr c s = None \<longleftrightarrow> c \<notin> set s"
  by (induction s) auto

lemma memchr_last: "c \<in> set s \<Longrightarrow> memchr c s = Some (length s - 1) \<longleftrightarrow> c \<notin> set (butlast s)"
proof (induction s)
  case (Cons x s)
  show ?case
  proof (cases s)
    case Nil
    then show ?thesis using Cons.prems by auto
  next
    case (Cons y t)
    then show ?thesis using Cons.IH Cons.prems memchr_None [of c s]
      by (cases "memchr c s") auto
  qed
qed simp

text \<open>\<open>buffer_get_cstring_ret\<close> never hands out a string that C would read as a shorter one: of
  the strings on the wire it accepts exactly those with no NUL before their last byte, and
  in either case the whole string has left the buffer.\<close>

theorem cstring_rejects_embedded_nul:
  assumes "buffer_ok b" and "string_len_ok s" and "buffer_contents b = string_enc s @ r"
  shows "\<exists>b'. buffer_get_cstring_ret b = (if 0 \<in> set (butlast s) then None else Some s, b') \<and>
    buffer_ok b' \<and> buffer_contents b' = r"
proof -
  from string_ret_front [OF assms] obtain b' where
    b': "buffer_get_string_ret b = (Some s, b')" "buffer_ok b'" "buffer_contents b' = r" by blast
  have "0 \<notin> set s \<Longrightarrow> 0 \<notin> set (butlast s)" by (auto dest: in_set_butlastD)
  then show ?thesis using b' memchr_None [of 0 s] memchr_last [of 0 s]
    by (cases "memchr 0 s") (auto simp: buffer_get_cstring_ret_def)
qed

theorem cstring_rejects_embedded_nul_witness:
  "\<exists>b'. buffer_get_cstring_ret
     \<lparr>b_buf = [0, 0, 0, 2, 0, 65, 9, 9], b_alloc = 8, b_offset = 0, b_end = 7\<rparr> = (None, b') \<and>
     buffer_contents b' = [9]"
  using cstring_rejects_embedded_nul [of "\<lparr>b_buf = [0, 0, 0, 2, 0, 65, 9, 9], b_alloc = 8,
      b_offset = 0, b_end = 7\<rparr>" "[0, 65]" "[9]"]
  by (auto simp: buffer_ok_def buffer_contents_def string_len_ok_def string_enc_def put_u32_def)

end
