(* ===== verification/CString.thy ===== *)
theory CString
  imports Prelude
begin

text \<open>
  What the sources use of \<open>string.h\<close> and \<open>ctype.h\<close> on NUL-terminated text, which is a \<open>string\<close>
  without its NUL: case folding in the C locale, comparison without case, and the loop over
  \<open>strsep\<close> that walks a comma-separated list of names.
\<close>

section \<open>Characters\<close>

definition isupper :: "char \<Rightarrow> bool" where
  "isupper c \<longleftrightarrow> 65 \<le> (of_char c :: nat) \<and> of_char c \<le> (90 :: nat)"

definition tolower :: "char \<Rightarrow> char" where
  "tolower c = (if isupper c then char_of (of_char c + 32 :: nat) else c)"

lemma tolower_idem [simp]: "tolower (tolower c) = tolower c"
  by (auto simp: tolower_def isupper_def)

definition strcasecmp_eq :: "string \<Rightarrow> string \<Rightarrow> bool" where
  "strcasecmp_eq a b \<longleftrightarrow> map tolower a = map tolower b"

section \<open>Lists of names\<close>

text \<open>\<open>strsep\<close> cuts the text before the next separator; \<open>None\<close> is the null pointer it leaves at
  the end.\<close>

fun strsep :: "char \<Rightarrow> string \<Rightarrow> string \<times> string option" where
  "strsep sep [] = ([], None)"
| "strsep sep (c # cs) =
     (if c = sep then ([], Some cs) else case strsep sep cs of (t, r) \<Rightarrow> (c # t, r))"

lemma strsep_shorter: "strsep sep s = (t, Some r) \<Longrightarrow> length r < length s"
  by (induction s arbitrary: t) (auto split: if_splits prod.splits)

text \<open>The names a loop \<open>for (p = strsep(..); p && *p != 0; p = strsep(..))\<close> visits: it ends at the
  end of the text and at the first empty name.\<close>

function names :: "char \<Rightarrow> string option \<Rightarrow> string list" where
  "names sep None = []"
| "names sep (Some s) = (case strsep sep s of (t, r) \<Rightarrow> if t = [] then [] else t # names sep r)"
  by pat_completeness auto
termination
  by (relation "measure (\<lambda>(sep, s). case s of None \<Rightarrow> 0 | Some t \<Rightarrow> Suc (length t))")
    (auto split: option.splits dest: strsep_shorter [OF sym])

declare names.simps(2) [simp del]

fun join :: "char \<Rightarrow> string list \<Rightarrow> string" where
  "join sep [] = []"
| "join sep [n] = n"
| "join sep (n # ns) = n @ sep # join sep ns"

lemma strsep_app:
  "sep \<notin> set n \<Longrightarrow> strsep sep (n @ sep # r) = (n, Some r)"
  "sep \<notin> set n \<Longrightarrow> strsep sep n = (n, None)"
  by (induction n) auto

text \<open>A list of non-empty names without separators survives printing and splitting.\<close>

lemma names_join:
  assumes "ns \<noteq> []" and "\<forall>n\<in>set ns. n \<noteq> [] \<and> sep \<notin> set n"
  shows "names sep (Some (join sep ns)) = ns"
  using assms by (induction sep ns rule: join.induct) (auto simp: names.simps(2) strsep_app)

lemma names_nonempty: "n \<in> set (names sep s) \<Longrightarrow> n \<noteq> []"
  by (induction sep s rule: names.induct) (auto simp: names.simps(2) split: if_splits prod.splits)

end
