(* ===== verification/Cipher.thy ===== *)
theory Cipher
  imports CString Wire
begin

text \<open>
  The cipher table of \<open>cipher.c\<close>, its lookups, and the wrappers \<open>cipher_init\<close> and
  \<open>cipher_crypt\<close> around the EVP functions of OpenSSL, which are the parameter \<open>evp\<close>. What the
  packet layer relies on of a cipher is stated by \<open>evp_ok\<close>: two contexts set up for the two
  directions stay in step, and a text may be processed in pieces of whole blocks.
\<close>

section \<open>Data\<close>

datatype evptype = EVP_enc_null | EVP_des_cbc | evp_ssh1_3des | evp_ssh1_bf | EVP_des_ede3_cbc
  | EVP_bf_cbc | EVP_cast5_cbc | EVP_rc4 | EVP_aes_128_cbc | EVP_aes_192_cbc | EVP_aes_256_cbc
  | evp_aes_128_ctr

record cipher =
  ci_name :: string
  ci_number :: int
  ci_block_size :: u32
  ci_key_len :: u32
  ci_discard_len :: u32
  ci_cbc_mode :: u32
  ci_evptype :: evptype

abbreviation SSH_CIPHER_SSH2 :: int where "SSH_CIPHER_SSH2 \<equiv> -3"
abbreviation SSH_CIPHER_NONE :: int where "SSH_CIPHER_NONE \<equiv> 0"
abbreviation SSH_CIPHER_DES :: int where "SSH_CIPHER_DES \<equiv> 2"
abbreviation SSH_CIPHER_3DES :: int where "SSH_CIPHER_3DES \<equiv> 3"
abbreviation SSH_CIPHER_BLOWFISH :: int where "SSH_CIPHER_BLOWFISH \<equiv> 6"

definition ciphers :: "cipher list" where
  "ciphers = [
     \<lparr>ci_name = ''none'', ci_number = SSH_CIPHER_NONE, ci_block_size = 8, ci_key_len = 0,
       ci_discard_len = 0, ci_cbc_mode = 0, ci_evptype = EVP_enc_null\<rparr>,
     \<lparr>ci_name = ''des'', ci_number = SSH_CIPHER_DES, ci_block_size = 8, ci_key_len = 8,
       ci_discard_len = 0, ci_cbc_mode = 1, ci_evptype = EVP_des_cbc\<rparr>,
     \<lparr>ci_name = ''3des'', ci_number = SSH_CIPHER_3DES, ci_block_size = 8, ci_key_len = 16,
       ci_discard_len = 0, ci_cbc_mode = 1, ci_evptype = evp_ssh1_3des\<rparr>,
     \<lparr>ci_name = ''blowfish'', ci_number = SSH_CIPHER_BLOWFISH, ci_block_size = 8, ci_key_len = 32,
       ci_discard_len = 0, ci_cbc_mode = 1, ci_evptype = evp_ssh1_bf\<rparr>,
     \<lparr>ci_name = ''3des-cbc'', ci_number = SSH_CIPHER_SSH2, ci_block_size = 8, ci_key_len = 24,
       ci_discard_len = 0, ci_cbc_mode = 1, ci_evptype = EVP_des_ede3_cbc\<rparr>,
     \<lparr>ci_name = ''blowfish-cbc'', ci_number = SSH_CIPHER_SSH2, ci_block_size = 8, ci_key_len = 16,
       ci_discard_len = 0, ci_cbc_mode = 1, ci_evptype = EVP_bf_cbc\<rparr>,
     \<lparr>ci_name = ''cast128-cbc'', ci_number = SSH_CIPHER_SSH2, ci_block_size = 8, ci_key_len = 16,
       ci_discard_len = 0, ci_cbc_mode = 1, ci_evptype = EVP_cast5_cbc\<rparr>,
     \<lparr>ci_name = ''arcfour'', ci_number = SSH_CIPHER_SSH2, ci_block_size = 8, ci_key_len = 16,
       ci_discard_len = 0, ci_cbc_mode = 0, ci_evptype = EVP_rc4\<rparr>,
     \<lparr>ci_name = ''arcfour128'', ci_number = SSH_CIPHER_SSH2, ci_block_size = 8, ci_key_len = 16,
       ci_discard_len = 1536, ci_cbc_mode = 0, ci_evptype = EVP_rc4\<rparr>,
     \<lparr>ci_name = ''arcfour256'', ci_number = SSH_CIPHER_SSH2, ci_block_size = 8, ci_key_len = 32,
       ci_discard_len = 1536, ci_cbc_mode = 0, ci_evptype = EVP_rc4\<rparr>,
     \<lparr>ci_name = ''aes128-cbc'', ci_number = SSH_CIPHER_SSH2, ci_block_size = 16, ci_key_len = 16,
       ci_discard_len = 0, ci_cbc_mode = 1, ci_evptype = EVP_aes_128_cbc\<rparr>,
     \<lparr>ci_name = ''aes192-cbc'', ci_number = SSH_CIPHER_SSH2, ci_block_size = 16, ci_key_len = 24,
       ci_discard_len = 0, ci_cbc_mode = 1, ci_evptype = EVP_aes_192_cbc\<rparr>,
     \<lparr>ci_name = ''aes256-cbc'', ci_number = SSH_CIPHER_SSH2, ci_block_size = 16, ci_key_len = 32,
       ci_discard_len = 0, ci_cbc_mode = 1, ci_evptype = EVP_aes_256_cbc\<rparr>,
     \<lparr>ci_name = ''rijndael-cbc@lysator.liu.se'', ci_number = SSH_CIPHER_SSH2, ci_block_size = 16,
       ci_key_len = 32, ci_discard_len = 0, ci_cbc_mode = 1, ci_evptype = EVP_aes_256_cbc\<rparr>,
     \<lparr>ci_name = ''aes128-ctr'', ci_number = SSH_CIPHER_SSH2, ci_block_size = 16, ci_key_len = 16,
       ci_discard_len = 0, ci_cbc_mode = 0, ci_evptype = evp_aes_128_ctr\<rparr>,
     \<lparr>ci_name = ''aes192-ctr'', ci_number = SSH_CIPHER_SSH2, ci_block_size = 16, ci_key_len = 24,
       ci_discard_len = 0, ci_cbc_mode = 0, ci_evptype = evp_aes_128_ctr\<rparr>,
     \<lparr>ci_name = ''aes256-ctr'', ci_number = SSH_CIPHER_SSH2, ci_block_size = 16, ci_key_len = 32,
       ci_discard_len = 0, ci_cbc_mode = 0, ci_evptype = evp_aes_128_ctr\<rparr>]"

section \<open>Lookups\<close>

definition cipher_blocksize :: "cipher \<Rightarrow> u32" where
  "cipher_blocksize c = ci_block_size c"

definition cipher_keylen :: "cipher \<Rightarrow> u32" where
  "cipher_keylen c = ci_key_len c"

definition cipher_get_number :: "cipher \<Rightarrow> u32" where
  "cipher_get_number c = word_of_int (ci_number c)"

definition cipher_is_cbc :: "cipher \<Rightarrow> u32" where
  "cipher_is_cbc c = ci_cbc_mode c"

definition cipher_mask_ssh1 :: "bool \<Rightarrow> u32" where
  "cipher_mask_ssh1 client =
     (let mask = 0 OR push_bit (nat SSH_CIPHER_3DES) 1;
          mask = mask OR push_bit (nat SSH_CIPHER_BLOWFISH) 1
      in if client then mask OR push_bit (nat SSH_CIPHER_DES) 1 else mask)"

definition cipher_by_name :: "string \<Rightarrow> cipher option" where
  "cipher_by_name name = find (\<lambda>c. ci_name c = name) ciphers"

definition cipher_by_number :: "int \<Rightarrow> cipher option" where
  "cipher_by_number n = find (\<lambda>c. ci_number c = n) ciphers"

text \<open>The loop over the names returns at the first bad one.\<close>

fun names_ok :: "(string \<Rightarrow> bool) \<Rightarrow> string list \<Rightarrow> bool" where
  "names_ok ok [] = True"
| "names_ok ok (p # ps) = (if \<not> ok p then False else names_ok ok ps)"

definition ciphers_valid :: "string option \<Rightarrow> bool" where
  "ciphers_valid ns =
     (case ns of None \<Rightarrow> False
      | Some s \<Rightarrow> if s = '''' then False
          else names_ok (\<lambda>p. case cipher_by_name p of
                 None \<Rightarrow> False | Some c \<Rightarrow> ci_number c = SSH_CIPHER_SSH2) (names CHR '','' (Some s)))"

definition cipher_number :: "string option \<Rightarrow> int" where
  "cipher_number name =
     (case name of None \<Rightarrow> -1
      | Some n \<Rightarrow> (case find (\<lambda>c. strcasecmp_eq (ci_name c) n) ciphers of
                   None \<Rightarrow> -1 | Some c \<Rightarrow> ci_number c))"

definition cipher_name :: "int \<Rightarrow> string" where
  "cipher_name n = (case cipher_by_number n of None \<Rightarrow> ''<unknown>'' | Some c \<Rightarrow> ci_name c)"

section \<open>Contexts\<close>

text \<open>
  The EVP functions \<open>cipher.c\<close> calls, on contexts of a type \<open>'c\<close>; a call that returns 0 is \<open>None\<close>.
  The first \<open>EVP_CipherInit\<close> gets type, IV and direction, the second one the key.
\<close>

record 'c evp =
  evp_init :: "evptype \<Rightarrow> byte list option \<Rightarrow> bool \<Rightarrow> 'c option"
  evp_key_length :: "'c \<Rightarrow> int"
  evp_set_key_length :: "'c \<Rightarrow> u32 \<Rightarrow> 'c option"
  evp_set_key :: "'c \<Rightarrow> byte list \<Rightarrow> 'c option"
  evp_cipher :: "'c \<Rightarrow> byte list \<Rightarrow> ('c \<times> byte list) option"

record 'c cipher_context =
  cc_plaintext :: bool
  cc_evp :: 'c
  cc_cipher :: cipher

definition or_fatal :: "string \<Rightarrow> 'a option \<Rightarrow> 'a result" where
  "or_fatal msg r = (case r of None \<Rightarrow> Inl (Fatal msg) | Some x \<Rightarrow> Inr x)"

text \<open>\<open>junk\<close> is the uninitialised block whose encryption the RC4 variants with a discard throw
  away.\<close>

definition cipher_init :: "'c evp \<Rightarrow> byte list \<Rightarrow> cipher \<Rightarrow> byte list \<Rightarrow> u32 \<Rightarrow> byte list option \<Rightarrow> u32 \<Rightarrow>
    bool \<Rightarrow> 'c cipher_context result" where
  "cipher_init E junk c key keylen iv ivlen do_encrypt =
     (let keylen = (if ci_number c = SSH_CIPHER_DES \<and> keylen > 8 then 8 else keylen) in
      if keylen < ci_key_len c then Inl (Fatal ''cipher_init: key length is insufficient'')
      else if iv \<noteq> None \<and> ivlen < ci_block_size c then Inl (Fatal ''cipher_init: iv length is insufficient'')
      else rbind (or_fatal ''cipher_init: EVP_CipherInit failed'' (evp_init E (ci_evptype c) iv do_encrypt)) (\<lambda>x.
        let klen = evp_key_length E x in
        rbind (if klen > 0 \<and> keylen \<noteq> word_of_int klen
               then or_fatal ''cipher_init: set keylen failed'' (evp_set_key_length E x keylen)
               else Inr x) (\<lambda>x.
        rbind (or_fatal ''cipher_init: EVP_CipherInit: set key failed'' (evp_set_key E x key)) (\<lambda>x.
        rbind (if ci_discard_len c > 0
               then rbind (or_fatal ''evp_crypt: EVP_Cipher failed during discard''
                      (evp_cipher E x (take (unat (ci_discard_len c)) junk))) (\<lambda>(x, _). Inr x)
               else Inr x) (\<lambda>x.
          Inr \<lparr>cc_plaintext = (ci_number c = SSH_CIPHER_NONE), cc_evp = x, cc_cipher = c\<rparr>)))))"

definition cipher_crypt :: "'c evp \<Rightarrow> 'c cipher_context \<Rightarrow> byte list \<Rightarrow> u32 \<Rightarrow>
    ('c cipher_context \<times> byte list) result" where
  "cipher_crypt E cc src len =
     (if len mod ci_block_size (cc_cipher cc) \<noteq> 0 then Inl (Fatal ''cipher_encrypt: bad plaintext length'')
      else rbind (or_fatal ''evp_crypt: EVP_Cipher failed'' (evp_cipher E (cc_evp cc) (take (unat len) src)))
        (\<lambda>(x, out). Inr (cc\<lparr>cc_evp := x\<rparr>, out)))"

section \<open>The table\<close>

lemma ciphers_blocks: "c \<in> set ciphers \<Longrightarrow> ci_block_size c = 8 \<or> ci_block_size c = 16"
  by (auto simp: ciphers_def)

lemma ciphers_distinct: "distinct (map ci_name ciphers)"
  by (simp add: ciphers_def)

lemma find_unique:
  "distinct (map f xs) \<Longrightarrow> x \<in> set xs \<Longrightarrow> find (\<lambda>y. f y = f x) xs = Some x"
  by (induction xs) (auto simp: image_iff)

lemma cipher_by_name_iff: "cipher_by_name n = Some c \<longleftrightarrow> c \<in> set ciphers \<and> ci_name c = n"
proof
  assume "cipher_by_name n = Some c"
  then show "c \<in> set ciphers \<and> ci_name c = n" by (auto simp: cipher_by_name_def find_Some_iff)
next
  assume "c \<in> set ciphers \<and> ci_name c = n"
  then show "cipher_by_name n = Some c"
    using find_unique [OF ciphers_distinct, of c] by (auto simp: cipher_by_name_def)
qed

lemma names_ok_iff: "names_ok ok ps \<longleftrightarrow> (\<forall>p\<in>set ps. ok p)"
  by (induction ps) auto

text \<open>
  What the packet layer relies on of OpenSSL: \<open>R c d\<close> relates an encrypting context to the
  decrypting one of the other side; what \<open>c\<close> encrypts, \<open>d\<close> decrypts, at the same length, and the
  contexts stay related; and a text may be decrypted in two pieces of whole blocks.
\<close>

definition evp_ok :: "'c evp \<Rightarrow> ('c \<Rightarrow> 'c \<Rightarrow> bool) \<Rightarrow> nat \<Rightarrow> bool" where
  "evp_ok E R bs \<longleftrightarrow>
     (\<forall>c d x c' y. R c d \<and> bs dvd length x \<and> evp_cipher E c x = Some (c', y) \<longrightarrow>
        length y = length x \<and> (\<exists>d'. evp_cipher E d y = Some (d', x) \<and> R c' d')) \<and>
     (\<forall>d y z d' x. bs dvd length y \<and> bs dvd length z \<and> evp_cipher E d (y @ z) = Some (d', x) \<longrightarrow>
        (\<exists>d1. evp_cipher E d y = Some (d1, take (length y) x) \<and>
              evp_cipher E d1 z = Some (d', drop (length y) x)))"

lemma evp_roundtrip:
  assumes "evp_ok E R bs" and "R c d" and "bs dvd length x" and "evp_cipher E c x = Some (c', y)"
  obtains d' where "length y = length x" and "evp_cipher E d y = Some (d', x)" and "R c' d'"
  using assms unfolding evp_ok_def by blast

lemma evp_pieces:
  assumes "evp_ok E R bs" and "bs dvd length y" and "bs dvd length z"
    and "evp_cipher E d (y @ z) = Some (d', x)"
  obtains d1 where "evp_cipher E d y = Some (d1, take (length y) x)"
    and "evp_cipher E d1 z = Some (d', drop (length y) x)"
  using assms unfolding evp_ok_def by blast

section \<open>Properties\<close>

text \<open>The list of ciphers a user configures is accepted exactly when it is not empty and every
  name up to the first empty one is a protocol 2 cipher of the table.\<close>

theorem ciphers_valid_iff:
  "ciphers_valid ns \<longleftrightarrow> (\<exists>s. ns = Some s \<and> s \<noteq> '''' \<and>
     (\<forall>p\<in>set (names CHR '','' (Some s)). \<exists>c\<in>set ciphers. ci_name c = p \<and> ci_number c = SSH_CIPHER_SSH2))"
proof -
  have e: "(case cipher_by_name p of None \<Rightarrow> False | Some c \<Rightarrow> ci_number c = SSH_CIPHER_SSH2) \<longleftrightarrow>
      (\<exists>c\<in>set ciphers. ci_name c = p \<and> ci_number c = SSH_CIPHER_SSH2)" for p
    using cipher_by_name_iff [of p] by (cases "cipher_by_name p") (auto, metis option.inject)
  show ?thesis
    by (cases ns) (simp_all add: ciphers_valid_def names_ok_iff e)
qed

theorem ciphers_valid_iff_witness:
  "ciphers_valid (Some ''aes128-ctr,aes256-ctr'') \<and> \<not> ciphers_valid (Some ''des'')"
  unfolding ciphers_valid_iff by (simp add: names.simps(2) ciphers_def)

text \<open>An empty name hides what follows it: a list with an unknown cipher after one is accepted,
  and so is one that names no cipher at all.\<close>

theorem ciphers_valid_stops_at_empty:
  "ciphers_valid (Some ''aes128-ctr,,no-such-cipher'') \<and> ciphers_valid (Some '','')"
  by (simp add: ciphers_valid_def names.simps(2) cipher_by_name_def ciphers_def)

end
