(* ===== verification/MacAlg.thy ===== *)
theory MacAlg
  imports CString Wire
begin

text \<open>
  The message authentication codes of \<open>mac.c\<close>: the table, the set-up of a \<open>Mac\<close> by name, and
  \<open>mac_compute\<close> over the sequence number and a packet. HMAC of OpenSSL and the UMAC of
  \<open>umac.c\<close> are the parameter \<open>mac_lib\<close>.
\<close>

section \<open>Data\<close>

datatype evp_md = EVP_sha1 | EVP_sha256 | EVP_sha384 | EVP_sha512 | EVP_md5 | EVP_ripemd160

abbreviation SSH_EVP :: int where "SSH_EVP \<equiv> 1"
abbreviation SSH_UMAC :: int where "SSH_UMAC \<equiv> 2"
abbreviation EVP_MAX_MD_SIZE :: u32 where "EVP_MAX_MD_SIZE \<equiv> 64"

record mac_row =
  mr_name :: string
  mr_type :: int
  mr_mdfunc :: "evp_md option"
  mr_truncatebits :: int
  mr_key_len :: int
  mr_len :: int

definition macs :: "mac_row list" where
  "macs = map (\<lambda>(n, t, md, tr, k, l). \<lparr>mr_name = n, mr_type = t, mr_mdfunc = md, mr_truncatebits = tr,
       mr_key_len = k, mr_len = l\<rparr>)
     [(''hmac-sha1'', SSH_EVP, Some EVP_sha1, 0, -1, -1),
      (''hmac-sha1-96'', SSH_EVP, Some EVP_sha1, 96, -1, -1),
      (''hmac-sha2-256'', SSH_EVP, Some EVP_sha256, 0, -1, -1),
      (''hmac-sha2-256-96'', SSH_EVP, Some EVP_sha256, 96, -1, -1),
      (''hmac-sha2-512'', SSH_EVP, Some EVP_sha512, 0, -1, -1),
      (''hmac-sha2-512-96'', SSH_EVP, Some EVP_sha512, 96, -1, -1),
      (''hmac-md5'', SSH_EVP, Some EVP_md5, 0, -1, -1),
      (''hmac-md5-96'', SSH_EVP, Some EVP_md5, 96, -1, -1),
      (''hmac-ripemd160'', SSH_EVP, Some EVP_ripemd160, 0, -1, -1),
      (''hmac-ripemd160@openssh.com'', SSH_EVP, Some EVP_ripemd160, 0, -1, -1),
      (''umac-64@openssh.com'', SSH_UMAC, None, 0, 128, 64)]"

text \<open>A context holds the key it was set up with.\<close>

record mac =
  mac_name :: string
  mac_enabled :: bool
  mac_len :: u32
  mac_key :: "byte list option"
  mac_key_len :: u32
  mac_type :: int
  mac_evp_md :: "evp_md option"
  mac_evp_ctx :: "(evp_md \<times> byte list) option"
  mac_umac_ctx :: "byte list option"

record mac_lib =
  md_size :: "evp_md \<Rightarrow> int"
  hmac :: "evp_md \<Rightarrow> byte list \<Rightarrow> byte list \<Rightarrow> byte list"
  umac :: "byte list \<Rightarrow> byte list \<Rightarrow> byte list \<Rightarrow> byte list"

section \<open>Operations\<close>

definition mac_setup_by_id :: "mac_lib \<Rightarrow> mac_row \<Rightarrow> mac \<Rightarrow> mac result" where
  "mac_setup_by_id L row m =
     (let m = m\<lparr>mac_type := mr_type row\<rparr> in
      rbind (if mac_type m = SSH_EVP
             then (case mr_mdfunc row of
                     None \<Rightarrow> Inl (MemFault ''mac_setup_by_id: mdfunc'')
                   | Some md \<Rightarrow> let evp_len = md_size L md in
                       if evp_len \<le> 0 then Inl (Fatal ''mac len'')
                       else Inr (m\<lparr>mac_evp_md := Some md, mac_key_len := word_of_int evp_len,
                              mac_len := word_of_int evp_len\<rparr>))
             else Inr (m\<lparr>mac_len := word_of_int (mr_len row div 8),
                     mac_key_len := word_of_int (mr_key_len row div 8), mac_umac_ctx := None\<rparr>)) (\<lambda>m.
        Inr (if mr_truncatebits row \<noteq> 0 then m\<lparr>mac_len := word_of_int (mr_truncatebits row div 8)\<rparr> else m)))"

text \<open>The return value and the \<open>Mac\<close>, which the caller may leave out.\<close>

definition mac_setup :: "mac_lib \<Rightarrow> mac option \<Rightarrow> string \<Rightarrow> (int \<times> mac option) result" where
  "mac_setup L m name =
     (case find (\<lambda>r. mr_name r = name) macs of
        None \<Rightarrow> Inr (-1, m)
      | Some row \<Rightarrow> (case m of None \<Rightarrow> Inr (0, None)
                     | Some m \<Rightarrow> rbind (mac_setup_by_id L row m) (\<lambda>m'. Inr (0, Some m'))))"

definition mac_init :: "mac \<Rightarrow> (int \<times> mac) result" where
  "mac_init m =
     (case mac_key m of
        None \<Rightarrow> Inl (Fatal ''mac_init: no key'')
      | Some key \<Rightarrow>
          if mac_type m = SSH_EVP
          then (case mac_evp_md m of None \<Rightarrow> Inr (-1, m)
                | Some md \<Rightarrow> Inr (0, m\<lparr>mac_evp_ctx := Some (md, take (unat (mac_key_len m)) key)\<rparr>))
          else if mac_type m = SSH_UMAC then Inr (0, m\<lparr>mac_umac_ctx := Some (take 16 key)\<rparr>)
          else Inr (-1, m))"

text \<open>The digest; the code leaves it at the start of a static array of \<open>EVP_MAX_MD_SIZE\<close> bytes.\<close>

definition mac_compute :: "mac_lib \<Rightarrow> mac \<Rightarrow> u32 \<Rightarrow> byte list \<Rightarrow> byte list result" where
  "mac_compute L m seqno data =
     (if mac_len m > EVP_MAX_MD_SIZE then Inl (Fatal ''mac_compute: mac too long'')
      else if mac_type m = SSH_EVP
      then (case mac_evp_ctx m of
              None \<Rightarrow> Inl (MemFault ''mac_compute: evp_ctx'')
            | Some (md, key) \<Rightarrow> Inr (hmac L md key (put_u32 seqno @ data)))
      else if mac_type m = SSH_UMAC
      then (case mac_umac_ctx m of
              None \<Rightarrow> Inl (MemFault ''mac_compute: umac_ctx'')
            | Some key \<Rightarrow> Inr (umac L key (put_u64 (ucast seqno)) data))
      else Inl (Fatal ''mac_compute: unknown MAC type''))"

definition mac_clear :: "mac \<Rightarrow> mac" where
  "mac_clear m =
     (let m = (if mac_type m = SSH_UMAC then m else
                if mac_evp_md m \<noteq> None then m\<lparr>mac_evp_ctx := None\<rparr> else m)
      in m\<lparr>mac_evp_md := None, mac_umac_ctx := None\<rparr>)"

fun macs_ok :: "mac_lib \<Rightarrow> string list \<Rightarrow> bool result" where
  "macs_ok L [] = Inr True"
| "macs_ok L (p # ps) =
     rbind (mac_setup L None p) (\<lambda>(rc, _). if rc < 0 then Inr False else macs_ok L ps)"

definition mac_valid :: "mac_lib \<Rightarrow> string option \<Rightarrow> bool result" where
  "mac_valid L ns =
     (case ns of None \<Rightarrow> Inr False
      | Some s \<Rightarrow> if s = '''' then Inr False else macs_ok L (names CHR '','' (Some s)))"

section \<open>A MAC set up by name is usable\<close>

text \<open>
  What is relied on of OpenSSL and \<open>umac.c\<close>: digests have the advertised size, which is at least
  the 96 bits of the truncated variants and at most \<open>EVP_MAX_MD_SIZE\<close>; a UMAC tag has 8 bytes.
\<close>

definition mac_lib_ok :: "mac_lib \<Rightarrow> bool" where
  "mac_lib_ok L \<longleftrightarrow>
     (\<forall>md. 12 \<le> md_size L md \<and> md_size L md \<le> 64 \<and>
        (\<forall>k x. length (hmac L md k x) = nat (md_size L md))) \<and>
     (\<forall>k n x. length (umac L k n x) = 8)"

lemma macs_rows:
  "row \<in> set macs \<Longrightarrow>
     mr_type row = SSH_EVP \<and> (\<exists>md. mr_mdfunc row = Some md) \<and> (mr_truncatebits row = 0 \<or> mr_truncatebits row = 96) \<or>
     mr_type row = SSH_UMAC \<and> mr_truncatebits row = 0 \<and> mr_len row = 64"
  by (auto simp: macs_def)

definition mac_ready :: "mac_lib \<Rightarrow> mac \<Rightarrow> bool" where
  "mac_ready L m \<longleftrightarrow> (\<forall>seqno data. \<exists>d. mac_compute L m seqno data = Inr d \<and> unat (mac_len m) \<le> length d)"

lemma setup_by_id_ready:
  assumes L: "mac_lib_ok L" and row: "row \<in> set macs" and key: "mac_key m = Some k"
    and s: "mac_setup_by_id L row m = Inr m'" and i: "mac_init m' = Inr (rc, m'')"
  shows "rc = 0 \<and> mac_ready L m''"
proof (cases "mr_type row = SSH_EVP")
  case True
  with macs_rows [OF row] obtain md where md: "mr_mdfunc row = Some md"
    and tr: "mr_truncatebits row = 0 \<or> mr_truncatebits row = 96" by auto
  have b: "12 \<le> md_size L md" "md_size L md \<le> 64" and h: "length (hmac L md kk x) = nat (md_size L md)" for kk x
    using L by (auto simp: mac_lib_ok_def)
  then have w: "unat (word_of_int (md_size L md) :: u32) = nat (md_size L md)"
    by (simp add: unat_eq_nat_uint uint_word_of_int_eq take_bit_int_eq_self)
  have m': "m' = m\<lparr>mac_type := SSH_EVP, mac_evp_md := Some md, mac_key_len := word_of_int (md_size L md),
      mac_len := (if mr_truncatebits row = 0 then word_of_int (md_size L md) else 12)\<rparr>"
    using s True md b tr by (auto simp: mac_setup_by_id_def Let_def)
  then have m'': "rc = 0" "mac_type m'' = SSH_EVP" "mac_len m'' = mac_len m'"
    "\<exists>kk. mac_evp_ctx m'' = Some (md, kk)"
    using i key by (auto simp: mac_init_def)
  moreover have "unat (mac_len m') \<le> nat (md_size L md)" "\<not> mac_len m' > EVP_MAX_MD_SIZE"
    using m' w b by (auto simp: word_less_nat_alt)
  ultimately show ?thesis by (auto simp: mac_ready_def mac_compute_def h)
next
  case False
  with macs_rows [OF row] have u: "mr_type row = SSH_UMAC" "mr_truncatebits row = 0" "mr_len row = 64" by auto
  with s have m': "m' = m\<lparr>mac_type := SSH_UMAC, mac_len := 8,
      mac_key_len := word_of_int (mr_key_len row div 8), mac_umac_ctx := None\<rparr>"
    by (auto simp: mac_setup_by_id_def Let_def)
  then have "rc = 0" "m'' = m'\<lparr>mac_umac_ctx := Some (take 16 k)\<rparr>"
    using i key by (auto simp: mac_init_def)
  moreover have "length (umac L kk n x) = 8" for kk n x using L by (simp add: mac_lib_ok_def)
  ultimately show ?thesis using m' by (auto simp: mac_ready_def mac_compute_def)
qed


text \<open>A library for examples: every digest is a run of zeros of the right size.\<close>

definition zero_macs :: mac_lib where
  "zero_macs = \<lparr>md_size = (\<lambda>md. case md of EVP_sha1 \<Rightarrow> 20 | EVP_sha256 \<Rightarrow> 32 | EVP_sha384 \<Rightarrow> 48 | EVP_sha512 \<Rightarrow> 64 | EVP_md5 \<Rightarrow> 16
       | EVP_ripemd160 \<Rightarrow> 20),
     hmac = (\<lambda>md k x. replicate (case md of EVP_sha1 \<Rightarrow> 20 | EVP_sha256 \<Rightarrow> 32 | EVP_sha384 \<Rightarrow> 48 | EVP_sha512 \<Rightarrow> 64 | EVP_md5 \<Rightarrow> 16
       | EVP_ripemd160 \<Rightarrow> 20) 0),
     umac = (\<lambda>k n x. replicate 8 0)\<rparr>"

definition blank_mac :: mac where
  "blank_mac = \<lparr>mac_name = '''', mac_enabled = False, mac_len = 0, mac_key = Some (replicate 20 7), mac_key_len = 0,
     mac_type = 0, mac_evp_md = None, mac_evp_ctx = None, mac_umac_ctx = None\<rparr>"


end
