(* ===== verification/Compress.thy ===== *)
theory Compress
  imports SshBuffer
begin

text \<open>
  Packet compression, \<open>compress.c\<close>: two streams of zlib, whose functions are the parameter
  \<open>'z zlib\<close>, and the loops that push a buffer through them in chunks of 4096 bytes.
\<close>

section \<open>Data\<close>

text \<open>
  \<open>deflate\<close> and \<open>inflate\<close> get the stream, the input that is left and the room for output; they
  return the status, the stream, the input not consumed and the output.
\<close>

record 'z zlib =
  deflate_init :: "int \<Rightarrow> 'z"
  inflate_init :: 'z
  deflate :: "'z \<Rightarrow> byte list \<Rightarrow> nat \<Rightarrow> int \<times> 'z \<times> byte list \<times> byte list"
  inflate :: "'z \<Rightarrow> byte list \<Rightarrow> nat \<Rightarrow> int \<times> 'z \<times> byte list \<times> byte list"

abbreviation Z_OK :: int where "Z_OK \<equiv> 0"
abbreviation Z_BUF_ERROR :: int where "Z_BUF_ERROR \<equiv> -5"
abbreviation ZCHUNK :: nat where "ZCHUNK \<equiv> 4096"

text \<open>The two static streams; \<open>None\<close> is one that was not initialised.\<close>

record 'z compress_state =
  outgoing_stream :: "'z option"
  incoming_stream :: "'z option"
  inflate_failed :: bool
  deflate_failed :: bool

definition compress_start :: "'z compress_state" where
  "compress_start = \<lparr>outgoing_stream = None, incoming_stream = None, inflate_failed = False, deflate_failed = False\<rparr>"

section \<open>Operations\<close>

definition buffer_compress_init_send :: "'z zlib \<Rightarrow> int \<Rightarrow> 'z compress_state \<Rightarrow> 'z compress_state result" where
  "buffer_compress_init_send Z level st =
     (if level < 1 \<or> level > 9 then Inl (Fatal ''Bad compression level'')
      else Inr (st\<lparr>outgoing_stream := Some (deflate_init Z level)\<rparr>))"

definition buffer_compress_init_recv :: "'z zlib \<Rightarrow> 'z compress_state \<Rightarrow> 'z compress_state" where
  "buffer_compress_init_recv Z st = st\<lparr>incoming_stream := Some (inflate_init Z)\<rparr>"

definition buffer_compress_uninit :: "'z compress_state \<Rightarrow> 'z compress_state" where
  "buffer_compress_uninit st =
     (let st = (if \<not> inflate_failed st then st\<lparr>incoming_stream := None\<rparr> else st)
      in if \<not> deflate_failed st then st\<lparr>outgoing_stream := None\<rparr> else st)"

text \<open>
  The loop ends when a call leaves room in the chunk. Each other round appends a whole chunk, so
  that a well-formed output buffer is full before the fuel is used up.
\<close>

abbreviation zfuel :: nat where "zfuel \<equiv> 2562"

fun compress_loop :: "nat \<Rightarrow> 'z zlib \<Rightarrow> 'z \<Rightarrow> byte list \<Rightarrow> buffer \<Rightarrow> ('z \<times> buffer) result" where
  "compress_loop 0 Z s inp out = Inl NoReturn"
| "compress_loop (Suc fuel) Z s inp out =
     (case deflate Z s inp ZCHUNK of
        (status, s', inp', d) \<Rightarrow>
          if status = Z_OK
          then rbind (buffer_append out d (of_nat (length d))) (\<lambda>out'.
                 if length d = ZCHUNK then compress_loop fuel Z s' inp' out' else Inr (s', out'))
          else Inl (Fatal ''buffer_compress: deflate returned''))"

definition buffer_compress :: "'z zlib \<Rightarrow> buffer \<Rightarrow> buffer \<Rightarrow> 'z compress_state \<Rightarrow> ('z compress_state \<times> buffer) result" where
  "buffer_compress Z inb outb st =
     (if buffer_len inb = 0 then Inr (st, outb)
      else case outgoing_stream st of
             None \<Rightarrow> Inl (Fatal ''buffer_compress: deflate returned'')
           | Some s \<Rightarrow>
               rbind (compress_loop zfuel Z s (take (unat (buffer_len inb)) (buffer_ptr inb)) outb)
                 (\<lambda>(s', outb'). Inr (st\<lparr>outgoing_stream := Some s'\<rparr>, outb')))"

text \<open>
  \<open>inflate\<close> is called until it reports that no progress was possible. The fuel counts the bytes it
  may still consume or produce: one round for each is enough for a stream that makes progress.
\<close>

fun uncompress_loop :: "nat \<Rightarrow> 'z zlib \<Rightarrow> 'z \<Rightarrow> byte list \<Rightarrow> buffer \<Rightarrow> ('z \<times> buffer) result" where
  "uncompress_loop 0 Z s inp out = Inl NoReturn"
| "uncompress_loop (Suc fuel) Z s inp out =
     (case inflate Z s inp ZCHUNK of
        (status, s', inp', d) \<Rightarrow>
          if status = Z_OK
          then rbind (buffer_append out d (of_nat (length d))) (\<lambda>out'. uncompress_loop fuel Z s' inp' out')
          else if status = Z_BUF_ERROR then Inr (s', out)
          else Inl (Fatal ''buffer_uncompress: inflate returned''))"

definition buffer_uncompress :: "'z zlib \<Rightarrow> buffer \<Rightarrow> buffer \<Rightarrow> 'z compress_state \<Rightarrow> ('z compress_state \<times> buffer) result" where
  "buffer_uncompress Z inb outb st =
     (case incoming_stream st of
        None \<Rightarrow> Inl (Fatal ''buffer_uncompress: inflate returned'')
      | Some s \<Rightarrow>
          rbind (uncompress_loop (unat (buffer_len inb) + unat BUFFER_MAX_LEN + 1) Z s
                   (take (unat (buffer_len inb)) (buffer_ptr inb)) outb)
            (\<lambda>(s', outb'). Inr (st\<lparr>incoming_stream := Some s'\<rparr>, outb')))"

section \<open>The loops return\<close>

text \<open>What is relied on of zlib: output fits the chunk, and a call of \<open>inflate\<close> that reports success
  consumed input or produced output.\<close>

definition zlib_ok :: "'z zlib \<Rightarrow> bool" where
  "zlib_ok Z \<longleftrightarrow>
     (\<forall>s inp r s' inp' d. deflate Z s inp ZCHUNK = (r, s', inp', d) \<longrightarrow> length d \<le> ZCHUNK) \<and>
     (\<forall>s inp r s' inp' d. inflate Z s inp ZCHUNK = (r, s', inp', d) \<and> r = Z_OK \<longrightarrow>
        length d \<le> ZCHUNK \<and> length inp' \<le> length inp \<and> (length inp' < length inp \<or> d \<noteq> []))"

lemma contents_bound: "buffer_ok b \<Longrightarrow> length (buffer_contents b) < 10485760"
  by (auto simp: length_contents buffer_ok_def)

lemma append_chunk:
  assumes "buffer_ok b" and "length d \<le> ZCHUNK" and "buffer_append b d (of_nat (length d)) = Inr b'"
  shows "buffer_ok b'" and "buffer_contents b' = buffer_contents b @ d"
proof -
  have "unat (of_nat (length d) :: u32) = length d" using assms(2) by (simp add: unat_of_nat)
  with append_spec [OF assms(1,3)] show "buffer_ok b'" "buffer_contents b' = buffer_contents b @ d" by simp_all
qed

lemma append_not_NoReturn: "buffer_ok b \<Longrightarrow> buffer_append b d len \<noteq> Inl NoReturn"
  using append_space_spec [of b len]
  by (cases "len > BUFFER_MAX_CHUNK") (auto simp: buffer_append_def rbind_eq_Inl buffer_append_space_def not_less)

lemma compress_loop_returns:
  assumes Z: "zlib_ok Z"
  shows "buffer_ok out \<Longrightarrow> 10485760 \<le> length (buffer_contents out) + 4096 * fuel \<Longrightarrow>
    compress_loop fuel Z s inp out \<noteq> Inl NoReturn"
proof (induction fuel arbitrary: s inp out)
  case 0
  then show ?case using contents_bound [of out] by simp
next
  case (Suc fuel)
  obtain r s' inp' d where d: "deflate Z s inp ZCHUNK = (r, s', inp', d)" by (metis prod_cases4)
  with Z have len: "length d \<le> ZCHUNK" unfolding zlib_ok_def by blast
  show ?case
  proof
    assume no: "compress_loop (Suc fuel) Z s inp out = Inl NoReturn"
    with d append_not_NoReturn [OF Suc.prems(1)] obtain out' where
      a: "buffer_append out d (of_nat (length d)) = Inr out'" and f: "length d = ZCHUNK"
      and rec: "compress_loop fuel Z s' inp' out' = Inl NoReturn"
      by (auto simp: rbind_eq_Inl split: if_splits)
    note ac = append_chunk [OF Suc.prems(1) len a]
    from Suc.IH [OF ac(1), of s' inp'] rec Suc.prems(2) f ac(2) show False by simp
  qed
qed

lemma uncompress_loop_returns:
  assumes Z: "zlib_ok Z"
  shows "buffer_ok out \<Longrightarrow> length inp + 10485760 < length (buffer_contents out) + fuel \<Longrightarrow>
    uncompress_loop fuel Z s inp out \<noteq> Inl NoReturn"
proof (induction fuel arbitrary: s inp out)
  case 0
  then show ?case using contents_bound [of out] by simp
next
  case (Suc fuel)
  obtain r s' inp' d where d: "inflate Z s inp ZCHUNK = (r, s', inp', d)" by (metis prod_cases4)
  show ?case
  proof
    assume no: "uncompress_loop (Suc fuel) Z s inp out = Inl NoReturn"
    with d append_not_NoReturn [OF Suc.prems(1)] obtain out' where
      a: "r = Z_OK" "buffer_append out d (of_nat (length d)) = Inr out'"
      and rec: "uncompress_loop fuel Z s' inp' out' = Inl NoReturn"
      by (auto simp: rbind_eq_Inl split: if_splits)
    from Z d a(1) have pr: "length d \<le> ZCHUNK" "length inp' \<le> length inp" "length inp' < length inp \<or> d \<noteq> []"
      unfolding zlib_ok_def by blast+
    note ac = append_chunk [OF Suc.prems(1) pr(1) a(2)]
    have "length inp' + 10485760 < length (buffer_contents out') + fuel"
      using pr(2,3) Suc.prems(2) ac(2) by (cases d) auto
    from Suc.IH [OF ac(1) this, of s'] rec show False by simp
  qed
qed

section \<open>Properties\<close>

text \<open>C19: Compressing and uncompressing a packet always come to an end: with a well-formed output buffer
  each loop returns or ends the process with \<open>fatal\<close>, however much a hostile stream expands, as the
  size limit of buffers bounds the number of chunks.\<close>

theorem compression_terminates:
  assumes "zlib_ok Z" and "buffer_ok inb" and "buffer_ok outb"
  shows "buffer_compress Z inb outb st \<noteq> Inl NoReturn \<and> buffer_uncompress Z inb outb st \<noteq> Inl NoReturn"
proof
  show "buffer_compress Z inb outb st \<noteq> Inl NoReturn"
    using compress_loop_returns [OF assms(1,3), of zfuel]
    by (auto simp: buffer_compress_def rbind_eq_Inl split: option.splits prod.splits)
  have "length (take (unat (buffer_len inb)) (buffer_ptr inb)) + 10485760 <
      length (buffer_contents outb) + (unat (buffer_len inb) + unat BUFFER_MAX_LEN + 1)"
    by simp
  from uncompress_loop_returns [OF assms(1,3) this]
  show "buffer_uncompress Z inb outb st \<noteq> Inl NoReturn"
    by (auto simp: buffer_uncompress_def rbind_eq_Inl split: option.splits prod.splits)
qed

text \<open>A stream for examples, which stores what it gets.\<close>

definition stored_zlib :: "unit zlib" where
  "stored_zlib = \<lparr>deflate_init = (\<lambda>_. ()), inflate_init = (),
     deflate = (\<lambda>s inp n. (Z_OK, s, drop n inp, take n inp)),
     inflate = (\<lambda>s inp n. if inp = [] then (Z_BUF_ERROR, s, [], []) else (Z_OK, s, drop n inp, take n inp))\<rparr>"

lemma stored_zlib_ok: "zlib_ok stored_zlib"
  by (auto simp: zlib_ok_def stored_zlib_def split: if_splits)

theorem compression_terminates_witness:
  "buffer_compress stored_zlib demo_buffer buffer_init compress_start \<noteq> Inl NoReturn \<and>
   buffer_uncompress stored_zlib demo_buffer buffer_init compress_start \<noteq> Inl NoReturn"
  by (rule compression_terminates [OF stored_zlib_ok demo_buffer_ok buffer_init_ok])

end
