(* ===== verification/Crc32.thy ===== *)
theory Crc32
  imports Prelude
begin

text \<open>
  The checksum of protocol 1 packets, \<open>crc32.c\<close>: a loop over the table \<open>crc32tab\<close>. It is shown to
  be the bit-serial division by the polynomial 0xedb88320, and linear, which is why the packet
  layer needs the detector of \<open>deattack.c\<close>.
\<close>

section \<open>The table-driven routine\<close>

definition crc32tab :: "u32 list" where
  "crc32tab = [
     0x00000000, 0x77073096, 0xee0e612c, 0x990951ba, 0x076dc419, 0x706af48f,
     0xe963a535, 0x9e6495a3, 0x0edb8832, 0x79dcb8a4, 0xe0d5e91e, 0x97d2d988,
     0x09b64c2b, 0x7eb17cbd, 0xe7b82d07, 0x90bf1d91, 0x1db71064, 0x6ab020f2,
     0xf3b97148, 0x84be41de, 0x1adad47d, 0x6ddde4eb, 0xf4d4b551, 0x83d385c7,
     0x136c9856, 0x646ba8c0, 0xfd62f97a, 0x8a65c9ec, 0x14015c4f, 0x63066cd9,
     0xfa0f3d63, 0x8d080df5, 0x3b6e20c8, 0x4c69105e, 0xd56041e4, 0xa2677172,
     0x3c03e4d1, 0x4b04d447, 0xd20d85fd, 0xa50ab56b, 0x35b5a8fa, 0x42b2986c,
     0xdbbbc9d6, 0xacbcf940, 0x32d86ce3, 0x45df5c75, 0xdcd60dcf, 0xabd13d59,
     0x26d930ac, 0x51de003a, 0xc8d75180, 0xbfd06116, 0x21b4f4b5, 0x56b3c423,
     0xcfba9599, 0xb8bda50f, 0x2802b89e, 0x5f058808, 0xc60cd9b2, 0xb10be924,
     0x2f6f7c87, 0x58684c11, 0xc1611dab, 0xb6662d3d, 0x76dc4190, 0x01db7106,
     0x98d220bc, 0xefd5102a, 0x71b18589, 0x06b6b51f, 0x9fbfe4a5, 0xe8b8d433,
     0x7807c9a2, 0x0f00f934, 0x9609a88e, 0xe10e9818, 0x7f6a0dbb, 0x086d3d2d,
     0x91646c97, 0xe6635c01, 0x6b6b51f4, 0x1c6c6162, 0x856530d8, 0xf262004e,
     0x6c0695ed, 0x1b01a57b, 0x8208f4c1, 0xf50fc457, 0x65b0d9c6, 0x12b7e950,
     0x8bbeb8ea, 0xfcb9887c, 0x62dd1ddf, 0x15da2d49, 0x8cd37cf3, 0xfbd44c65,
     0x4db26158, 0x3ab551ce, 0xa3bc0074, 0xd4bb30e2, 0x4adfa541, 0x3dd895d7,
     0xa4d1c46d, 0xd3d6f4fb, 0x4369e96a, 0x346ed9fc, 0xad678846, 0xda60b8d0,
     0x44042d73, 0x33031de5, 0xaa0a4c5f, 0xdd0d7cc9, 0x5005713c, 0x270241aa,
     0xbe0b1010, 0xc90c2086, 0x5768b525, 0x206f85b3, 0xb966d409, 0xce61e49f,
     0x5edef90e, 0x29d9c998, 0xb0d09822, 0xc7d7a8b4, 0x59b33d17, 0x2eb40d81,
     0xb7bd5c3b, 0xc0ba6cad, 0xedb88320, 0x9abfb3b6, 0x03b6e20c, 0x74b1d29a,
     0xead54739, 0x9dd277af, 0x04db2615, 0x73dc1683, 0xe3630b12, 0x94643b84,
     0x0d6d6a3e, 0x7a6a5aa8, 0xe40ecf0b, 0x9309ff9d, 0x0a00ae27, 0x7d079eb1,
     0xf00f9344, 0x8708a3d2, 0x1e01f268, 0x6906c2fe, 0xf762575d, 0x806567cb,
     0x196c3671, 0x6e6b06e7, 0xfed41b76, 0x89d32be0, 0x10da7a5a, 0x67dd4acc,
     0xf9b9df6f, 0x8ebeeff9, 0x17b7be43, 0x60b08ed5, 0xd6d6a3e8, 0xa1d1937e,
     0x38d8c2c4, 0x4fdff252, 0xd1bb67f1, 0xa6bc5767, 0x3fb506dd, 0x48b2364b,
     0xd80d2bda, 0xaf0a1b4c, 0x36034af6, 0x41047a60, 0xdf60efc3, 0xa867df55,
     0x316e8eef, 0x4669be79, 0xcb61b38c, 0xbc66831a, 0x256fd2a0, 0x5268e236,
     0xcc0c7795, 0xbb0b4703, 0x220216b9, 0x5505262f, 0xc5ba3bbe, 0xb2bd0b28,
     0x2bb45a92, 0x5cb36a04, 0xc2d7ffa7, 0xb5d0cf31, 0x2cd99e8b, 0x5bdeae1d,
     0x9b64c2b0, 0xec63f226, 0x756aa39c, 0x026d930a, 0x9c0906a9, 0xeb0e363f,
     0x72076785, 0x05005713, 0x95bf4a82, 0xe2b87a14, 0x7bb12bae, 0x0cb61b38,
     0x92d28e9b, 0xe5d5be0d, 0x7cdcefb7, 0x0bdbdf21, 0x86d3d2d4, 0xf1d4e242,
     0x68ddb3f8, 0x1fda836e, 0x81be16cd, 0xf6b9265b, 0x6fb077e1, 0x18b74777,
     0x88085ae6, 0xff0f6a70, 0x66063bca, 0x11010b5c, 0x8f659eff, 0xf862ae69,
     0x616bffd3, 0x166ccf45, 0xa00ae278, 0xd70dd2ee, 0x4e048354, 0x3903b3c2,
     0xa7672661, 0xd06016f7, 0x4969474d, 0x3e6e77db, 0xaed16a4a, 0xd9d65adc,
     0x40df0b66, 0x37d83bf0, 0xa9bcae53, 0xdebb9ec5, 0x47b2cf7f, 0x30b5ffe9,
     0xbdbdf21c, 0xcabac28a, 0x53b39330, 0x24b4a3a6, 0xbad03605, 0xcdd70693,
     0x54de5729, 0x23d967bf, 0xb3667a2e, 0xc4614ab8, 0x5d681b02, 0x2a6f2b94,
     0xb40bbe37, 0xc30c8ea1, 0x5a05df1b, 0x2d02ef8d]"

definition crc_step :: "u32 \<Rightarrow> byte \<Rightarrow> u32" where
  "crc_step crc b = crc32tab ! unat ((crc XOR ucast b) AND 0xff) XOR drop_bit 8 crc"

definition ssh_crc32 :: "byte list \<Rightarrow> u32 \<Rightarrow> u32" where
  "ssh_crc32 buf n = foldl crc_step 0 (take (unat n) buf)"

section \<open>The bit-serial reference\<close>

definition crc_bit :: "u32 \<Rightarrow> u32" where
  "crc_bit c = drop_bit 1 c XOR (if bit c 0 then 0xedb88320 else 0)"

definition crc_ref :: "u32 \<Rightarrow> byte \<Rightarrow> u32" where
  "crc_ref crc b = (crc_bit ^^ 8) (crc XOR ucast b)"

lemma crc_bit_xor: "crc_bit (a XOR b) = crc_bit a XOR crc_bit b"
  by (auto simp: crc_bit_def bit_xor_iff drop_bit_xor ac_simps)

lemma crc_bits_xor: "(crc_bit ^^ n) (a XOR b) = (crc_bit ^^ n) a XOR (crc_bit ^^ n) b"
  by (induction n) (simp_all add: crc_bit_xor)

lemma crc_bits_zero [simp]: "(crc_bit ^^ n) 0 = 0"
  by (induction n) (simp_all add: crc_bit_def)

text \<open>Eight steps on a word without low bits only shift it.\<close>

lemma crc_bits_high:
  "n + k \<le> 8 \<Longrightarrow> (\<forall>i<n + k. \<not> bit x i) \<Longrightarrow> (crc_bit ^^ n) x = drop_bit n x"
proof (induction n arbitrary: x)
  case 0
  then show ?case by simp
next
  case (Suc n)
  have "crc_bit x = drop_bit 1 x" using Suc.prems(2) by (simp add: crc_bit_def)
  moreover have "(crc_bit ^^ n) (drop_bit 1 x) = drop_bit n (drop_bit 1 x)"
    using Suc.prems by (intro Suc.IH) (auto simp: bit_drop_bit_eq)
  ultimately show ?case by (simp add: funpow_Suc_right drop_bit_drop_bit del: funpow.simps)
qed

text \<open>The table doubles with each bit of the index: its second half is the first one plus the
  remainder of that bit.\<close>

definition double_tab :: "u32 list \<Rightarrow> u32 \<Rightarrow> u32 list" where
  "double_tab t e = t @ map (\<lambda>x. x XOR e) t"

lemma length_double_tab [simp]: "length (double_tab t e) = 2 * length t"
  by (simp add: double_tab_def)

lemma word_xor_high:
  assumes "i < 2 ^ k"
  shows "(word_of_nat (2 ^ k + i) :: u32) = word_of_nat i XOR word_of_nat (2 ^ k)"
proof -
  have "2 ^ k + i = i XOR 2 ^ k"
    using assms disjunctive_xor_eq_or [of i "2 ^ k"] disjunctive_add_eq_or [of i "2 ^ k"]
    by (simp add: add.commute and_exp_eq_0_iff_not_bit bit_iff_odd)
  then show ?thesis using of_nat_xor_eq [of i "2 ^ k", where 'a = u32] by simp
qed

lemma doubled:
  assumes "n \<le> 8"
  shows "length (foldl double_tab [0] (map (\<lambda>k. (crc_bit ^^ 8) (2 ^ k)) [0..<n])) = 2 ^ n \<and>
    (\<forall>i<2 ^ n. foldl double_tab [0] (map (\<lambda>k. (crc_bit ^^ 8) (2 ^ k)) [0..<n]) ! i =
       (crc_bit ^^ 8) (word_of_nat i))"
  using assms
proof (induction n)
  case 0
  then show ?case by simp
next
  case (Suc n)
  let ?t = "foldl double_tab [0] (map (\<lambda>k. (crc_bit ^^ 8) (2 ^ k)) [0..<n])"
  from Suc have IH: "length ?t = 2 ^ n" "\<forall>i<2 ^ n. ?t ! i = (crc_bit ^^ 8) (word_of_nat i)" by auto
  have "double_tab ?t ((crc_bit ^^ 8) (2 ^ n)) ! i = (crc_bit ^^ 8) (word_of_nat i)" if i: "i < 2 ^ Suc n" for i
  proof (cases "i < 2 ^ n")
    case True
    then show ?thesis using IH by (simp add: double_tab_def nth_append)
  next
    case False
    then obtain j where j: "i = 2 ^ n + j" by (metis le_iff_add not_less)
    with i have "j < 2 ^ n" by simp
    then show ?thesis using IH word_xor_high [of j n] crc_bits_xor [of 8 "word_of_nat j" "2 ^ n"]
      by (simp add: double_tab_def nth_append j)
  qed
  then show ?case using IH(1) by simp
qed

lemma bit_remainders:
  "map (\<lambda>k. (crc_bit ^^ 8) (2 ^ k)) [0..<8] =
     [0x77073096, 0xee0e612c, 0x076dc419, 0x0edb8832, 0x1db71064, 0x3b6e20c8, 0x76dc4190, 0xedb88320]"
  by code_simp

lemma tab_is_doubled: "foldl double_tab [0]
    [0x77073096, 0xee0e612c, 0x076dc419, 0x0edb8832, 0x1db71064, 0x3b6e20c8, 0x76dc4190, 0xedb88320] = crc32tab"
  by (simp add: double_tab_def crc32tab_def)

lemma tab_ok: "i < 256 \<Longrightarrow> crc32tab ! i = (crc_bit ^^ 8) (word_of_nat i)"
  using doubled [of 8] unfolding bit_remainders tab_is_doubled by simp

lemma byte_high: "bit (b :: byte) n \<Longrightarrow> n < 8"
  using bit_imp_le_length [of b n] by simp

lemma crc_step_ref: "crc_step crc b = crc_ref crc b"
proof -
  let ?x = "crc XOR ucast b" and ?lo = "(crc XOR ucast b) AND 0xff" and ?hi = "crc AND NOT 0xff"
  have m: "(0xff :: u32) = mask 8" by (simp add: mask_eq_exp_minus_1)
  have split: "?x = ?lo XOR ?hi"
    unfolding m by (rule bit_eqI) (auto simp: bit_simps byte_high)
  have lo: "unat ?lo < 256"
    using and_mask_less' [of 8 ?x] by (simp add: word_less_nat_alt m)
  have "crc32tab ! unat ?lo = (crc_bit ^^ 8) ?lo" using tab_ok [OF lo] by simp
  moreover have "(crc_bit ^^ 8) ?hi = drop_bit 8 ?hi"
    unfolding m by (rule crc_bits_high [of 8 0]) (auto simp: bit_simps)
  moreover have "drop_bit 8 ?hi = drop_bit 8 crc"
    unfolding m by (rule bit_eqI) (auto simp: bit_simps dest: bit_imp_le_length)
  moreover have "crc_ref crc b = (crc_bit ^^ 8) ?lo XOR (crc_bit ^^ 8) ?hi"
    unfolding crc_ref_def using arg_cong [OF split, of "crc_bit ^^ 8"] by (simp only: crc_bits_xor)
  ultimately show ?thesis by (simp add: crc_step_def)
qed

section \<open>Properties\<close>

text \<open>C18: The table-driven checksum is the bit-serial remainder modulo the CRC-32 polynomial: for every
  text, \<open>ssh_crc32\<close> shifts in its bits one by one. Every entry of the table is covered.\<close>

theorem crc32_is_bit_serial:
  "ssh_crc32 buf n = foldl (\<lambda>crc b. (crc_bit ^^ 8) (crc XOR ucast b)) 0 (take (unat n) buf)"
  by (simp add: ssh_crc32_def crc_step_ref [abs_def] crc_ref_def [abs_def])

lemma crc_fold_xor:
  "length xs = length ys \<Longrightarrow>
   foldl crc_step (a XOR b) (map2 (XOR) xs ys) = foldl crc_step a xs XOR foldl crc_step b ys"
proof (induction xs ys arbitrary: a b rule: list_induct2)
  case Nil
  then show ?case by simp
next
  case (Cons x xs y ys)
  have "crc_step (a XOR b) (x XOR y) = crc_step a x XOR crc_step b y"
    by (simp add: crc_step_ref crc_ref_def crc_bits_xor [symmetric] unsigned_xor_eq ac_simps)
  then show ?case using Cons.IH by simp
qed

text \<open>The checksum is linear: the checksum of the difference of two texts of the same length is
  the difference of their checksums. A change to a packet can hence be compensated in its check
  bytes without knowing the packet, the attack \<open>deattack.c\<close> looks for.\<close>

theorem crc32_linear:
  assumes "length xs = length ys"
  shows "ssh_crc32 (map2 (XOR) xs ys) n = ssh_crc32 xs n XOR ssh_crc32 ys n"
  using crc_fold_xor [of "take (unat n) xs" "take (unat n) ys" 0 0] assms
  by (simp add: ssh_crc32_def take_map take_zip)

theorem crc32_linear_witness:
  "ssh_crc32 [1 XOR 4, 2 XOR 6] 2 = ssh_crc32 [1, 2] 2 XOR ssh_crc32 [4, 6] 2"
  using crc32_linear [of "[1, 2]" "[4, 6]" 2] by simp

end
