(* ===== verification/Deattack.thy ===== *)
theory Deattack
  imports Crc32 Wire
begin

text \<open>
  The detector of \<open>deattack.c\<close> for packets crafted to keep the protocol 1 checksum: it looks for
  repeated ciphertext blocks and, for each, whether its positions form a pattern with CRC 0.
  Small packets are searched directly, others with an open hash table that is kept between
  calls.
\<close>

section \<open>Data\<close>

abbreviation SSH_MAXBLOCKS :: u32 where "SSH_MAXBLOCKS \<equiv> 0x8000"
abbreviation SSH_BLOCKSIZE :: nat where "SSH_BLOCKSIZE \<equiv> 8"
abbreviation HASH_UNUSED :: u16 where "HASH_UNUSED \<equiv> 0xffff"
abbreviation MAX_IDENTICAL :: nat where "MAX_IDENTICAL \<equiv> 32"

datatype deattack = DEATTACK_OK | DEATTACK_DETECTED | DEATTACK_DOS_DETECTED

text \<open>The static variables: the table, null before the first call, and its size.\<close>

record attack_state =
  at_h :: "u16 list option"
  at_n :: u32

definition attack_init :: attack_state where
  "attack_init = \<lparr>at_h = None, at_n = 4096\<rparr>"

definition HASH_FACTOR :: "u32 \<Rightarrow> u32" where
  "HASH_FACTOR x = x * 3 div 2"

section \<open>Patterns\<close>

text \<open>\<open>(u_char *)&b\<close> on a little-endian machine.\<close>

definition host_bytes :: "u32 \<Rightarrow> byte list" where
  "host_bytes b = [ucast b, ucast (drop_bit 8 b), ucast (drop_bit 16 b), ucast (drop_bit 24 b)]"

definition crc_update :: "u32 \<Rightarrow> u32 \<Rightarrow> u32" where
  "crc_update a b = ssh_crc32 (host_bytes (b XOR a)) 4"

text \<open>Block \<open>j\<close> of a packet; the loops over \<open>c\<close> and \<open>d\<close> run over block numbers.\<close>

definition block :: "byte list \<Rightarrow> nat \<Rightarrow> byte list" where
  "block buf j = take SSH_BLOCKSIZE (drop (j * SSH_BLOCKSIZE) buf)"

definition check_crc :: "byte list \<Rightarrow> byte list \<Rightarrow> nat \<Rightarrow> bool" where
  "check_crc S buf blocks =
     (fold (\<lambda>j crc. if block buf j = S then crc_update (crc_update crc 1) 0
                    else crc_update (crc_update crc 0) 0) [0..<blocks] 0 = 0)"

section \<open>Small packets\<close>

text \<open>The inner loop stops at the first earlier block equal to \<open>c\<close>.\<close>

fun small_loop :: "byte list \<Rightarrow> nat \<Rightarrow> nat list \<Rightarrow> deattack" where
  "small_loop buf blocks [] = DEATTACK_OK"
| "small_loop buf blocks (c # cs) =
     (if (\<exists>d\<in>set [0..<c]. block buf c = block buf d) \<and> check_crc (block buf c) buf blocks
      then DEATTACK_DETECTED else small_loop buf blocks cs)"

section \<open>The hash table\<close>

fun grow_size :: "nat \<Rightarrow> u32 \<Rightarrow> u32 \<Rightarrow> u32 result" where
  "grow_size 0 l want = Inl NoReturn"
| "grow_size (Suc fuel) l want = (if l < want then grow_size fuel (push_bit 2 l) want else Inr l)"

text \<open>The probe for block \<open>c\<close>: it ends at an unused slot, or at one whose block is equal.\<close>

datatype probe = Free nat | Equal nat

fun probe_loop :: "nat \<Rightarrow> u16 list \<Rightarrow> u32 \<Rightarrow> byte list \<Rightarrow> byte list \<Rightarrow> u32 \<Rightarrow> probe result" where
  "probe_loop 0 h n buf c i = Inl NoReturn"
| "probe_loop (Suc fuel) h n buf c i =
     (if h ! unat i = HASH_UNUSED then Inr (Free (unat i))
      else if c = block buf (unat (h ! unat i)) then Inr (Equal (unat i))
      else probe_loop fuel h n buf c ((i + 1) AND (n - 1)))"

fun hash_loop :: "byte list \<Rightarrow> nat \<Rightarrow> u32 \<Rightarrow> nat list \<Rightarrow> nat \<Rightarrow> u16 list \<Rightarrow> (deattack \<times> u16 list) result" where
  "hash_loop buf blocks n [] same h = Inr (DEATTACK_OK, h)"
| "hash_loop buf blocks n (j # js) same h =
     rbind (probe_loop (unat n) h n buf (block buf j) (get_u32 (block buf j) AND (n - 1))) (\<lambda>p.
       case p of
         Free i \<Rightarrow> hash_loop buf blocks n js same (h[i := word_of_nat j])
       | Equal i \<Rightarrow>
           if same + 1 > MAX_IDENTICAL then Inr (DEATTACK_DOS_DETECTED, h)
           else if check_crc (block buf j) buf blocks then Inr (DEATTACK_DETECTED, h)
           else hash_loop buf blocks n js (same + 1) (h[i := word_of_nat j]))"

definition detect_attack :: "byte list \<Rightarrow> u32 \<Rightarrow> attack_state \<Rightarrow> (deattack \<times> attack_state) result" where
  "detect_attack buf len st =
     (if len > SSH_MAXBLOCKS * 8 \<or> len mod 8 \<noteq> 0 then Inl (Fatal ''detect_attack: bad length'')
      else rbind (grow_size 16 (at_n st) (HASH_FACTOR (len div 8))) (\<lambda>l.
        let st = (case at_h st of
                    None \<Rightarrow> \<lparr>at_h = Some (replicate (unat l) 0), at_n = l\<rparr>
                  | Some h \<Rightarrow> if l > at_n st then \<lparr>at_h = Some (take (unat l) h @ replicate (unat l - length h) 0), at_n = l\<rparr>
                              else st);
            blocks = unat len div SSH_BLOCKSIZE
        in if len \<le> 56 then Inr (small_loop buf blocks [0..<blocks], st)
           else rbind (hash_loop buf blocks (at_n st) [0..<blocks] 0 (replicate (unat (at_n st)) HASH_UNUSED))
             (\<lambda>(r, h). Inr (r, st\<lparr>at_h := Some h\<rparr>))))"

section \<open>Probing\<close>

definition table_size :: "u32 \<Rightarrow> bool" where
  "table_size n \<longleftrightarrow> n = 4096 \<or> n = 16384 \<or> n = 65536"

lemma mask_mod:
  assumes "table_size n"
  shows "unat (x AND (n - 1)) = unat x mod unat n"
proof -
  have "n - 1 = mask 12 \<and> unat n = 2 ^ 12 \<or> n - 1 = mask 14 \<and> unat n = 2 ^ 14 \<or> n - 1 = mask 16 \<and> unat n = 2 ^ 16"
    using assms by (auto simp: table_size_def mask_eq_exp_minus_1)
  then show ?thesis
    by (auto simp: take_bit_eq_mask [symmetric] unat_mod take_bit_eq_mod simp del: take_bit_eq_mask)
qed

lemma next_slot:
  assumes "table_size n" and "unat i < unat n"
  shows "unat ((i + 1) AND (n - 1)) = (unat i + 1) mod unat n"
proof -
  have "unat (i + 1) = unat i + 1" using assms by (auto simp: table_size_def unat_add_small)
  then show ?thesis using mask_mod [OF assms(1)] by simp
qed

definition stops :: "u16 list \<Rightarrow> byte list \<Rightarrow> byte list \<Rightarrow> nat \<Rightarrow> bool" where
  "stops h buf c s \<longleftrightarrow> h ! s = HASH_UNUSED \<or> c = block buf (unat (h ! s))"

lemma probe_stops:
  assumes "table_size n" and "unat i < unat n" and "t < fuel" and "stops h buf c ((unat i + t) mod unat n)"
    and "\<And>t'. t' < t \<Longrightarrow> \<not> stops h buf c ((unat i + t') mod unat n)"
  shows "probe_loop fuel h n buf c i = Inr (if h ! ((unat i + t) mod unat n) = HASH_UNUSED
    then Free ((unat i + t) mod unat n) else Equal ((unat i + t) mod unat n))"
  using assms(2-)
proof (induction fuel arbitrary: i t)
  case 0
  then show ?case by simp
next
  case (Suc fuel)
  show ?case
  proof (cases t)
    case 0
    then show ?thesis using Suc.prems by (auto simp: stops_def)
  next
    case (Suc u)
    let ?i = "(i + 1) AND (n - 1)"
    have ui: "unat ?i = (unat i + 1) mod unat n" using next_slot [OF assms(1) Suc.prems(1)] .
    have sl: "(unat ?i + v) mod unat n = (unat i + Suc v) mod unat n" for v
      by (simp add: ui mod_simps)
    have "\<not> stops h buf c (unat i)" using Suc.prems(1) Suc.prems(4) [of 0] Suc by simp
    moreover have "unat ?i < unat n" using assms(1) by (auto simp: ui table_size_def)
    moreover have "probe_loop fuel h n buf c ?i = Inr (if h ! ((unat ?i + u) mod unat n) = HASH_UNUSED
        then Free ((unat ?i + u) mod unat n) else Equal ((unat ?i + u) mod unat n))"
      using Suc.prems(2,3) Suc.prems(4) [of "Suc _"] Suc calculation(2) by (intro Suc.IH) (simp_all only: sl, auto)
    ultimately show ?thesis using Suc by (simp add: sl stops_def)
  qed
qed

section \<open>The table during a packet\<close>

abbreviation home :: "byte list \<Rightarrow> u32 \<Rightarrow> nat \<Rightarrow> nat" where
  "home buf n j \<equiv> unat (get_u32 (block buf j) AND (n - 1))"

definition used :: "u16 list \<Rightarrow> nat set" where
  "used h = {s. s < length h \<and> h ! s \<noteq> HASH_UNUSED}"

text \<open>After the first \<open>j\<close> blocks: at most \<open>j\<close> slots are used, they name earlier blocks, and the chain
  of every earlier block leads over used slots to one with an equal block.\<close>

definition table_inv :: "byte list \<Rightarrow> u32 \<Rightarrow> nat \<Rightarrow> u16 list \<Rightarrow> bool" where
  "table_inv buf n j h \<longleftrightarrow> length h = unat n \<and> card (used h) \<le> j \<and> (\<forall>s\<in>used h. unat (h ! s) < j) \<and>
     (\<forall>d<j. \<exists>t. (\<forall>t'\<le>t. (home buf n d + t') mod unat n \<in> used h) \<and>
        block buf (unat (h ! ((home buf n d + t) mod unat n))) = block buf d)"

definition repeated :: "byte list \<Rightarrow> nat \<Rightarrow> bool" where
  "repeated buf c \<longleftrightarrow> (\<exists>d<c. block buf c = block buf d)"

lemma used_finite [simp]: "finite (used h)"
  by (simp add: used_def)

lemma table_inv_init: "table_inv buf n 0 (replicate (unat n) HASH_UNUSED)"
  by (auto simp: table_inv_def used_def)

lemma free_slot:
  assumes "table_size n" and "table_inv buf n j h" and "j < unat n" and "i < unat n"
  shows "\<exists>t<unat n. (i + t) mod unat n \<notin> used h"
proof -
  have "card (used h) < card {..<unat n}" using assms by (simp add: table_inv_def)
  then obtain s where s: "s < unat n" "s \<notin> used h"
    by (metis card_mono finite_lessThan lessThan_iff not_le subsetI used_finite)
  let ?t = "(s + (unat n - i)) mod unat n"
  have "(i + ?t) mod unat n = (s + unat n) mod unat n" using assms(4) by (simp add: mod_simps)
  then have "(i + ?t) mod unat n = s" using s(1) by simp
  moreover have "?t < unat n" using assms(4) by simp
  ultimately show ?thesis using s(2) by metis
qed

lemma first_stop:
  assumes "table_size n" and "table_inv buf n j h" and "j < unat n"
  obtains t where "stops h buf (block buf j) ((home buf n j + t) mod unat n)"
    and "\<And>t'. t' < t \<Longrightarrow> \<not> stops h buf (block buf j) ((home buf n j + t') mod unat n)"
    and "probe_loop (unat n) h n buf (block buf j) (get_u32 (block buf j) AND (n - 1)) =
      Inr (if h ! ((home buf n j + t) mod unat n) = HASH_UNUSED
           then Free ((home buf n j + t) mod unat n) else Equal ((home buf n j + t) mod unat n))"
proof -
  let ?P = "\<lambda>t. stops h buf (block buf j) ((home buf n j + t) mod unat n)"
  have n0: "0 < unat n" using assms(3) by simp
  have hm: "home buf n j < unat n" using n0 by (simp add: mask_mod [OF assms(1)])
  from free_slot [OF assms hm] obtain t0 where t0: "t0 < unat n" "(home buf n j + t0) mod unat n \<notin> used h" by blast
  have len: "length h = unat n" using assms(2) by (simp add: table_inv_def)
  have P0: "?P t0" using t0 n0 len by (auto simp: stops_def used_def)
  let ?t = "LEAST t. ?P t"
  have "?P ?t" using P0 by (rule LeastI)
  moreover have "\<And>t'. t' < ?t \<Longrightarrow> \<not> ?P t'" by (rule not_less_Least)
  moreover have "?t < unat n" using Least_le [of ?P, OF P0] t0(1) by simp
  ultimately show ?thesis using probe_stops [OF assms(1) hm] that by blast
qed

text \<open>A block that occurred before is found.\<close>

lemma repeated_found:
  assumes inv: "table_inv buf n j h" and rep: "repeated buf j"
    and st: "\<And>t'. t' < t \<Longrightarrow> \<not> stops h buf (block buf j) ((home buf n j + t') mod unat n)"
  shows "(home buf n j + t) mod unat n \<in> used h"
proof -
  from rep obtain d where d: "d < j" "block buf j = block buf d" by (auto simp: repeated_def)
  with inv obtain u where u: "\<forall>t'\<le>u. (home buf n j + t') mod unat n \<in> used h"
    "block buf (unat (h ! ((home buf n j + u) mod unat n))) = block buf j"
    unfolding table_inv_def by metis
  have "t \<le> u"
  proof (rule ccontr)
    assume "\<not> t \<le> u"
    then have "\<not> stops h buf (block buf j) ((home buf n j + u) mod unat n)" using st by simp
    with u(2) show False by (simp add: stops_def)
  qed
  with u(1) show ?thesis by blast
qed

lemma table_inv_store:
  assumes sz: "table_size n" and inv: "table_inv buf n j h" and j: "j < 65535"
    and s: "s = (home buf n j + t) mod unat n" and st: "stops h buf (block buf j) s"
    and before: "\<And>t'. t' < t \<Longrightarrow> \<not> stops h buf (block buf j) ((home buf n j + t') mod unat n)"
  shows "table_inv buf n (Suc j) (h[s := word_of_nat j])"
proof -
  let ?h = "h[s := word_of_nat j]"
  have len: "length h = unat n" and card: "card (used h) \<le> j" and ent: "\<And>x. x \<in> used h \<Longrightarrow> unat (h ! x) < j"
    using inv by (auto simp: table_inv_def)
  have n0: "0 < unat n" using sz by (auto simp: table_size_def)
  then have sl: "(x :: nat) mod unat n < length h" for x using len by simp
  have uj: "unat (word_of_nat j :: u16) = j" using j by (simp add: unat_of_nat)
  then have ne: "(word_of_nat j :: u16) \<noteq> HASH_UNUSED" using j by (auto dest: arg_cong [of _ _ unat])
  have us: "used ?h = insert s (used h)"
    using sl s ne by (auto simp: used_def nth_list_update)
  have "card (used ?h) \<le> Suc j" using card us card_insert_le_m1 by (simp add: card_insert_if)
  moreover have "\<forall>x\<in>used ?h. unat (?h ! x) < Suc j"
  proof
    fix x assume "x \<in> used ?h"
    then show "unat (?h ! x) < Suc j"
      using ent [of x] sl s uj us by (cases "x = s") (auto simp: less_Suc_eq)
  qed
  moreover have "\<exists>u. (\<forall>t'\<le>u. (home buf n d + t') mod unat n \<in> used ?h) \<and>
      block buf (unat (?h ! ((home buf n d + u) mod unat n))) = block buf d" if d: "d < Suc j" for d
  proof (cases "d = j")
    case True
    have "(home buf n j + t') mod unat n \<in> used ?h" if "t' \<le> t" for t'
      using before [of t'] that s sl us by (cases "t' = t") (auto simp: stops_def used_def)
    moreover have "?h ! s = word_of_nat j" using sl s by simp
    ultimately show ?thesis using True s uj by (intro exI [of _ t]) auto
  next
    case False
    with d inv obtain u where u: "\<forall>t'\<le>u. (home buf n d + t') mod unat n \<in> used h"
      "block buf (unat (h ! ((home buf n d + u) mod unat n))) = block buf d"
      unfolding table_inv_def by (metis less_Suc_eq)
    have "block buf (unat (?h ! ((home buf n d + u) mod unat n))) = block buf d"
    proof (cases "(home buf n d + u) mod unat n = s")
      case True
      then have "h ! s \<noteq> HASH_UNUSED" using u(1) by (auto simp: used_def)
      then have "block buf j = block buf d" using st u(2) True by (simp add: stops_def)
      then show ?thesis using True sl s uj by simp
    next
      case False
      then show ?thesis using u(2) by simp
    qed
    then show ?thesis using u(1) us by auto
  qed
  ultimately show ?thesis using len by (auto simp: table_inv_def)
qed

text \<open>What the answer for a packet says about the blocks from \<open>j\<close> on.\<close>

definition verdict :: "byte list \<Rightarrow> nat \<Rightarrow> nat \<Rightarrow> deattack \<Rightarrow> bool" where
  "verdict buf blocks j r \<longleftrightarrow>
     (r = DEATTACK_OK \<longrightarrow> (\<forall>c. j \<le> c \<and> c < blocks \<and> repeated buf c \<longrightarrow> \<not> check_crc (block buf c) buf blocks)) \<and>
     (r \<noteq> DEATTACK_OK \<longrightarrow> (\<exists>c<blocks. repeated buf c \<and>
        (r = DEATTACK_DETECTED \<longrightarrow> check_crc (block buf c) buf blocks)))"

lemma verdict_step:
  "verdict buf blocks (Suc j) r \<Longrightarrow> repeated buf j \<longrightarrow> \<not> check_crc (block buf j) buf blocks \<Longrightarrow> verdict buf blocks j r"
  by (simp add: verdict_def) (metis Suc_leI le_neq_implies_less)

lemma hash_loop_spec:
  assumes sz: "table_size n" and b: "blocks < unat n" "blocks \<le> 32768"
  shows "table_inv buf n j h \<Longrightarrow> j \<le> blocks \<Longrightarrow>
    \<exists>r h'. hash_loop buf blocks n [j..<blocks] same h = Inr (r, h') \<and> length h' = unat n \<and> verdict buf blocks j r"
proof (induction "blocks - j" arbitrary: j h same)
  case 0
  then show ?case by (auto simp: table_inv_def verdict_def)
next
  case (Suc k)
  then have jb: "j < blocks" and k: "k = blocks - Suc j" by simp_all
  then have up: "[j..<blocks] = j # [Suc j..<blocks]" by (simp add: upt_conv_Cons)
  have len: "length h = unat n" using Suc.prems(1) by (simp add: table_inv_def)
  have jn: "j < unat n" "j < 65535" using jb b by auto
  from first_stop [OF sz Suc.prems(1) jn(1)] obtain t where
      st: "stops h buf (block buf j) ((home buf n j + t) mod unat n)"
    and before: "\<And>t'. t' < t \<Longrightarrow> \<not> stops h buf (block buf j) ((home buf n j + t') mod unat n)"
    and pr: "probe_loop (unat n) h n buf (block buf j) (get_u32 (block buf j) AND (n - 1)) =
      Inr (if h ! ((home buf n j + t) mod unat n) = HASH_UNUSED
           then Free ((home buf n j + t) mod unat n) else Equal ((home buf n j + t) mod unat n))" by blast
  let ?s = "(home buf n j + t) mod unat n"
  have inv': "table_inv buf n (Suc j) (h[?s := word_of_nat j])"
    by (rule table_inv_store [OF sz Suc.prems(1) jn(2) refl st before])
  note IH = Suc.hyps(1) [OF k inv' Suc_leI [OF jb]]
  show ?case
  proof (cases "h ! ?s = HASH_UNUSED")
    case True
    then have "?s \<notin> used h" by (simp add: used_def)
    then have "\<not> repeated buf j" using repeated_found [OF Suc.prems(1) _ before] by blast
    with IH [of same] True pr show ?thesis by (auto simp: up intro: verdict_step)
  next
    case False
    have "?s < length h" using len jn(1) by simp
    then have "unat (h ! ?s) < j" using False Suc.prems(1) by (auto simp: table_inv_def used_def)
    then have rep: "repeated buf j" using st False by (auto simp: stops_def repeated_def)
    show ?thesis
    proof (cases "same + 1 > MAX_IDENTICAL \<or> check_crc (block buf j) buf blocks")
      case True
      then show ?thesis using False pr rep jb len by (auto simp: up verdict_def)
    next
      case nc: False
      then show ?thesis using IH [of "same + 1"] False pr by (auto simp: up intro: verdict_step)
    qed
  qed
qed

lemma small_loop_spec: "j \<le> blocks \<Longrightarrow> verdict buf blocks j (small_loop buf blocks [j..<blocks])"
proof (induction "blocks - j" arbitrary: j)
  case 0
  then show ?case by (auto simp: verdict_def)
next
  case (Suc k)
  then have jb: "j < blocks" and k: "k = blocks - Suc j" by simp_all
  then have up: "[j..<blocks] = j # [Suc j..<blocks]" by (simp add: upt_conv_Cons)
  show ?case
  proof (cases "repeated buf j \<and> check_crc (block buf j) buf blocks")
    case True
    then show ?thesis using jb by (auto simp: up verdict_def repeated_def)
  next
    case False
    then show ?thesis using Suc.hyps(1) [OF k Suc_leI [OF jb]] verdict_step [of buf blocks j]
      by (auto simp: up repeated_def)
  qed
qed

lemma grow_size_ok:
  assumes "table_size n" and "want \<le> 49152"
  shows "\<exists>l. grow_size 16 n want = Inr l \<and> table_size l \<and> want \<le> l"
proof -
  have s: "push_bit 2 (4096 :: u32) = 16384" "push_bit 2 (16384 :: u32) = 65536" by simp_all
  have u: "0 < f \<Longrightarrow> grow_size f x want = (if x < want then grow_size (f - 1) (push_bit 2 x) want else Inr x)" for f x
    by (cases f) auto
  have "\<not> 65536 < want" using assms(2) by (simp add: word_less_nat_alt word_le_nat_alt)
  then show ?thesis using assms(1) by (auto simp: table_size_def s not_less u [of 16] u [of 15] u [of 14])
qed

lemma hash_factor_bounds:
  assumes "len \<le> 0x40000"
  shows "HASH_FACTOR (len div 8) \<le> 49152"
    and "unat (HASH_FACTOR (len div 8)) = unat len div 8 * 3 div 2"
proof -
  have b: "unat len div 8 \<le> 32768" using assms by (simp add: word_le_nat_alt)
  then have "unat ((len div 8) * 3) = unat len div 8 * 3"
    by (subst unat_mult_lem [THEN iffD1]) (simp_all add: unat_div)
  then show e: "unat (HASH_FACTOR (len div 8)) = unat len div 8 * 3 div 2"
    by (simp add: HASH_FACTOR_def unat_div)
  show "HASH_FACTOR (len div 8) \<le> 49152" using b e by (simp add: word_le_nat_alt)
qed

section \<open>Properties\<close>

text \<open>C17: The detector always answers on a packet of whole blocks up to 256 kB, whatever earlier packets
  left in its table: the probing never runs around a full table. An answer of no attack means that no
  repeated block forms a pattern of CRC 0, a detection comes with such a block, and a packet is
  rejected as a denial of service only when a block is repeated; a packet of distinct blocks always
  passes.\<close>

theorem detect_attack_decides:
  assumes "table_size (at_n st)" and "len \<le> 0x40000" and "len mod 8 = 0"
  shows "\<exists>r st'. detect_attack buf len st = Inr (r, st') \<and> table_size (at_n st') \<and>
    (r = DEATTACK_OK \<longrightarrow> (\<forall>c<unat len div 8. (\<exists>d<c. block buf c = block buf d) \<longrightarrow>
       \<not> check_crc (block buf c) buf (unat len div 8))) \<and>
    (r = DEATTACK_DETECTED \<longrightarrow> (\<exists>c<unat len div 8. (\<exists>d<c. block buf c = block buf d) \<and>
       check_crc (block buf c) buf (unat len div 8))) \<and>
    (r = DEATTACK_DOS_DETECTED \<longrightarrow> (\<exists>c<unat len div 8. \<exists>d<c. block buf c = block buf d))"
proof -
  let ?b = "unat len div 8"
  have g: "\<not> (len > SSH_MAXBLOCKS * 8 \<or> len mod 8 \<noteq> 0)" using assms(2,3) by simp
  note hf = hash_factor_bounds [OF assms(2)]
  from grow_size_ok [OF assms(1) hf(1)] obtain l where
    l: "grow_size 16 (at_n st) (HASH_FACTOR (len div 8)) = Inr l" "table_size l" "HASH_FACTOR (len div 8) \<le> l" by blast
  define st1 where "st1 = (case at_h st of
      None \<Rightarrow> \<lparr>at_h = Some (replicate (unat l) 0), at_n = l\<rparr>
    | Some h \<Rightarrow> if l > at_n st then \<lparr>at_h = Some (take (unat l) h @ replicate (unat l - length h) 0), at_n = l\<rparr> else st)"
  have n1: "table_size (at_n st1)" "l \<le> at_n st1"
    using assms(1) l by (auto simp: st1_def not_less split: option.splits)
  have "\<exists>r st'. detect_attack buf len st = Inr (r, st') \<and> table_size (at_n st') \<and> verdict buf ?b 0 r"
  proof (cases "len \<le> 56")
    case True
    then show ?thesis using g l(1) n1(1) small_loop_spec [of 0 ?b buf]
      by (auto simp: detect_attack_def st1_def [symmetric] Let_def)
  next
    case False
    have b: "?b \<le> 32768" using assms(2) by (simp add: word_le_nat_alt)
    have "7 \<le> ?b" using False by (simp add: word_le_nat_alt)
    moreover have "?b * 3 div 2 \<le> unat (at_n st1)"
      using hf(2) l(3) n1(2) by (simp add: word_le_nat_alt)
    ultimately have "?b < unat (at_n st1)" by simp
    from hash_loop_spec [OF n1(1) this b table_inv_init] obtain r h' where
      "hash_loop buf ?b (at_n st1) [0..<?b] 0 (replicate (unat (at_n st1)) HASH_UNUSED) = Inr (r, h')"
      "verdict buf ?b 0 r" by blast
    then show ?thesis using g l(1) n1(1) False by (auto simp: detect_attack_def st1_def [symmetric] Let_def)
  qed
  then show ?thesis by (auto simp: verdict_def repeated_def)
qed

theorem detect_attack_decides_witness:
  "\<exists>st'. detect_attack [1, 2, 3, 4, 5, 6, 7, 8, 1, 2, 3, 4, 5, 6, 7, 9] 16 attack_init = Inr (DEATTACK_OK, st') \<and>
     table_size (at_n st')"
proof -
  let ?buf = "[1, 2, 3, 4, 5, 6, 7, 8, 1, 2, 3, 4, 5, 6, 7, 9] :: byte list"
  have "table_size (at_n attack_init)" by (simp add: attack_init_def table_size_def)
  from detect_attack_decides [OF this, of 16 ?buf] obtain r st' where
    r: "detect_attack ?buf 16 attack_init = Inr (r, st')" "table_size (at_n st')"
    and "r = DEATTACK_DETECTED \<longrightarrow> (\<exists>c<2. (\<exists>d<c. block ?buf c = block ?buf d) \<and> check_crc (block ?buf c) ?buf 2)"
    and "r = DEATTACK_DOS_DETECTED \<longrightarrow> (\<exists>c<2. \<exists>d<c. block ?buf c = block ?buf d)" by auto
  moreover have "\<not> (\<exists>c<2. \<exists>d<c. block ?buf c = block ?buf d)"
    by (auto simp: less_2_cases_iff block_def)
  ultimately have "r = DEATTACK_OK" by (cases r) auto
  with r show ?thesis by blast
qed

end
