(* ===== verification/Scan.thy ===== *)
theory Scan
  imports Prelude
begin

text \<open>
  The part of \<open>fscanf\<close> the two loaders (\<open>hashmap.c\<close>, \<open>load_st.c\<close>) use: the directives
  \<open>%d\<close>, \<open>%s\<close>, \<open>%c\<close>, literal bytes and white space, on the rest of a file as a byte list.
  The number of values returned is the return value of the C call. The converse direction,
  \<open>print_int\<close>, is what a writer of such a file prints, and the two are inverse.
\<close>

section \<open>Directives\<close>

datatype directive = DInt | DStr | DChar | DLit byte | DWs

datatype scanned = VInt int | VStr "byte list" | VChar byte

definition isspace :: "byte \<Rightarrow> bool" where
  "isspace c \<longleftrightarrow> c = 32 \<or> 9 \<le> c \<and> c \<le> 13"

definition isdigit :: "byte \<Rightarrow> bool" where
  "isdigit c \<longleftrightarrow> 48 \<le> c \<and> c \<le> 57"

definition digits_val :: "byte list \<Rightarrow> int" where
  "digits_val ds = foldl (\<lambda>n d. 10 * n + (uint d - 48)) 0 ds"

text \<open>A converted number is stored into an \<open>int\<close>: it saturates as a \<open>long\<close> and is truncated.\<close>

definition store_int :: "int \<Rightarrow> int" where
  "store_int v = sint (word_of_int (max (- (2 ^ 63)) (min (2 ^ 63 - 1) v)) :: 32 word)"

definition scan_int :: "byte list \<Rightarrow> (int \<times> byte list) option" where
  "scan_int xs =
     (let ys = dropWhile isspace xs;
          neg = (ys \<noteq> [] \<and> hd ys = 45);
          zs = (if ys \<noteq> [] \<and> (hd ys = 45 \<or> hd ys = 43) then tl ys else ys);
          ds = takeWhile isdigit zs
      in if ds = [] then None
         else Some (store_int (if neg then - digits_val ds else digits_val ds), dropWhile isdigit zs))"

fun fscanf :: "directive list \<Rightarrow> byte list \<Rightarrow> scanned list \<times> byte list" where
  "fscanf [] xs = ([], xs)"
| "fscanf (DWs # ds) xs = fscanf ds (dropWhile isspace xs)"
| "fscanf (DLit c # ds) xs =
     (case xs of [] \<Rightarrow> ([], []) | x # r \<Rightarrow> if x = c then fscanf ds r else ([], xs))"
| "fscanf (DInt # ds) xs =
     (case scan_int xs of None \<Rightarrow> ([], xs)
      | Some (v, r) \<Rightarrow> let (vs, r') = fscanf ds r in (VInt v # vs, r'))"
| "fscanf (DStr # ds) xs =
     (let ys = dropWhile isspace xs; w = takeWhile (\<lambda>c. \<not> isspace c) ys in
      if w = [] then ([], ys)
      else let (vs, r') = fscanf ds (dropWhile (\<lambda>c. \<not> isspace c) ys) in (VStr w # vs, r'))"
| "fscanf (DChar # ds) xs =
     (case xs of [] \<Rightarrow> ([], [])
      | x # r \<Rightarrow> let (vs, r') = fscanf ds r in (VChar x # vs, r'))"

section \<open>Printing numbers\<close>

fun print_nat :: "nat \<Rightarrow> byte list" where
  "print_nat n = (if n < 10 then [of_nat (48 + n)] else print_nat (n div 10) @ [of_nat (48 + n mod 10)])"

declare print_nat.simps [simp del]

definition print_int :: "int \<Rightarrow> byte list" where
  "print_int v = (if v < 0 then 45 # print_nat (nat (- v)) else print_nat (nat v))"

definition int_range :: "int \<Rightarrow> bool" where
  "int_range v \<longleftrightarrow> - (2 ^ 31) \<le> v \<and> v < 2 ^ 31"

lemma sint_in_range: "int_range v \<Longrightarrow> sint (word_of_int v :: 32 word) = v"
  by (simp add: int_range_def sint_sbintrunc' signed_take_bit_int_eq_self)

lemma store_int_id: "int_range v \<Longrightarrow> store_int v = v"
  by (simp add: int_range_def store_int_def sint_sbintrunc' signed_take_bit_int_eq_self)

lemma digit_char:
  assumes "n < 10"
  shows "isdigit (of_nat (48 + n))" and "uint (of_nat (48 + n) :: byte) = 48 + int n"
  using assms by (simp_all add: isdigit_def word_le_nat_alt unat_of_nat uint_nat del: of_nat_add)

lemma isdigit_print_nat: "\<forall>d \<in> set (print_nat n). isdigit d"
proof (induction n rule: print_nat.induct)
  case (1 n)
  then show ?case using digit_char(1) [of n] digit_char(1) [of "n mod 10"]
    by (subst print_nat.simps) (auto simp del: of_nat_add)
qed

lemma print_nat_nonempty: "print_nat n \<noteq> []"
  by (subst print_nat.simps) simp

lemma digits_val_snoc: "digits_val (ds @ [d]) = 10 * digits_val ds + (uint d - 48)"
  by (simp add: digits_val_def)

lemma digits_val_print: "digits_val (print_nat n) = int n"
proof (induction n rule: print_nat.induct)
  case (1 n)
  show ?case
  proof (cases "n < 10")
    case True
    then show ?thesis using digit_char(2) [of n] digits_val_snoc [of "[]"]
      by (subst print_nat.simps) (simp add: digits_val_def del: of_nat_add)
  next
    case False
    then have "digits_val (print_nat n) = 10 * int (n div 10) + int (n mod 10)"
      using 1 digit_char(2) [of "n mod 10"]
      by (subst print_nat.simps) (simp add: digits_val_snoc del: of_nat_add)
    then show ?thesis by presburger
  qed
qed

lemma span_append:
  assumes "\<forall>x \<in> set xs. P x" and "r = [] \<or> \<not> P (hd r)"
  shows "takeWhile P (xs @ r) = xs" and "dropWhile P (xs @ r) = r"
  using assms by (auto simp: takeWhile_append dropWhile_append takeWhile_eq_Nil_iff dropWhile_eq_self_iff)

lemma not_space_digit: "isdigit c \<Longrightarrow> \<not> isspace c" "isdigit c \<Longrightarrow> c \<noteq> 45" "isdigit c \<Longrightarrow> c \<noteq> 43"
  by (auto simp: isdigit_def isspace_def word_le_nat_alt)

lemma hd_print_nat: "isdigit (hd (print_nat n @ r))"
  using isdigit_print_nat [of n] print_nat_nonempty [of n] by (simp add: hd_append)

text \<open>Reading back a printed number that is followed by something else than a digit.\<close>

lemma scan_print_int:
  assumes "int_range v" and r: "r = [] \<or> \<not> isdigit (hd r)"
  shows "scan_int (print_int v @ r) = Some (v, r)"
proof (cases "v < 0")
  case True
  let ?p = "print_nat (nat (- v))"
  have "dropWhile isspace ((45 :: byte) # ?p @ r) = 45 # ?p @ r"
    by (simp add: isspace_def word_le_nat_alt)
  then show ?thesis
    using True assms span_append [OF isdigit_print_nat r] print_nat_nonempty digits_val_print
    by (simp add: scan_int_def print_int_def Let_def store_int_id)
next
  case False
  let ?p = "print_nat (nat v)"
  have h: "isdigit (hd (?p @ r))" "?p @ r \<noteq> []" using hd_print_nat print_nat_nonempty by simp_all
  then have "dropWhile isspace (?p @ r) = ?p @ r"
    by (simp add: dropWhile_eq_self_iff not_space_digit del: append_is_Nil_conv)
  then show ?thesis
    using False h not_space_digit [OF h(1)] assms span_append [OF isdigit_print_nat r]
      print_nat_nonempty digits_val_print
    by (simp add: scan_int_def print_int_def Let_def store_int_id)
qed

lemma not_digit_sep: "\<not> isdigit 44" "\<not> isdigit 10" "\<not> isdigit 32"
  by (simp_all add: isdigit_def word_le_nat_alt)

lemma isspace_consts [simp]: "isspace 32" "isspace 10" "\<not> isspace 44"
  by (simp_all add: isspace_def word_le_nat_alt)

text \<open>The line of two counts both file formats start their records with.\<close>

lemma scan_counts:
  assumes "int_range a" and "int_range b"
  shows "fscanf [DInt, DLit 44, DInt, DLit 44, DWs] (print_int a @ 44 # print_int b @ 44 # 10 # r) =
    ([VInt a, VInt b], dropWhile isspace r)"
  using scan_print_int [OF assms(1), of "44 # print_int b @ 44 # 10 # r"]
    scan_print_int [OF assms(2), of "44 # 10 # r"] by (simp add: not_digit_sep)

end
