(* ===== verification/Clusters.thy ===== *)
theory Clusters
  imports Scan
begin

text \<open>
  The map from web sites to trace clusters, \<open>hashmap.c\<close>: \<open>HMSIZE\<close> chained buckets indexed by
  \<open>default_hash\<close>, filled from a text file by \<open>hm_build\<close>. Its users rely on the locale
  \<open>first_wins_map\<close>: a lookup after an insert, where an insert never replaces a binding.
\<close>

section \<open>Data\<close>

abbreviation HMSIZE :: u32 where "HMSIZE \<equiv> 5000"
abbreviation MAXSTRLEN :: nat where "MAXSTRLEN \<equiv> 500"

record kvpair =
  kv_key :: "byte list"
  kv_value :: int

text \<open>The array of chains; the head of a list is the head of the chain.\<close>

type_synonym hashmap = "nat \<Rightarrow> kvpair list"

section \<open>Operations\<close>

text \<open>\<open>char\<close> is signed: a byte above 127 is added as a negative number.\<close>

definition hash_step :: "u32 \<Rightarrow> byte \<Rightarrow> u32" where
  "hash_step hash0 p =
     (let h1 = hash0 + scast p;
          h2 = h1 + push_bit 10 h1
      in h2 XOR drop_bit 6 h2)"

definition default_hash :: "byte list option \<Rightarrow> u32" where
  "default_hash key =
     (case key of None \<Rightarrow> 0
      | Some k \<Rightarrow>
         let h = foldl hash_step 0 (takeWhile (\<lambda>c. c \<noteq> 32 \<and> c \<noteq> 0) k);
             h = h + push_bit 3 h;
             h = h XOR drop_bit 11 h
         in h + push_bit 15 h)"

definition bucket_of :: "byte list \<Rightarrow> nat" where
  "bucket_of k = unat (default_hash (Some k) mod HMSIZE)"

fun chain_find :: "byte list \<Rightarrow> kvpair list \<Rightarrow> int" where
  "chain_find k [] = -1"
| "chain_find k (p # ps) = (if kv_key p = k then kv_value p else chain_find k ps)"

text \<open>The key is copied into \<open>tmpkey[257]\<close> up to a space; a longer one runs over the array.\<close>

definition hm_lookup :: "hashmap option \<Rightarrow> byte list option \<Rightarrow> int result" where
  "hm_lookup hm key =
     (case (hm, key) of
        (Some h, Some k) \<Rightarrow>
          (let tmpkey = takeWhile (\<lambda>c. c \<noteq> 32 \<and> c \<noteq> 0) k in
           if length tmpkey \<ge> 257 then Inl (MemFault ''hm_lookup: tmpkey'')
           else Inr (chain_find tmpkey (h (bucket_of tmpkey))))
      | _ \<Rightarrow> Inr (-1))"

text \<open>\<open>strncpy\<close> stores the key up to its NUL, with any space it has.\<close>

definition hm_insert :: "hashmap option \<Rightarrow> byte list \<Rightarrow> int \<Rightarrow> (int \<times> hashmap option) result" where
  "hm_insert hm key val =
     (case hm of None \<Rightarrow> Inr (-1, None)
      | Some h \<Rightarrow>
          rbind (hm_lookup hm (Some key)) (\<lambda>old.
            if old \<noteq> -1 then Inr (0, hm)
            else let tmp = \<lparr>kv_key = take MAXSTRLEN (takeWhile (\<lambda>c. c \<noteq> 0) key), kv_value = val\<rparr>;
                     bucket = bucket_of key
                 in Inr (0, Some (h(bucket := tmp # h bucket)))))"

definition hm_empty :: hashmap where
  "hm_empty = (\<lambda>_. [])"

text \<open>The lines of the file; a \<open>%s\<close> that does not fit \<open>url[MAXSTRLEN]\<close> runs over it.\<close>

fun hm_build_loop :: "nat \<Rightarrow> hashmap option \<Rightarrow> byte list \<Rightarrow> hashmap option result" where
  "hm_build_loop 0 ret fp = Inr ret"
| "hm_build_loop (Suc n) ret fp =
     (case fscanf [DStr, DWs, DInt, DLit 44, DWs] fp of
        (VStr url # vs, fp') \<Rightarrow>
          if length url \<ge> MAXSTRLEN then Inl (MemFault ''hm_build: url'')
          else (case vs of
                  [VInt clusterid] \<Rightarrow>
                    if clusterid \<le> 0 then Inr ret
                    else rbind (hm_insert ret url clusterid) (\<lambda>(rc, ret').
                           if rc < 0 then Inr ret' else hm_build_loop n ret' fp')
                | _ \<Rightarrow> Inr ret)
      | _ \<Rightarrow> Inr ret)"

definition hm_build :: "byte list option \<Rightarrow> int \<Rightarrow> (hashmap option \<times> int) result" where
  "hm_build file ccnt =
     (let ret = Some hm_empty in
      case file of None \<Rightarrow> Inr (ret, ccnt)
      | Some fp \<Rightarrow>
         (case fscanf [DInt, DLit 44, DInt, DLit 44, DWs] fp of
            ([VInt webcnt, VInt c], fp') \<Rightarrow>
              if webcnt < 0 \<or> c < 0 then Inr (ret, c)
              else rbind (hm_build_loop (nat webcnt) ret fp') (\<lambda>m. Inr (m, c))
          | _ \<Rightarrow> Inr (ret, ccnt)))"

definition hm_free :: "hashmap option option \<Rightarrow> hashmap option option" where
  "hm_free phm = (case phm of None \<Rightarrow> None | Some _ \<Rightarrow> Some None)"

section \<open>The contract\<close>

text \<open>
  A map whose inserts keep an existing binding: building it from a list of bindings gives
  the first binding of each key, and \<open>-1\<close> for a key without one.
\<close>

locale first_wins_map =
  fixes valid :: "'k \<Rightarrow> bool"
    and invar :: "'m \<Rightarrow> bool"
    and empty :: 'm
    and lookup :: "'m \<Rightarrow> 'k \<Rightarrow> int"
    and insert :: "'m \<Rightarrow> 'k \<Rightarrow> int \<Rightarrow> 'm"
  assumes empty_law: "invar empty" "lookup empty k = -1"
    and insert_inv: "invar m \<Longrightarrow> valid k \<Longrightarrow> 0 < v \<Longrightarrow> invar (insert m k v)"
    and lookup_insert: "invar m \<Longrightarrow> valid k \<Longrightarrow> valid k' \<Longrightarrow> 0 < v \<Longrightarrow>
      lookup (insert m k v) k' = (if k = k' \<and> lookup m k = -1 then v else lookup m k')"
begin

lemma insert_all_inv:
  "invar m \<Longrightarrow> \<forall>(k, v) \<in> set kvs. valid k \<and> 0 < v \<Longrightarrow> invar (fold (\<lambda>(k, v) m. insert m k v) kvs m)"
  by (induction kvs arbitrary: m) (auto intro: insert_inv)

lemma lookup_insert_all:
  assumes "invar m" and "\<forall>(k, v) \<in> set kvs. valid k \<and> 0 < v" and "valid k'"
  shows "lookup (fold (\<lambda>(k, v) m. insert m k v) kvs m) k' =
    (if lookup m k' = -1 then (case map_of kvs k' of None \<Rightarrow> -1 | Some v \<Rightarrow> v) else lookup m k')"
  using assms by (induction kvs arbitrary: m) (auto simp: insert_inv lookup_insert split: option.splits)

lemma lookup_built:
  assumes "\<forall>(k, v) \<in> set kvs. valid k \<and> 0 < v" and "valid k'"
  shows "lookup (fold (\<lambda>(k, v) m. insert m k v) kvs empty) k' =
    (case map_of kvs k' of None \<Rightarrow> -1 | Some v \<Rightarrow> v)"
  using lookup_insert_all [OF empty_law(1) assms] by (simp add: empty_law)

end

section \<open>The hash map implements it\<close>

text \<open>
  Keys that survive the copy into \<open>tmpkey\<close> unchanged: non-empty, at most 256 bytes, without
  white space and NUL.
\<close>

definition key_ok :: "byte list \<Rightarrow> bool" where
  "key_ok k \<longleftrightarrow> k \<noteq> [] \<and> length k \<le> 256 \<and> (\<forall>c \<in> set k. \<not> isspace c \<and> c \<noteq> 0)"

definition hm_find :: "hashmap \<Rightarrow> byte list \<Rightarrow> int" where
  "hm_find h k = chain_find k (h (bucket_of k))"

definition hm_add :: "hashmap \<Rightarrow> byte list \<Rightarrow> int \<Rightarrow> hashmap" where
  "hm_add h k v = (if hm_find h k \<noteq> -1 then h
     else h(bucket_of k := \<lparr>kv_key = k, kv_value = v\<rparr> # h (bucket_of k)))"

lemma key_takeWhile:
  assumes "key_ok k"
  shows "takeWhile (\<lambda>c. c \<noteq> 32 \<and> c \<noteq> 0) k = k" and "takeWhile (\<lambda>c. c \<noteq> 0) k = k"
  using assms by (auto simp: key_ok_def isspace_def takeWhile_eq_all_conv)

lemma hm_lookup_find: "key_ok k \<Longrightarrow> hm_lookup (Some h) (Some k) = Inr (hm_find h k)"
  by (simp add: hm_lookup_def key_takeWhile hm_find_def) (simp add: key_ok_def)

lemma hm_insert_add: "key_ok k \<Longrightarrow> hm_insert (Some h) k v = Inr (0, Some (hm_add h k v))"
  by (simp add: hm_insert_def hm_lookup_find key_takeWhile hm_add_def Let_def) (simp add: key_ok_def)

lemma hm_find_add: "hm_find (hm_add h k v) k' = (if k = k' \<and> hm_find h k = -1 then v else hm_find h k')"
proof (cases "hm_find h k = -1")
  case True
  then have "hm_add h k v = h(bucket_of k := \<lparr>kv_key = k, kv_value = v\<rparr> # h (bucket_of k))"
    by (simp add: hm_add_def)
  then show ?thesis using True by (cases "bucket_of k = bucket_of k'") (auto simp: hm_find_def)
qed (simp add: hm_add_def)

interpretation cm: first_wins_map key_ok "\<lambda>_. True" hm_empty hm_find hm_add
proof unfold_locales
  show "hm_find hm_empty k = -1" for k by (simp add: hm_find_def hm_empty_def)
qed (simp_all only: hm_find_add TrueI)

section \<open>Loading a file\<close>

text \<open>What a writer of the cluster file prints: the counts, then one line per site.\<close>

definition print_site :: "byte list \<times> int \<Rightarrow> byte list" where
  "print_site kv = fst kv @ [32] @ print_int (snd kv) @ [44, 10]"

definition print_clusters :: "int \<Rightarrow> (byte list \<times> int) list \<Rightarrow> byte list" where
  "print_clusters ccnt kvs =
     print_int (int (length kvs)) @ [44] @ print_int ccnt @ [44, 10] @ concat (map print_site kvs)"

definition site_ok :: "byte list \<times> int \<Rightarrow> bool" where
  "site_ok kv \<longleftrightarrow> key_ok (fst kv) \<and> 0 < snd kv \<and> int_range (snd kv)"

lemma site_start:
  assumes "list_all site_ok kvs"
  shows "dropWhile isspace (concat (map print_site kvs)) = concat (map print_site kvs)"
proof (cases kvs)
  case (Cons kv r)
  then have "\<not> isspace (hd (fst kv))" "fst kv \<noteq> []" using assms by (auto simp: site_ok_def key_ok_def)
  then show ?thesis using Cons by (cases "fst kv") (auto simp: print_site_def)
qed simp

lemma scan_site:
  assumes "site_ok kv" and "list_all site_ok kvs"
  shows "fscanf [DStr, DWs, DInt, DLit 44, DWs] (print_site kv @ concat (map print_site kvs)) =
    ([VStr (fst kv), VInt (snd kv)], concat (map print_site kvs))"
proof -
  let ?r = "concat (map print_site kvs)"
  let ?num = "print_int (snd kv) @ 44 # 10 # ?r"
  have k: "\<forall>c \<in> set (fst kv). \<not> isspace c" "fst kv \<noteq> []"
    using assms(1) by (auto simp: site_ok_def key_ok_def)
  have ws: "dropWhile isspace (fst kv @ 32 # ?num) = fst kv @ 32 # ?num"
    using k by (cases "fst kv") auto
  have sp: "takeWhile (\<lambda>c. \<not> isspace c) (fst kv @ 32 # ?num) = fst kv"
    "dropWhile (\<lambda>c. \<not> isspace c) (fst kv @ 32 # ?num) = 32 # ?num"
    using span_append [OF k(1), of "32 # ?num"] by simp_all
  have "isdigit (hd ?num)" "?num \<noteq> []"
    using assms(1) hd_print_nat by (auto simp: site_ok_def print_int_def)
  then have "dropWhile isspace ?num = ?num"
    by (simp add: dropWhile_eq_self_iff not_space_digit)
  moreover have "int_range (snd kv)" using assms(1) by (simp add: site_ok_def)
  ultimately show ?thesis
    using ws sp k(2) site_start [OF assms(2)] by (simp add: print_site_def scan_print_int not_digit_sep)
qed

lemma build_loop:
  assumes "list_all site_ok kvs"
  shows "hm_build_loop (length kvs) (Some h) (concat (map print_site kvs)) =
    Inr (Some (fold (\<lambda>(k, v) m. hm_add m k v) kvs h))"
  using assms
proof (induction kvs arbitrary: h)
  case (Cons kv kvs)
  then have "key_ok (fst kv)" "0 < snd kv" by (auto simp: site_ok_def)
  with Cons scan_site [of kv kvs] show ?case
    by (simp add: hm_insert_add split_beta) (simp add: key_ok_def)
qed simp

lemma lookup_to_space: "key_ok k \<Longrightarrow> hm_lookup hm (Some (k @ 32 # r)) = hm_lookup hm (Some k)"
proof -
  assume k: "key_ok k"
  then have "\<forall>c \<in> set k. c \<noteq> 32 \<and> c \<noteq> 0" by (auto simp: key_ok_def)
  then have "takeWhile (\<lambda>c. c \<noteq> 32 \<and> c \<noteq> 0) (k @ 32 # r) = k"
    using span_append(1) [of k "\<lambda>c. c \<noteq> 32 \<and> c \<noteq> 0" "32 # r"] by simp
  then show ?thesis by (simp add: hm_lookup_def key_takeWhile [OF k] split: option.splits)
qed

lemma cluster_lookup:
  assumes "list_all site_ok kvs" and "int_range (int (length kvs))"
    and "0 \<le> ccnt" and "int_range ccnt" and "key_ok k"
  shows "\<exists>m. hm_build (Some (print_clusters ccnt kvs)) old = Inr (m, ccnt) \<and>
    hm_lookup m (Some (k @ 32 # rest)) = Inr (case map_of kvs k of None \<Rightarrow> -1 | Some v \<Rightarrow> v)"
proof -
  let ?m = "fold (\<lambda>(k, v) m. hm_add m k v) kvs hm_empty"
  have "\<forall>(k, v) \<in> set kvs. key_ok k \<and> 0 < v"
    using assms(1) by (auto simp: list_all_iff site_ok_def)
  from cm.lookup_built [OF this assms(5)]
  have "hm_lookup (Some ?m) (Some (k @ 32 # rest)) = Inr (case map_of kvs k of None \<Rightarrow> -1 | Some v \<Rightarrow> v)"
    by (simp add: lookup_to_space assms(5) hm_lookup_find)
  moreover have "hm_build (Some (print_clusters ccnt kvs)) old = Inr (Some ?m, ccnt)"
    using scan_counts [OF assms(2,4)] build_loop [OF assms(1)] site_start [OF assms(1)] assms(3)
    by (simp add: hm_build_def print_clusters_def)
  ultimately show ?thesis by blast
qed

section \<open>Properties\<close>



text \<open>C40: A key that contains a space is lost: \<open>hm_insert\<close> stores it with the space while every
  lookup cuts its key there, so an insert of such a key reports success and the lookup of
  the same key still answers that there is no binding.\<close>

theorem key_with_space_is_lost:
  assumes "key_ok k" and "length r < 200" and "0 \<notin> set r"
    and "hm_lookup (Some h) (Some (k @ 32 # r)) = Inr (-1)"
  shows "\<exists>h'. hm_insert (Some h) (k @ 32 # r) v = Inr (0, Some h') \<and>
    hm_lookup (Some h') (Some (k @ 32 # r)) = Inr (-1)"
proof -
  let ?key = "k @ 32 # r"
  let ?p = "\<lparr>kv_key = ?key, kv_value = v\<rparr>"
  let ?h = "h(bucket_of ?key := ?p # h (bucket_of ?key))"
  have nz: "takeWhile (\<lambda>c. c \<noteq> 0) ?key = ?key"
    using assms(1,3) by (auto simp: key_ok_def takeWhile_eq_all_conv)
  have fit: "length ?key \<le> MAXSTRLEN" using assms(1,2) by (simp add: key_ok_def)
  have "hm_insert (Some h) ?key v = Inr (0, Some ?h)"
    using assms(4) take_all [OF fit] unfolding hm_insert_def nz by (simp add: Let_def)
  moreover have "hm_find h k = -1"
    using assms(1,4) by (simp add: lookup_to_space hm_lookup_find)
  then have "hm_find ?h k = -1"
    by (cases "bucket_of ?key = bucket_of k") (auto simp: hm_find_def)
  then have "hm_lookup (Some ?h) (Some ?key) = Inr (-1)"
    using assms(1) by (simp add: lookup_to_space hm_lookup_find)
  ultimately show ?thesis by blast
qed

theorem key_with_space_is_lost_witness:
  "\<exists>h'. hm_insert (Some hm_empty) [97, 32, 98] 1 = Inr (0, Some h') \<and>
    hm_lookup (Some h') (Some [97, 32, 98]) = Inr (-1)"
proof -
  have k: "key_ok [97]" by (simp add: key_ok_def isspace_def word_le_nat_alt)
  have "hm_lookup (Some hm_empty) (Some ([97] @ 32 # [98])) = Inr (-1)"
    by (simp only: lookup_to_space [OF k] hm_lookup_find [OF k]) (simp add: hm_find_def hm_empty_def)
  from key_with_space_is_lost [OF k _ _ this, of 1] show ?thesis by simp
qed

end
