(* ===== verification/Supertrace.thy ===== *)
theory Supertrace
  imports Scan
begin

text \<open>
  The super traces of \<open>load_st.c\<close>: for each cluster a list of packets with signed sizes
  (positive ones from server to client), times and stop probabilities. \<open>load_st\<close> reads them,
  \<open>change_to_relative_time\<close> makes the times relative and merges bursts, \<open>split\<close> turns times
  into delays per direction and computes how much data each burst waits for.

  C's \<open>int\<close>s are mathematical integers here, wherever the code leaves overflow undefined;
  conversions to and from \<open>unsigned long long\<close> are written out.
\<close>

section \<open>Data\<close>

record stpair =
  st_size :: int
  st_time :: int
  st_sprob :: u32
  st_expected :: u64

record st =
  st_clusterid :: int
  st_tracelen :: nat
  st_pairs :: "stpair list"

text \<open>The array of pointers \<open>straces\<close>; \<open>None\<close> is an element no line of the file has set.\<close>

type_synonym straces = "st option list"

section \<open>Reading the file\<close>

text \<open>One row of \<open>n\<close> numbers; the flag says whether all of them were there.\<close>

fun read_row :: "(int \<Rightarrow> stpair \<Rightarrow> stpair) \<Rightarrow> nat \<Rightarrow> nat \<Rightarrow> stpair list \<Rightarrow> byte list \<Rightarrow>
    bool \<times> stpair list \<times> byte list" where
  "read_row store 0 j ps fp = (True, ps, fp)"
| "read_row store (Suc n) j ps fp =
     (case fscanf [DInt, DLit 44] fp of
        ([VInt cur_val], fp') \<Rightarrow> read_row store n (Suc j) (ps[j := store cur_val (ps ! j)]) fp'
      | (_, fp') \<Rightarrow> (False, ps, fp'))"

definition store_size :: "int \<Rightarrow> stpair \<Rightarrow> stpair" where
  "store_size v p = p\<lparr>st_size := v\<rparr>"

definition store_time :: "int \<Rightarrow> stpair \<Rightarrow> stpair" where
  "store_time v p = p\<lparr>st_time := v, st_expected := 0\<rparr>"

definition store_prob :: "int \<Rightarrow> stpair \<Rightarrow> stpair" where
  "store_prob v p = p\<lparr>st_sprob := word_of_int v\<rparr>"

text \<open>\<open>fscanf(fst, "%c", ...)\<close>, whose result is not checked.\<close>

definition skip_char :: "byte list \<Rightarrow> byte list" where
  "skip_char fp = snd (fscanf [DChar] fp)"

text \<open>The three rows of a trace; \<open>junk\<close> is what \<open>malloc\<close> leaves in a fresh element.\<close>

definition read_pairs :: "stpair \<Rightarrow> nat \<Rightarrow> byte list \<Rightarrow> bool \<times> stpair list \<times> byte list" where
  "read_pairs junk stsize fp =
     (let (ok1, ps1, fp1) = read_row store_size stsize 0 (replicate stsize junk) fp in
      if \<not> ok1 then (False, ps1, fp1)
      else let (ok2, ps2, fp2) = read_row store_time stsize 0 ps1 (skip_char fp1) in
      if \<not> ok2 then (False, ps2, fp2)
      else let (ok3, ps3, fp3) = read_row store_prob stsize 0 ps2 (skip_char fp2) in
      if \<not> ok3 then (False, ps3, fp3) else (True, ps3, skip_char fp3))"

fun load_loop :: "stpair \<Rightarrow> nat \<Rightarrow> straces \<Rightarrow> byte list \<Rightarrow> straces result" where
  "load_loop junk 0 ss fp = Inr ss"
| "load_loop junk (Suc n) ss fp =
     (case fscanf [DInt, DLit 44, DInt, DLit 44, DWs] fp of
        ([VInt clusterid, VInt stsize], fp1) \<Rightarrow>
          if clusterid \<le> 0 \<or> stsize < 0 then Inr ss
          else if nat clusterid \<ge> length ss then Inl (MemFault ''load_st: straces[clusterid]'')
          else let (ok, ps, fp2) = read_pairs junk (nat stsize) fp1;
                   ss' = ss[nat clusterid := Some \<lparr>st_clusterid = clusterid,
                            st_tracelen = nat stsize, st_pairs = ps\<rparr>]
               in if ok then load_loop junk n ss' fp2 else Inr ss'
      | _ \<Rightarrow> Inr ss)"

definition load_st :: "stpair \<Rightarrow> byte list option \<Rightarrow> int \<Rightarrow> straces option result" where
  "load_st junk file ccnt =
     (case file of None \<Rightarrow> Inr None
      | Some fp \<Rightarrow> rbind (load_loop junk (nat ccnt) (replicate (nat (ccnt + 1)) None) fp)
                     (\<lambda>ss. Inr (Some ss)))"

section \<open>Merging bursts\<close>

definition merge_into :: "nat \<Rightarrow> nat \<Rightarrow> stpair list \<Rightarrow> stpair list" where
  "merge_into s e trace =
     (let ps = trace[s := (trace ! s)\<lparr>st_size := st_size (trace ! s) + st_size (trace ! e),
                 st_time := st_time (trace ! e), st_sprob := st_sprob (trace ! e)\<rparr>]
      in ps[e := (ps ! e)\<lparr>st_size := 0, st_time := 0, st_sprob := 0\<rparr>])"

text \<open>\<open>trace[e].time - stime\<close> is an \<open>unsigned long long\<close>: a packet before \<open>stime\<close> is far away.\<close>

definition burst_ends :: "stpair \<Rightarrow> u64 \<Rightarrow> int \<Rightarrow> bool" where
  "burst_ends p stime ssize \<longleftrightarrow>
     st_size p < 0 \<and> ssize > 0 \<or> st_size p > 0 \<and> ssize < 0 \<or>
     word_of_int (st_time p) - stime \<ge> 200000"

function refresh_inner :: "stpair list \<Rightarrow> nat \<Rightarrow> nat \<Rightarrow> nat \<Rightarrow> u64 \<Rightarrow> int \<Rightarrow> nat \<times> stpair list" where
  "refresh_inner trace len s e stime ssize =
     (if e < len \<and> \<not> burst_ends (trace ! e) stime ssize
      then refresh_inner (merge_into s e trace) len s (Suc e) stime ssize
      else (e, trace))"
  by pat_completeness auto
termination by (relation "measure (\<lambda>(trace, len, s, e, stime, ssize). len - e)") auto

declare refresh_inner.simps [simp del]

lemma refresh_inner_ge: "e \<le> fst (refresh_inner trace len s e stime ssize)"
proof (induction trace len s e stime ssize rule: refresh_inner.induct)
  case (1 trace len s e stime ssize)
  show ?case
  proof (cases "e < len \<and> \<not> burst_ends (trace ! e) stime ssize")
    case True
    from 1 [OF True] True show ?thesis by (subst refresh_inner.simps) simp
  next
    case False
    then show ?thesis by (subst refresh_inner.simps) auto
  qed
qed

function refresh_outer :: "stpair list \<Rightarrow> nat \<Rightarrow> nat \<Rightarrow> stpair list" where
  "refresh_outer trace len e =
     (if e < len
      then let (e', trace') = refresh_inner trace len e (Suc e)
                 (word_of_int (st_time (trace ! e))) (st_size (trace ! e))
           in refresh_outer trace' len e'
      else trace)"
  by pat_completeness auto
termination
proof (relation "measure (\<lambda>(trace, len, e). len - e)")
  fix trace :: "stpair list" and len e e' :: nat and x trace'
  assume "e < len" and x: "x = refresh_inner trace len e (Suc e) (word_of_int (st_time (trace ! e)))
      (st_size (trace ! e))" and p: "(e', trace') = x"
  then have "Suc e \<le> e'" using refresh_inner_ge [of "Suc e"] by (metis fst_conv)
  with \<open>e < len\<close> show "((trace', len, e'), trace, len, e) \<in> measure (\<lambda>(trace, len, e). len - e)" by auto
qed simp

declare refresh_outer.simps [simp del]

definition refresh_trace :: "stpair list \<Rightarrow> nat \<Rightarrow> stpair list" where
  "refresh_trace trace len = refresh_outer trace len 0"

section \<open>Relative times\<close>

fun rel_loop :: "nat \<Rightarrow> stpair list \<Rightarrow> stpair list" where
  "rel_loop 0 ps = ps"
| "rel_loop (Suc j) ps = rel_loop j (ps[j := (ps ! j)\<lparr>st_time := st_time (ps ! j) - st_time (ps ! 0)\<rparr>])"

definition rel_trace :: "st \<Rightarrow> st" where
  "rel_trace s = s\<lparr>st_pairs := refresh_trace (rel_loop (st_tracelen s) (st_pairs s)) (st_tracelen s)\<rparr>"

text \<open>A loop over \<open>straces[1..total_clusters]\<close>; an element that was never set is a wild pointer.\<close>

fun change_loop :: "nat list \<Rightarrow> straces \<Rightarrow> straces result" where
  "change_loop [] ss = Inr ss"
| "change_loop (i # is) ss =
     (if i < length ss then
        (case ss ! i of None \<Rightarrow> Inl (MemFault ''change_to_relative_time: straces[i]'')
         | Some s \<Rightarrow> change_loop is (ss[i := Some (rel_trace s)]))
      else Inl (MemFault ''change_to_relative_time: straces[i]''))"

definition change_to_relative_time :: "straces option \<Rightarrow> int \<Rightarrow> straces option result" where
  "change_to_relative_time straces n =
     (case straces of
        None \<Rightarrow> if n \<ge> 1 then Inl (MemFault ''change_to_relative_time: straces'') else Inr None
      | Some ss \<Rightarrow> rbind (change_loop [1..<Suc (nat n)] ss) (\<lambda>ss'. Inr (Some ss')))"

section \<open>Delays and expected data\<close>

text \<open>The variables of one round of \<open>split\<close>; an index of -1 is \<open>None\<close>.\<close>

record split_st =
  sp_pairs :: "stpair list"
  sp_pos :: "nat option"
  sp_neg :: "nat option"
  sp_pre :: "nat option"
  sp_sum :: u64

definition set_gap :: "nat option \<Rightarrow> int \<Rightarrow> stpair list \<Rightarrow> stpair list" where
  "set_gap idx curtime ps =
     (case idx of None \<Rightarrow> ps | Some p \<Rightarrow> ps[p := (ps ! p)\<lparr>st_time := curtime - st_time (ps ! p)\<rparr>])"

definition split_step :: "nat \<Rightarrow> split_st \<Rightarrow> split_st" where
  "split_step j v =
     (let curtime = st_time (sp_pairs v ! j);
          cursize = st_size (sp_pairs v ! j)
      in if cursize > 0 then
           let ps = set_gap (sp_pos v) curtime (sp_pairs v);
               change = (case sp_pre v of None \<Rightarrow> False | Some k \<Rightarrow> st_size (ps ! k) < 0)
           in v\<lparr>sp_pairs := (if change then ps[j := (ps ! j)\<lparr>st_expected := sp_sum v\<rparr>] else ps),
                sp_pos := Some j,
                sp_sum := (if change then word_of_int cursize else sp_sum v + word_of_int cursize),
                sp_pre := Some j\<rparr>
         else if cursize < 0 then
           let ps = set_gap (sp_neg v) curtime (sp_pairs v);
               change = (case sp_pre v of None \<Rightarrow> False | Some k \<Rightarrow> st_size (ps ! k) > 0)
           in v\<lparr>sp_pairs := (if change then ps[j := (ps ! j)\<lparr>st_expected := sp_sum v\<rparr>] else ps),
                sp_neg := Some j,
                sp_sum := (if change then word_of_int (0 - cursize) else sp_sum v - word_of_int cursize),
                sp_pre := Some j\<rparr>
         else v)"

definition split_loop :: "stpair list \<Rightarrow> nat \<Rightarrow> split_st" where
  "split_loop ps n = fold split_step [0..<n]
     \<lparr>sp_pairs = ps, sp_pos = None, sp_neg = None, sp_pre = None, sp_sum = 0\<rparr>"

fun last_valid :: "nat \<Rightarrow> stpair list \<Rightarrow> u64 \<Rightarrow> u64" where
  "last_valid 0 ps lv = lv"
| "last_valid (Suc k) ps lv = (if st_time (ps ! k) > 0 then word_of_int (st_time (ps ! k)) else last_valid k ps lv)"

text \<open>The store of an \<open>unsigned long long\<close> into an \<open>int\<close>.\<close>

definition trunc_int :: "u64 \<Rightarrow> int" where
  "trunc_int x = sint (ucast x :: 32 word)"

definition close_gap :: "nat option \<Rightarrow> u64 \<Rightarrow> stpair list \<Rightarrow> stpair list result" where
  "close_gap idx lv ps =
     (case idx of None \<Rightarrow> Inl (MemFault ''split: pairs[-1]'')
      | Some p \<Rightarrow> Inr (ps[p := (ps ! p)\<lparr>st_time := trunc_int (lv - word_of_int (st_time (ps ! p)))\<rparr>]))"

definition split_trace :: "st \<Rightarrow> u64 \<Rightarrow> (st \<times> u64) result" where
  "split_trace s prev =
     (let v = split_loop (st_pairs s) (st_tracelen s);
          lv = last_valid (st_tracelen s) (sp_pairs v) prev
      in rbind (close_gap (sp_pos v) lv (sp_pairs v)) (\<lambda>ps1.
         rbind (close_gap (sp_neg v) lv ps1) (\<lambda>ps2. Inr (s\<lparr>st_pairs := ps2\<rparr>, lv))))"

text \<open>\<open>last_valid_time\<close> keeps its value from one cluster to the next.\<close>

fun split_clusters :: "nat list \<Rightarrow> straces \<Rightarrow> u64 \<Rightarrow> straces result" where
  "split_clusters [] ss lv = Inr ss"
| "split_clusters (i # is) ss lv =
     (if i < length ss then
        (case ss ! i of None \<Rightarrow> Inl (MemFault ''split: straces[i]'')
         | Some s \<Rightarrow> rbind (split_trace s lv) (\<lambda>(s', lv'). split_clusters is (ss[i := Some s']) lv'))
      else Inl (MemFault ''split: straces[i]''))"

definition split :: "straces option \<Rightarrow> int \<Rightarrow> straces option result" where
  "split straces n =
     (case straces of
        None \<Rightarrow> if n \<ge> 1 then Inl (MemFault ''split: straces'') else Inr None
      | Some ss \<Rightarrow> rbind (split_clusters [1..<Suc (nat n)] ss 0) (\<lambda>ss'. Inr (Some ss')))"

section \<open>Merging keeps the bytes of each direction\<close>

definition up_bytes :: "stpair list \<Rightarrow> int" where
  "up_bytes ps = (\<Sum>p\<leftarrow>ps. max 0 (- st_size p))"

definition down_bytes :: "stpair list \<Rightarrow> int" where
  "down_bytes ps = (\<Sum>p\<leftarrow>ps. max 0 (st_size p))"

lemma sum_list_upd:
  fixes f :: "'a \<Rightarrow> 'b :: ab_group_add"
  shows "k < length xs \<Longrightarrow> (\<Sum>x\<leftarrow>xs[k := y]. f x) = (\<Sum>x\<leftarrow>xs. f x) + f y - f (xs ! k)"
  by (induction xs arbitrary: k) (auto split: nat.splits)

lemma length_merge [simp]: "length (merge_into s e ps) = length ps"
  by (simp add: merge_into_def Let_def)

lemma merge_nth:
  assumes "s < e" and "e < length ps"
  shows "st_size (merge_into s e ps ! s) = st_size (ps ! s) + st_size (ps ! e)"
    and "i \<noteq> s \<Longrightarrow> i \<noteq> e \<Longrightarrow> merge_into s e ps ! i = ps ! i"
  using assms by (simp_all add: merge_into_def Let_def)

lemma merge_bytes:
  assumes "s < e" and "e < length ps" and "0 \<le> st_size (ps ! s) * st_size (ps ! e)"
  shows "up_bytes (merge_into s e ps) = up_bytes ps"
    and "down_bytes (merge_into s e ps) = down_bytes ps"
  using assms(3) by (auto simp: up_bytes_def down_bytes_def merge_into_def Let_def sum_list_upd assms(1,2)
    less_trans [OF assms(1,2)] less_imp_neq [OF assms(1)] zero_le_mult_iff)

text \<open>Inside a burst every packet that is merged has the sign of the first.\<close>

lemma refresh_inner_bytes:
  assumes "s < e" and "len \<le> length ps" and "\<forall>i. e \<le> i \<and> i < len \<longrightarrow> st_size (ps ! i) \<noteq> 0"
    and "sgn (st_size (ps ! s)) = sgn ssize" and "ssize \<noteq> 0"
    and "refresh_inner ps len s e stime ssize = (e', ps')"
  shows "length ps' = length ps \<and> up_bytes ps' = up_bytes ps \<and> down_bytes ps' = down_bytes ps \<and>
    (\<forall>i. e' \<le> i \<and> i < len \<longrightarrow> ps' ! i = ps ! i)"
  using assms
proof (induction ps len s e stime ssize rule: refresh_inner.induct)
  case (1 ps len s e stime ssize)
  show ?case
  proof (cases "e < len \<and> \<not> burst_ends (ps ! e) stime ssize")
    case True
    let ?m = "merge_into s e ps"
    have el: "e < length ps" using True "1.prems"(2) by simp
    have ne: "st_size (ps ! e) \<noteq> 0" using True "1.prems"(3) by simp
    then have same: "0 < st_size (ps ! s) * st_size (ps ! e)" "sgn (st_size (ps ! e)) = sgn ssize"
      using True "1.prems"(4,5) by (auto simp: burst_ends_def zero_less_mult_iff sgn_if split: if_splits)
    have sg: "sgn (st_size (?m ! s)) = sgn ssize"
      using same "1.prems"(4,5) by (simp add: merge_nth [OF "1.prems"(1) el])
        (auto simp: sgn_if zero_less_mult_iff split: if_splits)
    have rec: "refresh_inner ?m len s (Suc e) stime ssize = (e', ps')"
      using "1.prems"(6) True by (subst (asm) refresh_inner.simps) simp
    have nz: "\<forall>i. Suc e \<le> i \<and> i < len \<longrightarrow> st_size (?m ! i) \<noteq> 0"
      using "1.prems"(1,3) merge_nth(2) [OF "1.prems"(1) el] by auto
    have "Suc e \<le> e'" using refresh_inner_ge [of "Suc e"] rec by (metis fst_conv)
    then show ?thesis
      using "1.IH" [OF True _ _ nz sg "1.prems"(5) rec] "1.prems"(1,2)
        merge_bytes [OF "1.prems"(1) el] same(1) merge_nth(2) [OF "1.prems"(1) el] by auto
  next
    case False
    then show ?thesis using "1.prems"(6) by (subst (asm) refresh_inner.simps) auto
  qed
qed

lemma refresh_outer_bytes:
  assumes "len \<le> length ps" and "\<forall>i. e \<le> i \<and> i < len \<longrightarrow> st_size (ps ! i) \<noteq> 0"
  shows "length (refresh_outer ps len e) = length ps \<and> up_bytes (refresh_outer ps len e) = up_bytes ps \<and>
    down_bytes (refresh_outer ps len e) = down_bytes ps"
  using assms
proof (induction ps len e rule: refresh_outer.induct)
  case (1 ps len e)
  show ?case
  proof (cases "e < len")
    case True
    obtain e' ps' where r: "refresh_inner ps len e (Suc e) (word_of_int (st_time (ps ! e))) (st_size (ps ! e)) = (e', ps')"
      by fastforce
    have i: "length ps' = length ps \<and> up_bytes ps' = up_bytes ps \<and> down_bytes ps' = down_bytes ps \<and>
        (\<forall>i. e' \<le> i \<and> i < len \<longrightarrow> ps' ! i = ps ! i)"
      using refresh_inner_bytes [OF _ "1.prems"(1) _ _ _ r] "1.prems"(2) True by simp
    have "Suc e \<le> e'" using refresh_inner_ge [of "Suc e"] r by (metis fst_conv)
    then have "\<forall>i. e' \<le> i \<and> i < len \<longrightarrow> st_size (ps' ! i) \<noteq> 0" using i "1.prems"(2) by simp
    from "1.IH" [OF True r [symmetric] refl _ this] i "1.prems"(1) show ?thesis
      using True r by (subst (1 2 3) refresh_outer.simps) simp
  qed (simp add: refresh_outer.simps)
qed

section \<open>Relative times\<close>

lemma rel_loop_length [simp]: "length (rel_loop n ps) = length ps"
  by (induction n arbitrary: ps) simp_all

lemma rel_loop_nth:
  assumes "n \<le> length ps" and "i < length ps"
  shows "rel_loop n ps ! i =
    (if i < n then (ps ! i)\<lparr>st_time := st_time (ps ! i) - st_time (ps ! 0)\<rparr> else ps ! i)"
  using assms
proof (induction n arbitrary: ps)
  case (Suc n)
  let ?q = "ps[n := (ps ! n)\<lparr>st_time := st_time (ps ! n) - st_time (ps ! 0)\<rparr>]"
  have "n \<le> length ?q" "i < length ?q" using Suc.prems by simp_all
  from Suc.IH [OF this] show ?case
    using Suc.prems by (cases n) (auto simp: nth_list_update less_Suc_eq)
qed simp

lemma rel_loop_size: "n \<le> length ps \<Longrightarrow> i < length ps \<Longrightarrow> st_size (rel_loop n ps ! i) = st_size (ps ! i)"
  by (simp add: rel_loop_nth)

lemma rel_loop_bytes:
  assumes "n \<le> length ps"
  shows "up_bytes (rel_loop n ps) = up_bytes ps" and "down_bytes (rel_loop n ps) = down_bytes ps"
proof -
  have "map st_size (rel_loop n ps) = map st_size ps"
    using assms by (intro nth_equalityI) (simp_all add: rel_loop_size)
  then have "map (\<lambda>x. max 0 x) (map st_size (rel_loop n ps)) = map (\<lambda>x. max 0 x) (map st_size ps)"
    "map (\<lambda>x. max 0 (- x)) (map st_size (rel_loop n ps)) = map (\<lambda>x. max 0 (- x)) (map st_size ps)"
    by simp_all
  then show "up_bytes (rel_loop n ps) = up_bytes ps" "down_bytes (rel_loop n ps) = down_bytes ps"
    unfolding up_bytes_def down_bytes_def by (simp_all add: comp_def)
qed

text \<open>A trace as it comes from the file: as many packets as announced, none of size 0.\<close>

definition trace_ok :: "st \<Rightarrow> bool" where
  "trace_ok s \<longleftrightarrow> st_tracelen s = length (st_pairs s) \<and> list_all (\<lambda>p. st_size p \<noteq> 0) (st_pairs s)"

lemma rel_trace_bytes:
  assumes "trace_ok s"
  shows "length (st_pairs (rel_trace s)) = st_tracelen s \<and> up_bytes (st_pairs (rel_trace s)) = up_bytes (st_pairs s) \<and>
    down_bytes (st_pairs (rel_trace s)) = down_bytes (st_pairs s)"
proof -
  let ?r = "rel_loop (length (st_pairs s)) (st_pairs s)"
  have "\<forall>i. 0 \<le> i \<and> i < length (st_pairs s) \<longrightarrow> st_size (?r ! i) \<noteq> 0"
    using assms by (auto simp: trace_ok_def rel_loop_size list_all_length)
  from refresh_outer_bytes [OF _ this] show ?thesis
    using assms by (simp add: rel_trace_def trace_ok_def refresh_trace_def rel_loop_bytes)
qed

section \<open>The delays and the expected data\<close>

text \<open>The times of the packets of one direction; \<open>dir\<close> is 1 or -1.\<close>

definition dir_times :: "int \<Rightarrow> stpair list \<Rightarrow> int" where
  "dir_times dir ps = (\<Sum>p\<leftarrow>ps. if sgn (st_size p) = dir then st_time p else 0)"

definition total_bytes :: "stpair list \<Rightarrow> int" where
  "total_bytes ps = (\<Sum>p\<leftarrow>ps. \<bar>st_size p\<bar>)"

definition first_time :: "int \<Rightarrow> stpair list \<Rightarrow> int" where
  "first_time dir ps = st_time (hd (filter (\<lambda>p. sgn (st_size p) = dir) ps))"

definition sp_dir :: "int \<Rightarrow> split_st \<Rightarrow> nat option" where
  "sp_dir dir v = (if dir = 1 then sp_pos v else sp_neg v)"

text \<open>The state after the first \<open>n\<close> rounds of \<open>split\<close> on the packets \<open>ps\<close>.\<close>

definition split_inv :: "stpair list \<Rightarrow> nat \<Rightarrow> split_st \<Rightarrow> bool" where
  "split_inv ps n v \<longleftrightarrow> length (sp_pairs v) = length ps \<and>
     map st_size (sp_pairs v) = map st_size ps \<and> map st_sprob (sp_pairs v) = map st_sprob ps \<and>
     drop n (sp_pairs v) = drop n ps \<and>
     (\<forall>k. sp_pre v = Some k \<longrightarrow> k < n) \<and>
     (\<forall>dir \<in> {1, -1}. \<forall>p. sp_dir dir v = Some p \<longrightarrow> p < n \<and> sgn (st_size (ps ! p)) = dir)"

definition split_dir_inv :: "int \<Rightarrow> stpair list \<Rightarrow> nat \<Rightarrow> split_st \<Rightarrow> bool" where
  "split_dir_inv dir ps n v \<longleftrightarrow>
     (case sp_dir dir v of
        None \<Rightarrow> \<forall>i < n. sgn (st_size (ps ! i)) \<noteq> dir
      | Some p \<Rightarrow> p < n \<and> sgn (st_size (ps ! p)) = dir \<and> st_time (sp_pairs v ! p) = st_time (ps ! p) \<and>
          dir_times dir (take n (sp_pairs v)) = 2 * st_time (ps ! p) - first_time dir (take n ps))"

lemma upd_same_map: "f y = f (xs ! j) \<Longrightarrow> map f (xs[j := y]) = map f xs"
  by (cases "j < length xs") (simp_all add: map_update list_update_beyond, metis list_update_id nth_map)

lemma length_set_gap [simp]: "length (set_gap i t ps) = length ps"
  by (simp add: set_gap_def split: option.splits)

lemma set_gap_fields [simp]:
  "map st_size (set_gap i t ps) = map st_size ps"
  "map st_sprob (set_gap i t ps) = map st_sprob ps"
  "map st_expected (set_gap i t ps) = map st_expected ps"
  by (simp_all add: set_gap_def upd_same_map split: option.splits)

lemma nth_set_gap: "i \<noteq> Some k \<Longrightarrow> set_gap i t ps ! k = ps ! k"
  by (cases i) (simp_all add: set_gap_def)

lemma drop_set_gap: "(\<forall>p. i = Some p \<longrightarrow> p < n) \<Longrightarrow> drop n (set_gap i t ps) = drop n ps"
  by (auto simp: set_gap_def split: option.splits)

text \<open>Both branches of a round, for the direction \<open>dir\<close> of its packet.\<close>

definition dir_change :: "int \<Rightarrow> split_st \<Rightarrow> bool" where
  "dir_change dir v \<longleftrightarrow> (case sp_pre v of None \<Rightarrow> False | Some k \<Rightarrow> sgn (map st_size (sp_pairs v) ! k) = - dir)"

definition visit_pairs :: "int \<Rightarrow> nat \<Rightarrow> split_st \<Rightarrow> stpair list" where
  "visit_pairs dir j v = (let ps = set_gap (sp_dir dir v) (st_time (sp_pairs v ! j)) (sp_pairs v)
     in if dir_change dir v then ps[j := (ps ! j)\<lparr>st_expected := sp_sum v\<rparr>] else ps)"

lemma split_step_effect:
  assumes d: "sgn (st_size (sp_pairs v ! j)) = dir" "dir \<noteq> 0"
    and k: "\<And>k. sp_pre v = Some k \<Longrightarrow> k < length (sp_pairs v)"
  shows "sp_pairs (split_step j v) = visit_pairs dir j v"
    and "sp_dir dir (split_step j v) = Some j"
    and "dir' \<in> {1, -1} \<Longrightarrow> dir' \<noteq> dir \<Longrightarrow> sp_dir dir' (split_step j v) = sp_dir dir' v"
    and "sp_pre (split_step j v) = Some j"
    and "sp_sum (split_step j v) = (if dir_change dir v then 0 else sp_sum v) + word_of_int \<bar>st_size (sp_pairs v ! j)\<bar>"
proof -
  let ?ps = "\<lambda>i. set_gap i (st_time (sp_pairs v ! j)) (sp_pairs v)"
  have sz: "st_size (?ps i ! k) = map st_size (sp_pairs v) ! k" if "sp_pre v = Some k" for i k
    using k [OF that] by (metis length_set_gap nth_map set_gap_fields(1))
  show "sp_pairs (split_step j v) = visit_pairs dir j v"
    "sp_dir dir (split_step j v) = Some j"
    "dir' \<in> {1, -1} \<Longrightarrow> dir' \<noteq> dir \<Longrightarrow> sp_dir dir' (split_step j v) = sp_dir dir' v"
    "sp_pre (split_step j v) = Some j"
    "sp_sum (split_step j v) = (if dir_change dir v then 0 else sp_sum v) + word_of_int \<bar>st_size (sp_pairs v ! j)\<bar>"
    using d sz by (auto simp: split_step_def visit_pairs_def dir_change_def sp_dir_def Let_def sgn_if
      split: option.splits if_splits)
qed

lemma split_step_none: "st_size (sp_pairs v ! j) = 0 \<Longrightarrow> split_step j v = v"
  by (simp add: split_step_def)

lemma length_visit [simp]: "length (visit_pairs dir j v) = length (sp_pairs v)"
  by (simp add: visit_pairs_def Let_def)

lemma visit_fields [simp]:
  "map st_size (visit_pairs dir j v) = map st_size (sp_pairs v)"
  "map st_sprob (visit_pairs dir j v) = map st_sprob (sp_pairs v)"
  by (simp_all add: visit_pairs_def Let_def upd_same_map)

lemma split_inv_current:
  "split_inv ps n v \<Longrightarrow> n < length ps \<Longrightarrow> sp_pairs v ! n = ps ! n"
  by (metis hd_drop_conv_nth split_inv_def)

lemma split_inv_step:
  assumes inv: "split_inv ps n v" and n: "n < length ps"
  shows "split_inv ps (Suc n) (split_step n v)"
proof (cases "st_size (ps ! n) = 0")
  case True
  then have "split_step n v = v" using split_inv_current [OF inv n] by (simp add: split_step_none)
  moreover have "drop (Suc n) (sp_pairs v) = drop (Suc n) ps"
    using inv by (metis drop_Suc tl_drop split_inv_def)
  ultimately show ?thesis using inv by (auto simp: split_inv_def less_Suc_eq)
next
  case False
  let ?d = "sgn (st_size (sp_pairs v ! n))"
  have d: "?d \<noteq> 0" "?d \<in> {1, -1}" using False split_inv_current [OF inv n] by (auto simp: sgn_if)
  have k: "\<And>k. sp_pre v = Some k \<Longrightarrow> k < length (sp_pairs v)" using inv n by (auto simp: split_inv_def)
  note e = split_step_effect [OF refl d(1) k]
  have dr: "drop (Suc n) (visit_pairs ?d n v) = drop (Suc n) ps"
  proof -
    have "drop (Suc n) (visit_pairs ?d n v) = drop (Suc n) (sp_pairs v)"
      using inv d(2) drop_set_gap [of "sp_dir ?d v" "Suc n"]
      by (auto simp: visit_pairs_def Let_def split_inv_def less_Suc_eq)
    also have "\<dots> = drop (Suc n) ps" using inv by (metis drop_Suc tl_drop split_inv_def)
    finally show ?thesis .
  qed
  have "\<forall>dir \<in> {1, -1}. \<forall>p. sp_dir dir (split_step n v) = Some p \<longrightarrow>
      p < Suc n \<and> sgn (st_size (ps ! p)) = dir"
  proof (intro ballI allI impI)
    fix dir p assume "dir \<in> {1, -1}" and "sp_dir dir (split_step n v) = Some p"
    then show "p < Suc n \<and> sgn (st_size (ps ! p)) = dir"
      using inv e(2) e(3) [of dir] split_inv_current [OF inv n]
      by (cases "dir = ?d") (auto simp: split_inv_def less_Suc_eq)
  qed
  then show ?thesis using inv e(1,4) dr by (simp add: split_inv_def)
qed

lemma take_upd_Suc: "n < length xs \<Longrightarrow> take (Suc n) xs = take n xs @ [xs ! n]"
  by (rule take_Suc_conv_app_nth)

lemma dir_times_upd:
  assumes "p < n" and "n \<le> length xs" and "st_size y = st_size (xs ! p)"
  shows "dir_times dir (take n (xs[p := y])) =
    dir_times dir (take n xs) + (if sgn (st_size (xs ! p)) = dir then st_time y - st_time (xs ! p) else 0)"
proof -
  have "(\<Sum>x\<leftarrow>(take n xs)[p := y]. if sgn (st_size x) = dir then st_time x else 0) =
      (\<Sum>x\<leftarrow>take n xs. if sgn (st_size x) = dir then st_time x else 0) +
      (if sgn (st_size y) = dir then st_time y else 0) -
      (if sgn (st_size (take n xs ! p)) = dir then st_time (take n xs ! p) else 0)"
    using assms(1,2) by (intro sum_list_upd) simp
  then show ?thesis using assms by (simp add: dir_times_def take_update_swap)
qed

lemma dir_times_snoc:
  "n < length xs \<Longrightarrow> dir_times dir (take (Suc n) xs) =
     dir_times dir (take n xs) + (if sgn (st_size (xs ! n)) = dir then st_time (xs ! n) else 0)"
  by (simp add: dir_times_def take_upd_Suc)

lemma first_time_snoc:
  assumes "n < length ps"
  shows "first_time dir (take (Suc n) ps) =
    (if \<exists>i < n. sgn (st_size (ps ! i)) = dir then first_time dir (take n ps)
     else if sgn (st_size (ps ! n)) = dir then st_time (ps ! n) else first_time dir (take n ps))"
proof -
  have "filter (\<lambda>p. sgn (st_size p) = dir) (take n ps) = [] \<longleftrightarrow> \<not> (\<exists>i < n. sgn (st_size (ps ! i)) = dir)"
    using assms by (simp add: filter_empty_conv all_set_conv_all_nth)
  then show ?thesis
    using assms by (auto simp: first_time_def take_upd_Suc)
qed

lemma visit_times:
  "dir_times d (take m (visit_pairs dir j v)) =
     dir_times d (take m (set_gap (sp_dir dir v) (st_time (sp_pairs v ! j)) (sp_pairs v)))"
  "st_time (visit_pairs dir j v ! i) =
     st_time (set_gap (sp_dir dir v) (st_time (sp_pairs v ! j)) (sp_pairs v) ! i)"
proof -
  let ?g = "set_gap (sp_dir dir v) (st_time (sp_pairs v ! j)) (sp_pairs v)"
  let ?y = "(?g ! j)\<lparr>st_expected := sp_sum v\<rparr>"
  let ?f = "\<lambda>p. if sgn (st_size p) = d then st_time p else 0"
  have "map ?f (?g[j := ?y]) = map ?f ?g" by (rule upd_same_map) simp
  then show "dir_times d (take m (visit_pairs dir j v)) = dir_times d (take m ?g)"
    by (auto simp: visit_pairs_def Let_def dir_times_def simp flip: take_map)
  show "st_time (visit_pairs dir j v ! i) = st_time (?g ! i)"
    by (cases "j < length (sp_pairs v)"; cases "i = j")
      (simp_all add: visit_pairs_def Let_def list_update_beyond)
qed

lemma gap_times:
  assumes "\<And>p. i = Some p \<Longrightarrow> p < n" and "n \<le> length ps"
  shows "dir_times d (take n (set_gap i t ps)) = dir_times d (take n ps) +
    (case i of None \<Rightarrow> 0 | Some p \<Rightarrow> if sgn (st_size (ps ! p)) = d then t - 2 * st_time (ps ! p) else 0)"
  using assms by (cases i) (simp_all add: set_gap_def dir_times_upd)

lemma dir_times_none:
  "n \<le> length xs \<Longrightarrow> \<forall>i < n. sgn (st_size (xs ! i)) \<noteq> dir \<Longrightarrow> dir_times dir (take n xs) = 0"
  by (induction n) (simp_all add: dir_times_snoc dir_times_def [of _ "[]"])

lemma split_dir_step:
  assumes inv: "split_inv ps n v" and n: "n < length ps" and dir: "dir \<in> {1, -1}"
    and dinv: "split_dir_inv dir ps n v"
  shows "split_dir_inv dir ps (Suc n) (split_step n v)"
proof -
  have cur: "sp_pairs v ! n = ps ! n" using split_inv_current [OF inv n] .
  have len: "length (sp_pairs v) = length ps" using inv by (simp add: split_inv_def)
  have sz: "st_size (sp_pairs v ! i) = st_size (ps ! i)" if "i < length ps" for i
  proof -
    have "map st_size (sp_pairs v) ! i = map st_size ps ! i" using inv by (simp add: split_inv_def)
    then show ?thesis using that len by simp
  qed
  show ?thesis
  proof (cases "st_size (ps ! n) = 0")
    case True
    then have "split_step n v = v" using cur by (simp add: split_step_none)
    then show ?thesis using dinv True n len cur dir
      by (auto simp: split_dir_inv_def dir_times_snoc first_time_snoc less_Suc_eq split: option.splits)
  next
    case False
    let ?d = "sgn (st_size (sp_pairs v ! n))"
    let ?g = "set_gap (sp_dir ?d v) (st_time (sp_pairs v ! n)) (sp_pairs v)"
    have d: "?d \<noteq> 0" "?d \<in> {1, -1}" using False cur by (auto simp: sgn_if)
    have k: "\<And>k. sp_pre v = Some k \<Longrightarrow> k < length (sp_pairs v)" using inv n by (auto simp: split_inv_def)
    note e = split_step_effect [OF refl d(1) k]
    have b: "\<And>p. sp_dir ?d v = Some p \<Longrightarrow> p < n" "\<And>p. sp_dir dir v = Some p \<Longrightarrow> p < n"
      using inv d(2) dir by (auto simp: split_inv_def)
    have gn: "?g ! n = ps ! n" using cur nth_set_gap [of "sp_dir ?d v" n] b(1) by fastforce
    have t: "dir_times dir (take (Suc n) ?g) = dir_times dir (take n ?g) +
        (if ?d = dir then st_time (ps ! n) else 0)"
      using dir_times_snoc [of n ?g dir, unfolded gn] n len unfolding cur by simp
    show ?thesis
    proof (cases "?d = dir")
      case True
      have "dir_times dir (take (Suc n) ?g) = 2 * st_time (ps ! n) - first_time dir (take (Suc n) ps)"
      proof (cases "sp_dir dir v")
        case None
        then have no: "\<forall>i < n. sgn (st_size (ps ! i)) \<noteq> dir" using dinv by (simp add: split_dir_inv_def)
        then have "dir_times dir (take n (sp_pairs v)) = 0"
          using n len sz by (intro dir_times_none) auto
        then show ?thesis using t None True gap_times [of None n "sp_pairs v" dir] n len no cur
          by (auto simp: first_time_snoc)
      next
        case (Some p)
        then have p: "p < n" "sgn (st_size (ps ! p)) = dir" "st_time (sp_pairs v ! p) = st_time (ps ! p)"
          "dir_times dir (take n (sp_pairs v)) = 2 * st_time (ps ! p) - first_time dir (take n ps)"
          using dinv by (auto simp: split_dir_inv_def)
        then have "sgn (st_size (sp_pairs v ! p)) = dir" using sz n by simp
        then show ?thesis using t Some True p gap_times [of "Some p" n "sp_pairs v" dir] n len cur
          by (auto simp: first_time_snoc)
      qed
      then show ?thesis using e(1,2) True n cur gn
        by (simp add: split_dir_inv_def visit_times)
    next
      case False
      have same: "sp_dir dir (split_step n v) = sp_dir dir v" using e(3) dir False by auto
      have "dir_times dir (take n ?g) = dir_times dir (take n (sp_pairs v))"
      proof (cases "sp_dir ?d v")
        case (Some p)
        then have "sgn (st_size (ps ! p)) = ?d" "p < n" using inv d(2) by (auto simp: split_inv_def)
        then have "sgn (st_size (sp_pairs v ! p)) = ?d" using sz n by simp
        then show ?thesis using gap_times [of "sp_dir ?d v" n] b(1) n len Some False by simp
      qed (simp add: set_gap_def)
      moreover have "first_time dir (take (Suc n) ps) = first_time dir (take n ps)"
        using False cur n by (simp add: first_time_snoc)
      moreover have "st_time (?g ! p) = st_time (sp_pairs v ! p)" if "sp_dir dir v = Some p" for p
      proof -
        have "sp_dir ?d v \<noteq> Some p"
          using inv d(2) dir that False by (force simp: split_inv_def)
        then show ?thesis by (simp add: nth_set_gap)
      qed
      ultimately show ?thesis using dinv same e(1) t False cur
        by (auto simp: split_dir_inv_def visit_times less_Suc_eq split: option.splits)
    qed
  qed
qed

text \<open>The bytes of the burst a list of packets ends with, and its direction (0 for no packet).\<close>

definition last_dir :: "stpair list \<Rightarrow> int" where
  "last_dir ps = (case filter (\<lambda>p. st_size p \<noteq> 0) (rev ps) of [] \<Rightarrow> 0 | p # _ \<Rightarrow> sgn (st_size p))"

definition run_bytes :: "stpair list \<Rightarrow> int" where
  "run_bytes ps = (\<Sum>p\<leftarrow>takeWhile (\<lambda>p. sgn (st_size p) = last_dir ps)
     (filter (\<lambda>p. st_size p \<noteq> 0) (rev ps)). \<bar>st_size p\<bar>)"

lemma last_dir_snoc: "last_dir (xs @ [p]) = (if st_size p = 0 then last_dir xs else sgn (st_size p))"
  by (simp add: last_dir_def)

lemma run_bytes_snoc:
  "run_bytes (xs @ [p]) =
     (if st_size p = 0 then run_bytes xs
      else if last_dir xs = - sgn (st_size p) then \<bar>st_size p\<bar> else run_bytes xs + \<bar>st_size p\<bar>)"
proof (cases "filter (\<lambda>p. st_size p \<noteq> 0) (rev xs)")
  case Nil
  then show ?thesis by (simp add: run_bytes_def last_dir_def)
next
  case (Cons q qs)
  then have q: "st_size q \<noteq> 0"
    by (metis (mono_tags, lifting) filter_eq_ConsD)
  have l: "last_dir xs = sgn (st_size q)" using Cons by (simp add: last_dir_def)
  show ?thesis
  proof (cases "st_size p = 0")
    case True
    then show ?thesis by (simp add: run_bytes_def last_dir_snoc)
  next
    case False
    then have "sgn (st_size q) = sgn (st_size p) \<or> sgn (st_size q) = - sgn (st_size p)"
      "sgn (st_size p) \<noteq> - sgn (st_size p)"
      using q by (auto simp: sgn_if)
    then show ?thesis using False Cons l by (auto simp: run_bytes_def last_dir_snoc)
  qed
qed

text \<open>What \<open>split\<close> makes a packet wait for: the whole burst of the other direction before it.\<close>

definition awaited :: "stpair list \<Rightarrow> nat \<Rightarrow> u64" where
  "awaited ps j = (if st_size (ps ! j) \<noteq> 0 \<and> last_dir (take j ps) = - sgn (st_size (ps ! j))
     then word_of_int (run_bytes (take j ps)) else 0)"

definition split_wait_inv :: "stpair list \<Rightarrow> nat \<Rightarrow> split_st \<Rightarrow> bool" where
  "split_wait_inv ps n v \<longleftrightarrow>
     last_dir (take n ps) = (case sp_pre v of None \<Rightarrow> 0 | Some k \<Rightarrow> sgn (st_size (ps ! k))) \<and>
     sp_sum v = word_of_int (run_bytes (take n ps)) \<and>
     (\<forall>j < n. map st_expected (sp_pairs v) ! j = awaited ps j)"

lemma visit_expected:
  assumes "j < length (sp_pairs v)"
  shows "map st_expected (visit_pairs dir j v) = (map st_expected (sp_pairs v))
    [j := if dir_change dir v then sp_sum v else st_expected (sp_pairs v ! j)]"
proof -
  let ?g = "set_gap (sp_dir dir v) (st_time (sp_pairs v ! j)) (sp_pairs v)"
  have "map st_expected (?g[j := (?g ! j)\<lparr>st_expected := sp_sum v\<rparr>]) = (map st_expected ?g)[j := sp_sum v]"
    by (simp only: map_update) simp
  moreover have "(map st_expected (sp_pairs v))[j := st_expected (sp_pairs v ! j)] = map st_expected (sp_pairs v)"
    using assms by (metis list_update_id nth_map)
  ultimately show ?thesis by (simp add: visit_pairs_def Let_def)
qed

lemma split_wait_step:
  assumes inv: "split_inv ps n v" and n: "n < length ps" and zero: "\<forall>p \<in> set ps. st_expected p = 0"
    and w: "split_wait_inv ps n v"
  shows "split_wait_inv ps (Suc n) (split_step n v)"
proof -
  have cur: "sp_pairs v ! n = ps ! n" and len: "length (sp_pairs v) = length ps"
    using split_inv_current [OF inv n] inv by (simp_all add: split_inv_def)
  have z: "st_expected (ps ! n) = 0" using zero n by simp
  have tk: "take (Suc n) ps = take n ps @ [ps ! n]" using n by (rule take_upd_Suc)
  show ?thesis
  proof (cases "st_size (ps ! n) = 0")
    case True
    then have "split_step n v = v" using cur by (simp add: split_step_none)
    moreover have "awaited ps n = 0" "map st_expected (sp_pairs v) ! n = 0"
      using True z cur n len by (simp_all add: awaited_def)
    ultimately show ?thesis using w True
      by (simp add: split_wait_inv_def tk last_dir_snoc run_bytes_snoc All_less_Suc)
  next
    case False
    let ?d = "sgn (st_size (sp_pairs v ! n))"
    have d: "?d \<noteq> 0" using False cur by (simp add: sgn_if)
    have k: "\<And>k. sp_pre v = Some k \<Longrightarrow> k < length (sp_pairs v)" using inv n by (auto simp: split_inv_def)
    note e = split_step_effect [OF refl d k]
    have ch: "dir_change ?d v \<longleftrightarrow> last_dir (take n ps) = - ?d"
    proof (cases "sp_pre v")
      case None
      then show ?thesis using w d by (simp add: dir_change_def split_wait_inv_def)
    next
      case (Some k')
      have "map st_size (sp_pairs v) ! k' = map st_size ps ! k'" using inv by (simp add: split_inv_def)
      also have "\<dots> = st_size (ps ! k')" using k [OF Some] len by simp
      finally show ?thesis using Some w by (simp add: dir_change_def split_wait_inv_def)
    qed
    have x: "map st_expected (sp_pairs (split_step n v)) =
        (map st_expected (sp_pairs v))[n := awaited ps n]"
      using w ch visit_expected [of n v ?d] n len cur z False
      by (simp add: e(1) awaited_def split_wait_inv_def)
    have s: "sp_sum (split_step n v) = word_of_int (run_bytes (take (Suc n) ps))"
      using w ch False cur by (simp add: e(5) tk run_bytes_snoc split_wait_inv_def)
    show ?thesis using w x s False n len
      by (simp add: split_wait_inv_def e(4) tk last_dir_snoc All_less_Suc)
  qed
qed

lemma split_loop_inv:
  assumes "\<forall>p \<in> set ps. st_expected p = 0" and "n \<le> length ps"
  shows "split_inv ps n (split_loop ps n) \<and> split_wait_inv ps n (split_loop ps n) \<and>
    (\<forall>dir \<in> {1, -1}. split_dir_inv dir ps n (split_loop ps n))"
  using assms(2)
proof (induction n)
  case 0
  show ?case by (simp add: split_loop_def split_inv_def split_wait_inv_def split_dir_inv_def sp_dir_def
    last_dir_def run_bytes_def)
next
  case (Suc n)
  have "split_loop ps (Suc n) = split_step n (split_loop ps n)" by (simp add: split_loop_def)
  then show ?case
    using Suc split_inv_step [of ps n] split_wait_step [of ps n] split_dir_step [of ps n] assms(1) by simp
qed

text \<open>The index of the last packet visited, and the range of the times.\<close>

definition split_pre_inv :: "stpair list \<Rightarrow> nat \<Rightarrow> split_st \<Rightarrow> bool" where
  "split_pre_inv ps n v \<longleftrightarrow>
     (case sp_pre v of None \<Rightarrow> \<forall>i < n. st_size (ps ! i) = 0
      | Some k \<Rightarrow> st_size (ps ! k) \<noteq> 0 \<and> sp_dir (sgn (st_size (ps ! k))) v = Some k \<and>
          (\<forall>i. k < i \<and> i < n \<longrightarrow> st_size (ps ! i) = 0)) \<and>
     (\<forall>i < length ps. st_size (ps ! i) = 0 \<longrightarrow> sp_pairs v ! i = ps ! i)"

lemma split_pre_step:
  assumes inv: "split_inv ps n v" and n: "n < length ps" and p: "split_pre_inv ps n v"
  shows "split_pre_inv ps (Suc n) (split_step n v)"
proof -
  have cur: "sp_pairs v ! n = ps ! n" and len: "length (sp_pairs v) = length ps"
    using split_inv_current [OF inv n] inv by (simp_all add: split_inv_def)
  show ?thesis
  proof (cases "st_size (ps ! n) = 0")
    case True
    then have "split_step n v = v" using cur by (simp add: split_step_none)
    then show ?thesis using p True by (auto simp: split_pre_inv_def less_Suc_eq split: option.splits)
  next
    case False
    let ?d = "sgn (st_size (sp_pairs v ! n))"
    have d: "?d \<noteq> 0" "?d \<in> {1, -1}" using False cur by (auto simp: sgn_if)
    have k: "\<And>k. sp_pre v = Some k \<Longrightarrow> k < length (sp_pairs v)" using inv n by (auto simp: split_inv_def)
    note e = split_step_effect [OF refl d(1) k]
    have "sp_pairs (split_step n v) ! i = ps ! i" if i: "i < length ps" "st_size (ps ! i) = 0" for i
    proof -
      have "sp_dir ?d v \<noteq> Some i" using inv d i(2) by (auto simp: split_inv_def)
      moreover have "i \<noteq> n" using i(2) False by auto
      ultimately show ?thesis using i p by (auto simp: e(1) visit_pairs_def Let_def nth_set_gap split_pre_inv_def)
    qed
    then show ?thesis using e(2,4) False cur by (simp add: split_pre_inv_def)
  qed
qed

lemma split_loop_pre:
  assumes "\<forall>p \<in> set ps. st_expected p = 0" and "n \<le> length ps"
  shows "split_pre_inv ps n (split_loop ps n)"
  using assms(2)
proof (induction n)
  case 0
  show ?case by (simp add: split_loop_def split_pre_inv_def)
next
  case (Suc n)
  have "split_loop ps (Suc n) = split_step n (split_loop ps n)" by (simp add: split_loop_def)
  then show ?case using Suc split_pre_step [of ps n] split_loop_inv [OF assms(1), of n] by simp
qed

definition end_time :: "stpair list \<Rightarrow> int" where
  "end_time ps = st_time (List.last (filter (\<lambda>p. st_size p \<noteq> 0) ps))"

lemma last_valid_skip:
  "k \<le> n \<Longrightarrow> \<forall>i. k \<le> i \<and> i < n \<longrightarrow> st_time (ps ! i) \<le> 0 \<Longrightarrow> last_valid n ps lv = last_valid k ps lv"
proof (induction n)
  case (Suc n)
  then have "k \<le> n \<Longrightarrow> \<not> 0 < st_time (ps ! n)" by (simp add: not_less)
  with Suc show ?case by (cases "k = Suc n") auto
qed simp

lemma last_nonzero:
  assumes "k < length ps" and "st_size (ps ! k) \<noteq> 0"
    and "\<forall>i. k < i \<and> i < length ps \<longrightarrow> st_size (ps ! i) = 0"
  shows "end_time ps = st_time (ps ! k)"
proof -
  have "filter (\<lambda>p. st_size p \<noteq> 0) (drop (Suc k) ps) = []"
    using assms(1,3) by (auto simp: filter_empty_conv in_set_conv_nth)
  moreover have "ps = take k ps @ ps ! k # drop (Suc k) ps" using assms(1) by (simp add: id_take_nth_drop)
  ultimately have "filter (\<lambda>p. st_size p \<noteq> 0) ps = filter (\<lambda>p. st_size p \<noteq> 0) (take k ps) @ [ps ! k]"
    using assms(2) by (metis (mono_tags, lifting) filter.simps(2) filter_append)
  then show ?thesis by (simp add: end_time_def)
qed

text \<open>A trace \<open>split\<close> can work on: what merging leaves, with packets in both directions.\<close>

definition mergeable :: "st \<Rightarrow> bool" where
  "mergeable s \<longleftrightarrow> st_tracelen s = length (st_pairs s) \<and>
     list_all (\<lambda>p. st_expected p = 0 \<and> 0 \<le> st_time p \<and> st_time p < 2 ^ 31 \<and>
       (st_size p = 0 \<longrightarrow> st_time p = 0)) (st_pairs s) \<and>
     list_ex (\<lambda>p. 0 < st_size p) (st_pairs s) \<and> list_ex (\<lambda>p. st_size p < 0) (st_pairs s)"

lemma split_found:
  assumes "split_dir_inv dir ps (length ps) v" and "list_ex (\<lambda>p. sgn (st_size p) = dir) ps"
    and "length (sp_pairs v) = length ps"
  shows "\<exists>p. sp_dir dir v = Some p \<and> p < length ps \<and> sgn (st_size (ps ! p)) = dir \<and>
    st_time (sp_pairs v ! p) = st_time (ps ! p) \<and>
    dir_times dir (sp_pairs v) = 2 * st_time (ps ! p) - first_time dir ps"
  using assms by (cases "sp_dir dir v") (auto simp: split_dir_inv_def list_ex_length)

lemma trunc_gap:
  assumes "0 \<le> t" "t < 2 ^ 31" "0 \<le> l" "l < 2 ^ 31"
  shows "trunc_int (word_of_int l - word_of_int t) = l - t"
proof -
  have "(ucast (word_of_int l - word_of_int t :: u64) :: 32 word) = word_of_int (l - t)"
    unfolding wi_hom_sub by (rule ucast_down_wi) (simp add: is_down)
  moreover have "int_range (l - t)" using assms by (simp add: int_range_def)
  ultimately show ?thesis unfolding trunc_int_def by (simp only: sint_in_range)
qed

lemma upd_times:
  assumes "p < length xs"
  shows "dir_times dir (xs[p := (xs ! p)\<lparr>st_time := t\<rparr>]) =
    dir_times dir xs + (if sgn (st_size (xs ! p)) = dir then t - st_time (xs ! p) else 0)"
  using dir_times_upd [of p "length xs" xs "(xs ! p)\<lparr>st_time := t\<rparr>" dir] assms by simp

lemma upd2_times:
  assumes "p \<noteq> q" and "p < length xs" and "q < length xs"
  shows "dir_times dir (xs[p := (xs ! p)\<lparr>st_time := a\<rparr>, q := (xs ! q)\<lparr>st_time := b\<rparr>]) =
    dir_times dir xs + (if sgn (st_size (xs ! p)) = dir then a - st_time (xs ! p) else 0) +
    (if sgn (st_size (xs ! q)) = dir then b - st_time (xs ! q) else 0)"
  using upd_times [of q "xs[p := (xs ! p)\<lparr>st_time := a\<rparr>]" dir b] upd_times [of p xs dir a] assms by simp

lemma split_last_valid:
  assumes m: "mergeable s" and e: "0 < end_time (st_pairs s)"
    and v: "v = split_loop (st_pairs s) (st_tracelen s)"
  shows "last_valid (st_tracelen s) (sp_pairs v) prev = word_of_int (end_time (st_pairs s))"
proof -
  let ?ps = "st_pairs s"
  have len: "st_tracelen s = length ?ps" and z: "\<forall>p \<in> set ?ps. st_expected p = 0"
    using m by (auto simp: mergeable_def list_all_iff)
  have pre: "split_pre_inv ?ps (length ?ps) v" and inv: "split_inv ?ps (length ?ps) v"
    and dinv: "\<forall>dir \<in> {1, -1}. split_dir_inv dir ?ps (length ?ps) v"
    using split_loop_pre [OF z] split_loop_inv [OF z] v len by simp_all
  have "list_ex (\<lambda>p. 0 < st_size p) ?ps" using m by (simp add: mergeable_def)
  then obtain k where k: "sp_pre v = Some k"
    using pre by (auto simp: split_pre_inv_def list_ex_length split: option.splits)
  then have kk: "k < length ?ps" "st_size (?ps ! k) \<noteq> 0" "sp_dir (sgn (st_size (?ps ! k))) v = Some k"
    "\<forall>i. k < i \<and> i < length ?ps \<longrightarrow> st_size (?ps ! i) = 0"
    using pre inv by (auto simp: split_pre_inv_def split_inv_def)
  have "sgn (st_size (?ps ! k)) \<in> {1, -1}" using kk(2) by (auto simp: sgn_if)
  then have t: "st_time (sp_pairs v ! k) = end_time ?ps"
    using dinv kk(3) last_nonzero [OF kk(1,2,4)] by (auto simp: split_dir_inv_def)
  have "\<forall>i. Suc k \<le> i \<and> i < length ?ps \<longrightarrow> st_time (sp_pairs v ! i) \<le> 0"
  proof (intro allI impI)
    fix i assume i: "Suc k \<le> i \<and> i < length ?ps"
    then have "st_size (?ps ! i) = 0" using kk(4) by simp
    moreover from this have "sp_pairs v ! i = ?ps ! i" using pre i by (simp add: split_pre_inv_def)
    ultimately show "st_time (sp_pairs v ! i) \<le> 0" using m i by (simp add: mergeable_def list_all_length)
  qed
  then have "last_valid (length ?ps) (sp_pairs v) prev = last_valid (Suc k) (sp_pairs v) prev"
    using kk(1) by (intro last_valid_skip) auto
  then show ?thesis using t e len by simp
qed

lemma dir_list_ex:
  assumes "mergeable s" and "dir \<in> {1, -1}"
  shows "list_ex (\<lambda>p. sgn (st_size p) = dir) (st_pairs s)"
  using assms by (auto simp: mergeable_def sgn_1_pos sgn_1_neg)

lemma last_in_times:
  assumes "mergeable s"
  shows "0 \<le> end_time (st_pairs s)" and "end_time (st_pairs s) < 2 ^ 31"
proof -
  obtain p where "p \<in> set (st_pairs s)" "0 < st_size p" using assms by (auto simp: mergeable_def list_ex_iff)
  then have "filter (\<lambda>p. st_size p \<noteq> 0) (st_pairs s) \<noteq> []" by (force simp: filter_empty_conv)
  then have "List.last (filter (\<lambda>p. st_size p \<noteq> 0) (st_pairs s)) \<in> set (st_pairs s)"
    by (metis filter_is_subset last_in_set subsetD)
  then show "0 \<le> end_time (st_pairs s)" "end_time (st_pairs s) < 2 ^ 31"
    using assms by (auto simp: mergeable_def list_all_iff end_time_def)
qed

section \<open>Properties\<close>

text \<open>C32: \<open>split\<close> on a merged trace with packets in both directions and a positive end time never
  touches memory outside the trace. It keeps sizes and stop probabilities. It makes every
  packet wait for exactly the bytes of the burst of the other direction before it, and for
  nothing where the direction does not change. And it turns the times of each direction into
  delays that add up to the time from the direction's first packet to the end of the trace.\<close>

theorem split_trace_correct:
  assumes m: "mergeable s" and e: "0 < end_time (st_pairs s)"
  shows "\<exists>s'. split_trace s prev = Inr (s', word_of_int (end_time (st_pairs s))) \<and>
    map st_size (st_pairs s') = map st_size (st_pairs s) \<and>
    map st_sprob (st_pairs s') = map st_sprob (st_pairs s) \<and>
    map st_expected (st_pairs s') = map (awaited (st_pairs s)) [0..<st_tracelen s] \<and>
    (\<forall>dir \<in> {1, -1}. dir_times dir (st_pairs s') = end_time (st_pairs s) - first_time dir (st_pairs s))"
proof -
  let ?ps = "st_pairs s" and ?v = "split_loop (st_pairs s) (st_tracelen s)"
  let ?E = "end_time (st_pairs s)"
  have len: "st_tracelen s = length ?ps" and z: "\<forall>p \<in> set ?ps. st_expected p = 0"
    and tm: "\<And>i. i < length ?ps \<Longrightarrow> 0 \<le> st_time (?ps ! i) \<and> st_time (?ps ! i) < 2 ^ 31"
    using m by (auto simp: mergeable_def list_all_iff)
  have inv: "split_inv ?ps (length ?ps) ?v" and w: "split_wait_inv ?ps (length ?ps) ?v"
    and dinv: "\<And>dir. dir \<in> {1, -1} \<Longrightarrow> split_dir_inv dir ?ps (length ?ps) ?v"
    using split_loop_inv [OF z order.refl] len by auto
  have L: "length (sp_pairs ?v) = length ?ps" using inv by (simp add: split_inv_def)
  note f = split_found [OF dinv dir_list_ex [OF m] L]
  from f [of 1] obtain p where p: "sp_pos ?v = Some p" "p < length ?ps" "sgn (st_size (?ps ! p)) = 1"
    "st_time (sp_pairs ?v ! p) = st_time (?ps ! p)"
    "dir_times 1 (sp_pairs ?v) = 2 * st_time (?ps ! p) - first_time 1 ?ps" by (auto simp: sp_dir_def)
  from f [of "-1"] obtain q where q: "sp_neg ?v = Some q" "q < length ?ps" "sgn (st_size (?ps ! q)) = -1"
    "st_time (sp_pairs ?v ! q) = st_time (?ps ! q)"
    "dir_times (-1) (sp_pairs ?v) = 2 * st_time (?ps ! q) - first_time (-1) ?ps" by (auto simp: sp_dir_def)
  have pq: "p \<noteq> q" using p(3) q(3) by auto
  let ?p1 = "(sp_pairs ?v)[p := (sp_pairs ?v ! p)\<lparr>st_time := ?E - st_time (?ps ! p)\<rparr>]"
  let ?p2 = "?p1[q := (sp_pairs ?v ! q)\<lparr>st_time := ?E - st_time (?ps ! q)\<rparr>]"
  have sz: "map st_size (sp_pairs ?v) = map st_size ?ps" "map st_sprob (sp_pairs ?v) = map st_sprob ?ps"
    using inv by (simp_all add: split_inv_def)
  have "map st_size (sp_pairs ?v) ! i = map st_size ?ps ! i" for i using sz by simp
  then have szn: "i < length ?ps \<Longrightarrow> st_size (sp_pairs ?v ! i) = st_size (?ps ! i)" for i
    using L by (metis nth_map)
  have ex: "map st_expected (sp_pairs ?v) = map (awaited ?ps) [0..<st_tracelen s]"
    using w L len by (intro nth_equalityI) (simp_all add: split_wait_inv_def)
  have "split_trace s prev = Inr (s\<lparr>st_pairs := ?p2\<rparr>, word_of_int ?E)"
    using split_last_valid [OF m e refl, of prev] p(1,2,4) q(1,2,4) pq L
      trunc_gap [of "st_time (?ps ! p)" ?E] trunc_gap [of "st_time (?ps ! q)" ?E]
      tm [OF p(2)] tm [OF q(2)] last_in_times [OF m]
    by (simp add: split_trace_def Let_def close_gap_def)
  moreover have "map st_size ?p2 = map st_size ?ps" "map st_sprob ?p2 = map st_sprob ?ps"
    "map st_expected ?p2 = map (awaited ?ps) [0..<st_tracelen s]"
    using sz ex pq by (simp_all add: upd_same_map)
  moreover have "dir_times dir ?p2 = ?E - first_time dir ?ps" if "dir \<in> {1, -1}" for dir
    using that p q pq L szn [OF p(2)] szn [OF q(2)] by (auto simp: upd2_times)
  ultimately show ?thesis by auto
qed

definition demo_trace :: st where
  "demo_trace = \<lparr>st_clusterid = 1, st_tracelen = 4, st_pairs =
     [\<lparr>st_size = 100, st_time = 1, st_sprob = 0, st_expected = 0\<rparr>,
      \<lparr>st_size = 20, st_time = 3, st_sprob = 0, st_expected = 0\<rparr>,
      \<lparr>st_size = -50, st_time = 5, st_sprob = 10, st_expected = 0\<rparr>,
      \<lparr>st_size = 30, st_time = 9, st_sprob = 20, st_expected = 0\<rparr>]\<rparr>"

theorem split_trace_correct_witness:
  "\<exists>s'. split_trace demo_trace 0 = Inr (s', 9) \<and> map st_expected (st_pairs s') = [0, 0, 120, 50] \<and>
     dir_times 1 (st_pairs s') = 8 \<and> dir_times (-1) (st_pairs s') = 4"
proof -
  have "mergeable demo_trace" by (simp add: mergeable_def demo_trace_def)
  moreover have e: "end_time (st_pairs demo_trace) = 9" by (simp add: end_time_def demo_trace_def)
  ultimately have "\<exists>s'. split_trace demo_trace 0 = Inr (s', 9) \<and>
      map st_expected (st_pairs s') = map (awaited (st_pairs demo_trace)) [0..<4] \<and>
      dir_times 1 (st_pairs s') = 8 \<and> dir_times (-1) (st_pairs s') = 4"
    using split_trace_correct [of demo_trace 0] by (auto simp: first_time_def demo_trace_def sgn_if)
  moreover have "map (awaited (st_pairs demo_trace)) [0..<4] = [0, 0, 120, 50]"
    by (simp add: upt_rec numeral_eq_Suc awaited_def demo_trace_def last_dir_def run_bytes_def sgn_if)
  ultimately show ?thesis by simp
qed



section \<open>Loading a file\<close>

text \<open>What a writer of the trace file prints: a header line, then a row of sizes, one of times
  and one of stop probabilities.\<close>

definition print_row :: "int list \<Rightarrow> byte list" where
  "print_row vs = concat (map (\<lambda>v. print_int v @ [44]) vs)"

definition print_trace :: "st \<Rightarrow> byte list" where
  "print_trace s = print_int (st_clusterid s) @ [44] @ print_int (int (st_tracelen s)) @ [44, 10] @
     print_row (map st_size (st_pairs s)) @ [10] @ print_row (map st_time (st_pairs s)) @ [10] @
     print_row (map (\<lambda>p. uint (st_sprob p)) (st_pairs s)) @ [10]"

definition printable :: "nat \<Rightarrow> st \<Rightarrow> bool" where
  "printable n s \<longleftrightarrow> 0 < st_clusterid s \<and> st_clusterid s \<le> int n \<and> int_range (st_clusterid s) \<and>
     st_tracelen s = length (st_pairs s) \<and> st_pairs s \<noteq> [] \<and> int_range (int (st_tracelen s)) \<and>
     list_all (\<lambda>p. int_range (st_size p) \<and> int_range (st_time p) \<and> int_range (uint (st_sprob p)) \<and>
       st_expected p = 0) (st_pairs s)"

lemma scan_cell: "int_range v \<Longrightarrow> fscanf [DInt, DLit 44] (print_int v @ 44 # r) = ([VInt v], r)"
  by (simp add: scan_print_int not_digit_sep)

lemma read_row_print:
  assumes "list_all int_range vs" and "length ps = j + length vs"
  shows "read_row store (length vs) j ps (print_row vs @ r) = (True, take j ps @ map2 store vs (drop j ps), r)"
  using assms
proof (induction vs arbitrary: j ps)
  case (Cons v vs)
  let ?q = "ps[j := store v (ps ! j)]"
  have l: "j < length ps" using Cons.prems(2) by simp
  have "take (Suc j) ?q = take j ps @ [store v (ps ! j)]" using l by (simp add: take_upd_Suc)
  moreover have "drop j ps = ps ! j # drop (Suc j) ps" using l by (simp add: Cons_nth_drop_Suc)
  ultimately show ?case
    using Cons.IH [of ?q "Suc j"] Cons.prems scan_cell [of v "print_row vs @ r"]
    by (simp add: print_row_def scan_print_int not_digit_sep)
qed (simp add: print_row_def)

lemma skip_char_Cons [simp]: "skip_char (c # r) = r"
  by (simp add: skip_char_def)

lemma read_pairs_print:
  assumes "printable n s"
  shows "read_pairs junk (st_tracelen s) (print_row (map st_size (st_pairs s)) @ [10] @
      print_row (map st_time (st_pairs s)) @ [10] @
      print_row (map (\<lambda>p. uint (st_sprob p)) (st_pairs s)) @ [10] @ r) = (True, st_pairs s, r)"
proof -
  let ?ps = "st_pairs s"
  have len: "st_tracelen s = length ?ps" using assms by (simp add: printable_def)
  have ok: "list_all int_range (map st_size ?ps)" "list_all int_range (map st_time ?ps)"
    "list_all int_range (map (\<lambda>p. uint (st_sprob p)) ?ps)" "\<forall>p \<in> set ?ps. st_expected p = 0"
    using assms by (auto simp: printable_def list_all_iff)
  let ?a = "map2 store_size (map st_size ?ps) (replicate (length ?ps) junk)"
  let ?b = "map2 store_time (map st_time ?ps) ?a"
  have "map2 store_prob (map (\<lambda>p. uint (st_sprob p)) ?ps) ?b = ?ps"
    using ok(4) by (intro nth_equalityI) (simp_all add: store_prob_def store_time_def store_size_def)
  then show ?thesis
    using read_row_print [OF ok(1), of "replicate (length ?ps) junk" 0 store_size]
      read_row_print [OF ok(2), of ?a 0 store_time] read_row_print [OF ok(3), of ?b 0 store_prob]
    by (simp add: read_pairs_def Let_def len)
qed

lemma row_start:
  assumes "list_all int_range vs" and "vs \<noteq> []"
  shows "dropWhile isspace (print_row vs @ r) = print_row vs @ r"
proof (cases vs)
  case (Cons v ws)
  have "\<not> isspace (hd (print_int v @ q))" for q
  proof (cases "v < 0")
    case True
    then show ?thesis by (simp add: print_int_def isspace_def word_le_nat_alt)
  next
    case False
    then show ?thesis using not_space_digit(1) [OF hd_print_nat] by (simp add: print_int_def)
  qed
  from this [of "44 # concat (map (\<lambda>v. print_int v @ [44]) ws) @ r"] Cons show ?thesis
    by (simp add: print_row_def dropWhile_eq_self_iff)
qed (use assms(2) in simp)

lemma scan_header:
  assumes "printable n s"
  shows "fscanf [DInt, DLit 44, DInt, DLit 44, DWs] (print_trace s @ r) =
    ([VInt (st_clusterid s), VInt (int (st_tracelen s))],
     print_row (map st_size (st_pairs s)) @ [10] @ print_row (map st_time (st_pairs s)) @ [10] @
     print_row (map (\<lambda>p. uint (st_sprob p)) (st_pairs s)) @ [10] @ r)"
proof -
  let ?rest = "[10] @ print_row (map st_time (st_pairs s)) @ [10] @
     print_row (map (\<lambda>p. uint (st_sprob p)) (st_pairs s)) @ [10] @ r"
  have "list_all int_range (map st_size (st_pairs s))" "map st_size (st_pairs s) \<noteq> []"
    using assms by (auto simp: printable_def list_all_iff)
  moreover have "int_range (st_clusterid s)" "int_range (int (st_tracelen s))"
    using assms unfolding printable_def by blast+
  ultimately show ?thesis
    using row_start [of "map st_size (st_pairs s)" ?rest] scan_counts
    by (simp add: print_trace_def del: fscanf.simps)
qed

lemma load_loop_print:
  assumes "list_all (printable n) ts" and "length ss = Suc n"
  shows "load_loop junk (length ts) ss (concat (map print_trace ts)) =
    Inr (fold (\<lambda>s ss. ss[nat (st_clusterid s) := Some s]) ts ss)"
  using assms
proof (induction ts arbitrary: ss)
  case (Cons s ts)
  then have s: "printable n s" by simp
  then have id_ok: "nat (st_clusterid s) < length ss" "0 < st_clusterid s"
    using Cons.prems(2) by (simp_all add: printable_def less_Suc_eq_le nat_le_iff)
  have surj: "\<lparr>st_clusterid = st_clusterid s, st_tracelen = st_tracelen s, st_pairs = st_pairs s\<rparr> = s"
    by simp
  show ?case
    using id_ok scan_header [OF s] read_pairs_print [OF s, of junk "concat (map print_trace ts)"]
    s Cons by (simp add: not_le del: fscanf.simps) (simp only: surj)
qed simp

lemma fold_store:
  assumes "distinct (map st_clusterid ts)" and "\<forall>s \<in> set ts. 0 < st_clusterid s \<and> st_clusterid s \<le> int n"
    and "length ss = Suc n"
  shows "length (fold (\<lambda>s ss. ss[nat (st_clusterid s) := Some s]) ts ss) = Suc n \<and>
    (\<forall>s \<in> set ts. fold (\<lambda>s ss. ss[nat (st_clusterid s) := Some s]) ts ss ! nat (st_clusterid s) = Some s) \<and>
    (\<forall>i \<le> n. i \<notin> (nat \<circ> st_clusterid) ` set ts \<longrightarrow>
      fold (\<lambda>s ss. ss[nat (st_clusterid s) := Some s]) ts ss ! i = ss ! i)"
  using assms
proof (induction ts arbitrary: ss)
  case (Cons s ts)
  let ?q = "ss[nat (st_clusterid s) := Some s]"
  have "nat (st_clusterid s) \<notin> (nat \<circ> st_clusterid) ` set ts"
    using Cons.prems(1,2) by (force simp: eq_nat_nat_iff)
  moreover have "nat (st_clusterid s) \<le> n" using Cons.prems(2) by (simp add: nat_le_iff)
  ultimately show ?case using Cons.IH [of ?q] Cons.prems by auto
qed simp

lemma load_printed:
  assumes "list_all (printable n) ts" and "length ts = n" and "distinct (map st_clusterid ts)"
  shows "\<exists>ss. load_st junk (Some (concat (map print_trace ts))) (int n) = Inr (Some ss) \<and>
    length ss = Suc n \<and> (\<forall>s \<in> set ts. ss ! nat (st_clusterid s) = Some s)"
proof -
  let ?e = "replicate (nat (int n + 1)) None :: straces"
  have l: "length ?e = Suc n" by simp
  have "\<forall>s \<in> set ts. 0 < st_clusterid s \<and> st_clusterid s \<le> int n"
    using assms(1) by (simp add: list_all_iff printable_def)
  with load_loop_print [OF assms(1) l] fold_store [OF assms(3) _ l] assms(2) show ?thesis
    by (simp add: load_st_def)
qed

text \<open>C34: \<open>load_st\<close> reads back what was printed: for a file with one non-empty trace for each of
  the clusters 1 to n, in any order, it returns an array that holds every trace under the
  number of its cluster, and no access leaves the array.\<close>

theorem load_st_reads_printed:
  assumes "list_all (printable n) ts" and "length ts = n" and "distinct (map st_clusterid ts)"
  shows "\<exists>ss. load_st junk (Some (concat (map print_trace ts))) (int n) = Inr (Some ss) \<and>
    length ss = Suc n \<and> (\<forall>s \<in> set ts. ss ! nat (st_clusterid s) = Some s)"
  using assms by (rule load_printed)

theorem load_st_reads_printed_witness:
  "\<exists>ss. load_st \<lparr>st_size = 7, st_time = 7, st_sprob = 7, st_expected = 7\<rparr>
     (Some (print_trace demo_trace)) 1 = Inr (Some ss) \<and> ss ! 1 = Some demo_trace"
  using load_st_reads_printed [of 1 "[demo_trace]" "\<lparr>st_size = 7, st_time = 7, st_sprob = 7, st_expected = 7\<rparr>"]
  by (auto simp: printable_def demo_trace_def int_range_def)

section \<open>Preparing all traces\<close>

text \<open>A trace with packets in both directions, as loaded or as merged.\<close>

definition two_way :: "st \<Rightarrow> bool" where
  "two_way s \<longleftrightarrow> st_tracelen s = length (st_pairs s) \<and> (\<forall>p \<in> set (st_pairs s). st_expected p = 0) \<and>
     0 < up_bytes (st_pairs s) \<and> 0 < down_bytes (st_pairs s)"

lemma pos_sum_ex:
  fixes f :: "'a \<Rightarrow> int"
  shows "0 < (\<Sum>x\<leftarrow>xs. max 0 (f x)) \<Longrightarrow> list_ex (\<lambda>x. 0 < f x) xs"
proof (induction xs)
  case (Cons a xs)
  show ?case
  proof (cases "0 < f a")
    case False
    then have "max 0 (f a) = 0" by simp
    with Cons show ?thesis by simp
  qed simp
qed simp

lemma two_way_dirs:
  assumes "two_way s"
  shows "list_ex (\<lambda>p. sgn (st_size p) = 1) (st_pairs s)" and "list_ex (\<lambda>p. sgn (st_size p) = -1) (st_pairs s)"
  using assms pos_sum_ex [of st_size "st_pairs s"] pos_sum_ex [of "\<lambda>p. - st_size p" "st_pairs s"]
  by (simp_all add: two_way_def up_bytes_def down_bytes_def sgn_1_pos sgn_1_neg)

lemma bytes_of_sizes:
  assumes "map st_size xs = map st_size ys"
  shows "up_bytes xs = up_bytes ys" and "down_bytes xs = down_bytes ys"
proof -
  have "map (\<lambda>x. max 0 (- x)) (map st_size xs) = map (\<lambda>x. max 0 (- x)) (map st_size ys)"
    "map (\<lambda>x. max 0 x) (map st_size xs) = map (\<lambda>x. max 0 x) (map st_size ys)"
    using assms by simp_all
  then show "up_bytes xs = up_bytes ys" "down_bytes xs = down_bytes ys"
    unfolding up_bytes_def down_bytes_def by (simp_all add: comp_def)
qed

lemma split_trace_sizes:
  assumes t: "two_way s"
  shows "\<exists>s' lv. split_trace s prev = Inr (s', lv) \<and> st_clusterid s' = st_clusterid s \<and>
    st_tracelen s' = st_tracelen s \<and> map st_size (st_pairs s') = map st_size (st_pairs s)"
proof -
  let ?ps = "st_pairs s" and ?v = "split_loop (st_pairs s) (st_tracelen s)"
  have len: "st_tracelen s = length ?ps" and z: "\<forall>p \<in> set ?ps. st_expected p = 0"
    using t by (auto simp: two_way_def)
  have inv: "split_inv ?ps (length ?ps) ?v"
    and dinv: "split_dir_inv 1 ?ps (length ?ps) ?v" "split_dir_inv (-1) ?ps (length ?ps) ?v"
    using split_loop_inv [OF z order.refl] len by auto
  have L: "length (sp_pairs ?v) = length ?ps" "map st_size (sp_pairs ?v) = map st_size ?ps"
    using inv by (simp_all add: split_inv_def)
  obtain p q where "sp_pos ?v = Some p" "sp_neg ?v = Some q"
    using split_found [OF dinv(1) two_way_dirs(1) [OF t] L(1)] split_found [OF dinv(2) two_way_dirs(2) [OF t] L(1)]
    by (auto simp: sp_dir_def)
  then show ?thesis using L(2) by (simp add: split_trace_def Let_def close_gap_def upd_same_map)
qed

lemma merge_expected: "map st_expected (merge_into s e ps) = map st_expected ps"
  unfolding merge_into_def Let_def by (subst upd_same_map, simp)+ simp

lemma refresh_inner_expected:
  "map st_expected (snd (refresh_inner ps len s e stime ssize)) = map st_expected ps"
proof (induction ps len s e stime ssize rule: refresh_inner.induct)
  case (1 ps len s e stime ssize)
  then show ?case by (subst refresh_inner.simps) (simp add: merge_expected)
qed

lemma refresh_outer_expected: "map st_expected (refresh_outer ps len e) = map st_expected ps"
proof (induction ps len e rule: refresh_outer.induct)
  case (1 ps len e)
  obtain e' ps' where r: "refresh_inner ps len e (Suc e) (word_of_int (st_time (ps ! e))) (st_size (ps ! e)) = (e', ps')"
    by fastforce
  then have "map st_expected ps' = map st_expected ps"
    using refresh_inner_expected [of ps len e "Suc e"] by (metis snd_conv)
  with 1 [OF _ r [symmetric] refl] r show ?case by (subst refresh_outer.simps) simp
qed

lemma rel_loop_expected: "map st_expected (rel_loop n ps) = map st_expected ps"
  by (induction n arbitrary: ps) (simp_all add: upd_same_map)

lemma rel_trace_two_way:
  assumes "trace_ok s" and "two_way s"
  shows "two_way (rel_trace s)" and "st_clusterid (rel_trace s) = st_clusterid s"
    and "st_tracelen (rel_trace s) = st_tracelen s"
proof -
  show "st_clusterid (rel_trace s) = st_clusterid s" "st_tracelen (rel_trace s) = st_tracelen s"
    by (simp_all add: rel_trace_def)
  have "map st_expected (st_pairs (rel_trace s)) = map st_expected (st_pairs s)"
    by (simp add: rel_trace_def refresh_trace_def refresh_outer_expected rel_loop_expected)
  then have "st_expected ` set (st_pairs (rel_trace s)) = st_expected ` set (st_pairs s)"
    by (metis image_set)
  then have "\<forall>p \<in> set (st_pairs (rel_trace s)). st_expected p = 0"
    using assms(2) by (auto simp: two_way_def)
  then show "two_way (rel_trace s)"
    using rel_trace_bytes [OF assms(1)] assms(2) by (simp add: two_way_def rel_trace_def)
qed

lemma change_loop_spec:
  assumes "distinct is" and "\<forall>i \<in> set is. i < length ss \<and> ss ! i = Some (t i)"
  shows "\<exists>ss'. change_loop is ss = Inr ss' \<and> length ss' = length ss \<and>
    (\<forall>i \<in> set is. ss' ! i = Some (rel_trace (t i))) \<and> (\<forall>i. i \<notin> set is \<longrightarrow> ss' ! i = ss ! i)"
  using assms
proof (induction "is" arbitrary: ss)
  case (Cons i "is")
  let ?q = "ss[i := Some (rel_trace (t i))]"
  have "\<forall>j \<in> set is. j < length ?q \<and> ?q ! j = Some (t j)"
    using Cons.prems by (auto simp: nth_list_update)
  from Cons.IH [OF _ this] Cons.prems obtain ss' where ss': "change_loop is ?q = Inr ss'" "length ss' = length ss"
    "\<forall>j \<in> set is. ss' ! j = Some (rel_trace (t j))" "\<forall>j. j \<notin> set is \<longrightarrow> ss' ! j = ?q ! j" by auto
  then show ?case using Cons.prems by (intro exI [of _ ss']) auto
qed simp

lemma split_clusters_spec:
  assumes "distinct is" and "\<forall>i \<in> set is. i < length ss \<and> ss ! i = Some (t i) \<and> two_way (t i)"
  shows "\<exists>ss'. split_clusters is ss lv = Inr ss' \<and> length ss' = length ss \<and>
    (\<forall>i \<in> set is. \<exists>s'. ss' ! i = Some s' \<and> st_tracelen s' = st_tracelen (t i) \<and>
      map st_size (st_pairs s') = map st_size (st_pairs (t i))) \<and> (\<forall>i. i \<notin> set is \<longrightarrow> ss' ! i = ss ! i)"
  using assms
proof (induction "is" arbitrary: ss lv)
  case (Cons i "is")
  then have "two_way (t i)" by simp
  from split_trace_sizes [OF this, of lv] obtain s' lv' where s': "split_trace (t i) lv = Inr (s', lv')"
    "st_tracelen s' = st_tracelen (t i)" "map st_size (st_pairs s') = map st_size (st_pairs (t i))" by blast
  let ?q = "ss[i := Some s']"
  have "\<forall>j \<in> set is. j < length ?q \<and> ?q ! j = Some (t j) \<and> two_way (t j)"
    using Cons.prems by (auto simp: nth_list_update)
  from Cons.IH [OF _ this, of lv'] Cons.prems obtain ss' where
    ss': "split_clusters is ?q lv' = Inr ss'" "length ss' = length ss"
    "\<forall>j \<in> set is. \<exists>s'. ss' ! j = Some s' \<and> st_tracelen s' = st_tracelen (t j) \<and>
      map st_size (st_pairs s') = map st_size (st_pairs (t j))"
    "\<forall>j. j \<notin> set is \<longrightarrow> ss' ! j = ?q ! j" by auto
  have "ss' ! i = Some s'" using ss'(4) Cons.prems by simp
  then show ?case using ss' s' Cons.prems by (intro exI [of _ ss']) auto
qed simp

end
