(* ===== verification/Tau.thy ===== *)
theory Tau
  imports Prelude "HOL-Library.Multiset"
begin

text \<open>
  The adaptive sending interval of CSBuFLO, \<open>misc.c\<close> lines 67-84 and 581-829: the times at
  which real data left are collected in a ring buffer, each burst turns them into interval
  samples in a second ring buffer, and when the number of bytes sent reaches a boundary the
  median of the samples, rounded down to a power of two, becomes the new interval tau.

  \<open>long\<close>s are mathematical integers; \<open>unsigned long long\<close>s are 64 bit words. The wall clock is
  a parameter of the operations that read it.
\<close>

section \<open>State\<close>

abbreviation ARRSIZE :: nat where "ARRSIZE \<equiv> 1000"
abbreviation TARGET_QUEUE_LEN :: int where "TARGET_QUEUE_LEN \<equiv> 548"
abbreviation INITIAL_TAU :: int where "INITIAL_TAU \<equiv> 8192"
abbreviation LOWER_TAU :: int where "LOWER_TAU \<equiv> 4096"
abbreviation UPPER_TAU :: int where "UPPER_TAU \<equiv> 32768"
abbreviation INITIAL_BOUNDARY :: int where "INITIAL_BOUNDARY \<equiv> 16384"

record tau_state =
  stmode :: int
  onload_flag :: int
  ts_end :: u64
  ts_start :: u64
  tstart_set :: int
  tend_set :: int
  tau_arr :: "int list"
  tau_index :: nat
  tau_size :: nat
  w2w :: int
  time_arr :: "u64 list"
  time_index :: nat
  time_size :: nat

definition tau_state_init :: tau_state where
  "tau_state_init = \<lparr>stmode = -1, onload_flag = 0, ts_end = 0, ts_start = 0, tstart_set = 0, tend_set = 0,
     tau_arr = replicate ARRSIZE 0, tau_index = 0, tau_size = 0, w2w = 0,
     time_arr = replicate ARRSIZE 0, time_index = 0, time_size = 0\<rparr>"

section \<open>Collecting times\<close>

definition insert_time :: "u64 \<Rightarrow> 'a tau_state_scheme \<Rightarrow> 'a tau_state_scheme" where
  "insert_time t s = s\<lparr>time_arr := (time_arr s)[time_index s := t],
     time_index := (time_index s + 1) mod ARRSIZE, time_size := time_size s + 1\<rparr>"

text \<open>\<open>(long)(a - b)\<close> of two \<open>unsigned long long\<close>s.\<close>

definition long_diff :: "u64 \<Rightarrow> u64 \<Rightarrow> int" where
  "long_diff a b = sint (a - b)"

text \<open>The samples, newest first: from a buffer that never wrapped, and from one that did.\<close>

fun intervals_linear :: "u64 list \<Rightarrow> nat \<Rightarrow> int list" where
  "intervals_linear arr 0 = []"
| "intervals_linear arr (Suc i) = long_diff (arr ! Suc i) (arr ! i) # intervals_linear arr i"

definition ring_pre :: "nat \<Rightarrow> nat" where
  "ring_pre i = (if i = 0 then ARRSIZE - 1 else i - 1)"

text \<open>The loop runs until it meets \<open>oldest\<close>; the fuel bounds its rounds.\<close>

fun intervals_ring :: "nat \<Rightarrow> u64 list \<Rightarrow> nat \<Rightarrow> nat \<Rightarrow> int list result" where
  "intervals_ring 0 arr oldest i = (if i = oldest then Inr [] else Inl NoReturn)"
| "intervals_ring (Suc fuel) arr oldest i =
     (if i = oldest then Inr []
      else rbind (intervals_ring fuel arr oldest (ring_pre i))
             (\<lambda>r. Inr (long_diff (arr ! i) (arr ! ring_pre i) # r)))"

definition intervals :: "'a tau_state_scheme \<Rightarrow> int list result" where
  "intervals s =
     (if time_size s \<le> ARRSIZE then Inr (intervals_linear (time_arr s) (time_size s - 1))
      else intervals_ring ARRSIZE (time_arr s) (time_index s) (ring_pre (time_index s)))"

text \<open>C's division of a \<open>long\<close> by 2 rounds towards 0.\<close>

definition half :: "int \<Rightarrow> int" where
  "half x = (if x \<ge> 0 then x div 2 else - ((- x) div 2))"

definition default_tau :: "u64 \<Rightarrow> u64 \<Rightarrow> bool \<Rightarrow> int" where
  "default_tau start stop is_client =
     (if is_client then half (long_diff stop start + UPPER_TAU) else long_diff stop start)"

definition clamp_tau :: "int \<Rightarrow> int" where
  "clamp_tau tau = (if tau < LOWER_TAU then LOWER_TAU else if tau > UPPER_TAU then UPPER_TAU else tau)"

definition store_tau :: "int \<Rightarrow> 'a tau_state_scheme \<Rightarrow> 'a tau_state_scheme" where
  "store_tau tau s = s\<lparr>tau_arr := (tau_arr s)[tau_index s := tau],
     tau_size := (if tau_size s < ARRSIZE then tau_size s + 1 else tau_size s),
     tau_index := (tau_index s + 1) mod ARRSIZE\<rparr>"

definition interval_tau :: "u64 \<Rightarrow> u64 \<Rightarrow> bool \<Rightarrow> int \<Rightarrow> int" where
  "interval_tau start stop is_client tau =
     clamp_tau (if tau = 0 then default_tau start stop is_client else tau)"

definition update_tau_interval ::
    "u64 \<Rightarrow> u64 \<Rightarrow> int \<Rightarrow> bool \<Rightarrow> 'a tau_state_scheme \<Rightarrow> 'a tau_state_scheme result" where
  "update_tau_interval start stop cur_total_realsent_bytes is_client s =
     (if start \<ge> stop then Inr s
      else let s1 = (if cur_total_realsent_bytes > 0 then insert_time stop s else s) in
        rbind (intervals s1) (\<lambda>arr.
          let s2 = s1\<lparr>time_index := 0, time_size := 0\<rparr>;
              s3 = (if arr = [] then store_tau (clamp_tau (default_tau start stop is_client)) s2 else s2)
          in Inr (fold (\<lambda>tau. store_tau (interval_tau start stop is_client tau)) arr s3)))"

section \<open>The median\<close>

text \<open>\<open>comp_long\<close> returns the difference of two \<open>long\<close>s as an \<open>int\<close>.\<close>

definition comp_long :: "int \<Rightarrow> int \<Rightarrow> int" where
  "comp_long a b = sint (ucast (word_of_int a - word_of_int b :: u64) :: 32 word)"

fun insert_cmp :: "(int \<Rightarrow> int \<Rightarrow> int) \<Rightarrow> int \<Rightarrow> int list \<Rightarrow> int list" where
  "insert_cmp cmp x [] = [x]"
| "insert_cmp cmp x (y # ys) = (if cmp x y \<le> 0 then x # y # ys else y # insert_cmp cmp x ys)"

definition qsort :: "(int \<Rightarrow> int \<Rightarrow> int) \<Rightarrow> int list \<Rightarrow> int list" where
  "qsort cmp xs = foldr (insert_cmp cmp) xs []"

fun pow2_floor :: "nat \<Rightarrow> nat" where
  "pow2_floor n = (if n < 2 then 1 else 2 * pow2_floor (n div 2))"

declare pow2_floor.simps [simp del]

text \<open>
  \<open>(long)pow(2, floor(log2(x)))\<close>: for a positive \<open>x\<close> the largest power of two up to \<open>x\<close>, for 0 the
  conversion of \<open>pow(2, -inf) = 0\<close>, for a negative one the conversion of a NaN, which is
  undefined.
\<close>

definition pow_floor_log2 :: "int \<Rightarrow> int result" where
  "pow_floor_log2 x =
     (if x < 0 then Inl (MemFault ''conversion of NaN'') else if x = 0 then Inr 0
      else Inr (int (pow2_floor (nat x))))"

definition update_tau_median ::
    "int \<Rightarrow> int \<Rightarrow> int \<Rightarrow> 'a tau_state_scheme \<Rightarrow> (int \<times> int \<times> 'a tau_state_scheme) result" where
  "update_tau_median tau boundary total_sent_bytes s =
     (if total_sent_bytes < boundary then Inr (tau, boundary, s)
      else let arr = qsort comp_long (take (tau_size s) (tau_arr s)) @ drop (tau_size s) (tau_arr s) in
        rbind (if tau_size s = 0 then Inr UPPER_TAU else pow_floor_log2 (arr ! (tau_size s div 2)))
          (\<lambda>new_tau. Inr (new_tau, boundary * 2, s\<lparr>tau_arr := arr, tau_size := 0, tau_index := 0\<rparr>)))"

section \<open>Waiting\<close>

definition get_current_time_usecs :: "u64 \<Rightarrow> u64 \<Rightarrow> u64" where
  "get_current_time_usecs tv_sec tv_usec = tv_sec * 1000000 + tv_usec"

text \<open>Returns whether to poll for writing and, if not, the timeout (seconds, microseconds).\<close>

definition should_set_writefd :: "u64 \<Rightarrow> bool \<Rightarrow> u64 \<Rightarrow> 'a tau_state_scheme \<Rightarrow> bool \<times> (u64 \<times> u64) option" where
  "should_set_writefd now truly_idle time_to_write s =
     (if stmode s = 0 \<and> truly_idle then (False, Some (5, 0))
      else if time_to_write < now then (True, None)
      else let diff = time_to_write - now in (False, Some (diff div 1000000, diff mod 1000000)))"

text \<open>Returns the answer and the new start of the idle period.\<close>

definition channel_idle :: "u64 \<Rightarrow> int \<Rightarrow> int \<Rightarrow> u64 \<Rightarrow> 'a tau_state_scheme \<Rightarrow> bool \<times> u64" where
  "channel_idle now buf_len outbuf_remain idle_start s =
     (let idle_start = (if buf_len - outbuf_remain \<ge> 32 then now else idle_start) in
      (idle_start + 2000000 < now \<or> onload_flag s = 1, idle_start))"

section \<open>Ring buffers\<close>

text \<open>
  \<open>arr\<close> and the write position \<open>i\<close> hold the last \<open>ARRSIZE\<close> elements of \<open>hist\<close>, the sequence of
  everything stored since the position was last reset.
\<close>

definition ring_repr :: "'a list \<Rightarrow> nat \<Rightarrow> 'a list \<Rightarrow> bool" where
  "ring_repr arr i hist \<longleftrightarrow> length arr = ARRSIZE \<and> i = length hist mod ARRSIZE \<and>
     (\<forall>k < length hist. length hist \<le> k + ARRSIZE \<longrightarrow> arr ! (k mod ARRSIZE) = hist ! k) \<and>
     mset (take (min ARRSIZE (length hist)) arr) = mset (drop (length hist - ARRSIZE) hist)"

lemma ring_repr_Nil: "length arr = ARRSIZE \<Longrightarrow> ring_repr arr 0 []"
  by (simp add: ring_repr_def)

lemma mod_same_close:
  assumes "(k :: nat) < n" and "n \<le> k + ARRSIZE" and "k mod ARRSIZE = n mod ARRSIZE"
  shows "k + ARRSIZE = n"
proof -
  have "ARRSIZE dvd n - k" using assms(1,3) by (metis mod_eq_dvd_iff_nat less_imp_le)
  then obtain c where "n - k = ARRSIZE * c" by (auto elim: dvdE)
  then show ?thesis using assms(1,2) by (cases c) auto
qed

lemma ring_repr_push:
  assumes r: "ring_repr arr i hist"
  shows "ring_repr (arr[i := x]) ((i + 1) mod ARRSIZE) (hist @ [x])"
proof -
  let ?n = "length hist"
  have len: "length arr = ARRSIZE" and i: "i = ?n mod ARRSIZE" and lt: "i < ARRSIZE"
    and nth: "\<And>k. k < ?n \<Longrightarrow> ?n \<le> k + ARRSIZE \<Longrightarrow> arr ! (k mod ARRSIZE) = hist ! k"
    and ms: "mset (take (min ARRSIZE ?n) arr) = mset (drop (?n - ARRSIZE) hist)"
    using r by (auto simp: ring_repr_def)
  have "arr[i := x] ! (k mod ARRSIZE) = (hist @ [x]) ! k" if k: "k < Suc ?n" "Suc ?n \<le> k + ARRSIZE" for k
  proof (cases "k = ?n")
    case True
    then show ?thesis using len i lt by simp
  next
    case False
    then have "k mod ARRSIZE \<noteq> i" using mod_same_close [of k ?n] k i by auto
    then show ?thesis using nth [of k] k False by (simp add: nth_append)
  qed
  moreover have "mset (take (min ARRSIZE (Suc ?n)) (arr[i := x])) = mset (drop (Suc ?n - ARRSIZE) (hist @ [x]))"
  proof (cases "?n < ARRSIZE")
    case True
    then have "i = ?n" using i by simp
    moreover have "take (Suc ?n) (arr[?n := x]) = take ?n arr @ [x]"
      using True len by (simp add: take_Suc_conv_app_nth)
    ultimately show ?thesis using True ms by simp
  next
    case False
    let ?o = "?n - ARRSIZE"
    have "i = ?o mod ARRSIZE" using False i by (metis le_mod_geq not_less)
    then have "arr ! i = hist ! ?o" using nth [of ?o] False by simp
    moreover have "mset (arr[i := x]) = add_mset x (mset arr - {#arr ! i#})" using lt len by (simp add: mset_update)
    moreover have "drop ?o hist = hist ! ?o # drop (Suc ?o) hist" using False by (simp add: Cons_nth_drop_Suc)
    moreover have "mset arr = mset (drop ?o hist)" using False ms len by (simp add: min_def split: if_splits)
    ultimately have "mset (arr[i := x]) = add_mset x (mset (drop (Suc ?o) hist))" by simp
    moreover have "Suc ?n - ARRSIZE = Suc ?o" using False by simp
    ultimately show ?thesis using False len by simp
  qed
  ultimately show ?thesis using len i by (simp add: ring_repr_def mod_Suc_eq)
qed

section \<open>The samples of a burst\<close>

text \<open>The times stored since the last reset, as a list, and the gaps between them, newest first.\<close>

definition time_repr :: "'a tau_state_scheme \<Rightarrow> u64 list \<Rightarrow> bool" where
  "time_repr s hist \<longleftrightarrow> ring_repr (time_arr s) (time_index s) hist \<and> time_size s = length hist"

definition gaps :: "u64 list \<Rightarrow> int list" where
  "gaps ts = rev (map (\<lambda>k. long_diff (ts ! Suc k) (ts ! k)) [0..<length ts - 1])"

definition recent :: "'a list \<Rightarrow> 'a list" where
  "recent hist = drop (length hist - ARRSIZE) hist"

lemma intervals_linear_eq: "intervals_linear arr n = rev (map (\<lambda>k. long_diff (arr ! Suc k) (arr ! k)) [0..<n])"
  by (induction n) simp_all

lemma ring_pre_mod: "0 < m \<Longrightarrow> ring_pre (m mod ARRSIZE) = (m - 1) mod ARRSIZE"
proof -
  assume "0 < m"
  then obtain k where k: "m = Suc k" by (cases m) auto
  show ?thesis
  proof (cases "Suc k mod ARRSIZE = 0")
    case True
    then have "k mod ARRSIZE = ARRSIZE - 1" by (simp add: mod_Suc split: if_splits)
    then show ?thesis using k True by (simp add: ring_pre_def)
  next
    case False
    then show ?thesis using k by (simp add: ring_pre_def mod_Suc split: if_splits)
  qed
qed

lemma intervals_ring_eq:
  assumes r: "ring_repr arr i hist" and n: "n = length hist" "ARRSIZE \<le> n"
    and m: "n - ARRSIZE \<le> m" "m < n" "m - (n - ARRSIZE) \<le> fuel"
  shows "intervals_ring fuel arr (n mod ARRSIZE) (m mod ARRSIZE) =
    Inr (rev (map (\<lambda>k. long_diff (hist ! Suc k) (hist ! k)) [n - ARRSIZE..<m]))"
  using m
proof (induction fuel arbitrary: m)
  case 0
  then have "m = n - ARRSIZE" by simp
  then have "m mod ARRSIZE = n mod ARRSIZE" using n(2) by (simp add: le_mod_geq)
  then show ?case using 0 by simp
next
  case (Suc fuel)
  show ?case
  proof (cases "m = n - ARRSIZE")
    case True
    then have "m mod ARRSIZE = n mod ARRSIZE" using n(2) by (simp add: le_mod_geq)
    then show ?thesis using True by simp
  next
    case False
    moreover have "n \<le> m + ARRSIZE" using Suc.prems(1) by linarith
    ultimately have ne: "m mod ARRSIZE \<noteq> n mod ARRSIZE"
      using mod_same_close [of m n] Suc.prems(2) by auto
    have pos: "0 < m" and lo: "n - ARRSIZE \<le> m - 1" using False Suc.prems(1) by auto
    then have m1: "[n - ARRSIZE..<m] = [n - ARRSIZE..<m - 1] @ [m - 1]"
      by (metis Suc_pred' upt_Suc_append)
    have "arr ! (m mod ARRSIZE) = hist ! m" "arr ! ((m - 1) mod ARRSIZE) = hist ! (m - 1)"
      using r n Suc.prems lo by (auto simp: ring_repr_def)
    then show ?thesis using Suc.IH [of "m - 1"] Suc.prems lo pos ne m1 by (simp add: ring_pre_mod)
  qed
qed

lemma gaps_recent:
  "gaps (recent hist) = rev (map (\<lambda>k. long_diff (hist ! Suc k) (hist ! k)) [length hist - ARRSIZE..<length hist - 1])"
proof -
  let ?d = "length hist - ARRSIZE"
  have "map (\<lambda>k. long_diff (hist ! Suc k) (hist ! k)) [?d..<length hist - 1] =
      map (\<lambda>k. long_diff (recent hist ! Suc k) (recent hist ! k)) [0..<length (recent hist) - 1]"
  proof (rule nth_equalityI)
    fix j assume "j < length (map (\<lambda>k. long_diff (hist ! Suc k) (hist ! k)) [?d..<length hist - 1])"
    then show "map (\<lambda>k. long_diff (hist ! Suc k) (hist ! k)) [?d..<length hist - 1] ! j =
        map (\<lambda>k. long_diff (recent hist ! Suc k) (recent hist ! k)) [0..<length (recent hist) - 1] ! j"
      by (simp add: recent_def)
  qed (simp add: recent_def)
  then show ?thesis by (simp add: gaps_def)
qed

lemma intervals_spec:
  assumes "time_repr s hist"
  shows "intervals s = Inr (gaps (recent hist))"
proof (cases "length hist \<le> ARRSIZE")
  case True
  have "time_arr s ! k = hist ! k" if "k < length hist" for k
  proof -
    have "time_arr s ! (k mod ARRSIZE) = hist ! k"
      using assms True that by (auto simp: time_repr_def ring_repr_def)
    then show ?thesis using that True by simp
  qed
  then have "map (\<lambda>k. long_diff (time_arr s ! Suc k) (time_arr s ! k)) [0..<length hist - 1] =
      map (\<lambda>k. long_diff (hist ! Suc k) (hist ! k)) [0..<length hist - 1]" by auto
  then show ?thesis using assms True
    by (simp add: intervals_def time_repr_def intervals_linear_eq gaps_recent)
next
  case False
  then have ne: "0 < length hist" by linarith
  then have "ring_pre (time_index s) = (length hist - 1) mod ARRSIZE"
    using assms ring_pre_mod [OF ne] by (simp add: time_repr_def ring_repr_def)
  moreover have "ring_repr (time_arr s) (time_index s) hist" "ARRSIZE \<le> length hist"
    "length hist - ARRSIZE \<le> length hist - 1" "length hist - 1 < length hist"
    "length hist - 1 - (length hist - ARRSIZE) \<le> ARRSIZE"
    using assms False ne by (auto simp: time_repr_def)
  note intervals_ring_eq [OF this(1) refl this(2-5)]
  ultimately show ?thesis
    using assms False by (simp add: intervals_def time_repr_def ring_repr_def gaps_recent)
qed

text \<open>The samples stored since the last update of tau.\<close>

definition tau_repr :: "'a tau_state_scheme \<Rightarrow> int list \<Rightarrow> bool" where
  "tau_repr s taus \<longleftrightarrow> ring_repr (tau_arr s) (tau_index s) taus \<and> tau_size s = min ARRSIZE (length taus)"

lemma store_tau_repr: "tau_repr s taus \<Longrightarrow> tau_repr (store_tau t s) (taus @ [t])"
  using ring_repr_push [of "tau_arr s" "tau_index s" taus t] by (auto simp: tau_repr_def store_tau_def)

lemma store_tau_times [simp]: "time_repr (store_tau t s) hist = time_repr s hist"
  by (simp add: time_repr_def store_tau_def)

lemma fold_store_tau:
  "tau_repr s taus \<Longrightarrow> tau_repr (fold (\<lambda>t. store_tau (f t)) ts s) (taus @ map f ts)"
proof (induction ts arbitrary: s taus)
  case (Cons t ts)
  then show ?case using store_tau_repr [of s taus "f t"] by fastforce
qed simp

lemma fold_store_times [simp]: "time_repr (fold (\<lambda>t. store_tau (f t)) ts s) hist = time_repr s hist"
  by (induction ts arbitrary: s) simp_all

lemma insert_time_repr: "time_repr s hist \<Longrightarrow> time_repr (insert_time t s) (hist @ [t])"
  using ring_repr_push [of "time_arr s" "time_index s" hist t] by (simp add: time_repr_def insert_time_def)

lemma insert_time_tau [simp]: "tau_repr (insert_time t s) taus = tau_repr s taus"
  by (simp add: tau_repr_def insert_time_def)

lemma reset_times: "time_repr s hist \<Longrightarrow> time_repr (s\<lparr>time_index := 0, time_size := 0\<rparr>) []"
  by (simp add: time_repr_def ring_repr_Nil) (simp add: ring_repr_def)

lemma reset_tau [simp]: "tau_repr (s\<lparr>time_index := i, time_size := n\<rparr>) taus = tau_repr s taus"
  by (simp add: tau_repr_def)

definition samples :: "u64 \<Rightarrow> u64 \<Rightarrow> bool \<Rightarrow> u64 list \<Rightarrow> int list" where
  "samples start stop is_client hist =
     (let g = gaps (recent hist) in
      if g = [] then [clamp_tau (default_tau start stop is_client)]
      else map (interval_tau start stop is_client) g)"

lemma burst_samples_repr:
  assumes r: "time_repr s1 h" "tau_repr s1 taus"
  shows "\<exists>s'. rbind (intervals s1) (\<lambda>arr.
      let s2 = s1\<lparr>time_index := 0, time_size := 0\<rparr>;
          s3 = (if arr = [] then store_tau (clamp_tau (default_tau start stop is_client)) s2 else s2)
      in Inr (fold (\<lambda>tau. store_tau (interval_tau start stop is_client tau)) arr s3)) = Inr s' \<and>
    time_repr s' [] \<and> tau_repr s' (taus @ samples start stop is_client h)"
proof -
  let ?s2 = "s1\<lparr>time_index := 0, time_size := 0\<rparr>"
  have r2: "time_repr ?s2 []" "tau_repr ?s2 taus" using reset_times [OF r(1)] r(2) by auto
  show ?thesis
  proof (cases "gaps (recent h) = []")
    case True
    then show ?thesis using intervals_spec [OF r(1)] r2 store_tau_repr [OF r2(2)]
      by (simp add: samples_def Let_def)
  next
    case False
    then show ?thesis
      using intervals_spec [OF r(1)] r2 fold_store_tau [OF r2(2), of "interval_tau start stop is_client"]
      by (simp add: samples_def Let_def)
  qed
qed

lemma update_tau_interval_repr:
  assumes "time_repr s hist" and "tau_repr s taus" and "start < stop"
  shows "\<exists>s'. update_tau_interval start stop cur is_client s = Inr s' \<and> time_repr s' [] \<and>
    tau_repr s' (taus @ samples start stop is_client (if cur > 0 then hist @ [stop] else hist))"
proof (cases "cur > 0")
  case True
  then show ?thesis
    using burst_samples_repr [OF insert_time_repr [OF assms(1), of stop], of taus start stop is_client] assms(2,3)
    unfolding update_tau_interval_def by (simp add: Let_def not_le [symmetric])
next
  case False
  then show ?thesis
    using burst_samples_repr [OF assms(1,2), of start stop is_client] assms(3)
    unfolding update_tau_interval_def by (simp add: Let_def not_le [symmetric])
qed

definition tau_range :: "int \<Rightarrow> bool" where
  "tau_range t \<longleftrightarrow> LOWER_TAU \<le> t \<and> t \<le> UPPER_TAU"

lemma clamp_range: "tau_range (clamp_tau t)"
  by (simp add: tau_range_def clamp_tau_def)

lemma samples_range: "list_all tau_range (samples start stop is_client hist)"
  by (simp add: samples_def Let_def interval_tau_def list_all_iff clamp_range)

section \<open>The median of the samples\<close>

lemma comp_long_sign:
  assumes "tau_range a" and "tau_range b"
  shows "comp_long a b \<le> 0 \<longleftrightarrow> a \<le> b"
proof -
  have "(ucast (word_of_int a - word_of_int b :: u64) :: 32 word) = word_of_int (a - b)"
    unfolding wi_hom_sub by (rule ucast_down_wi) (simp add: is_down)
  moreover have "sint (word_of_int v :: 32 word) = v" if "- 100000 < v" "v < 100000" for v
    using that by (simp add: sint_sbintrunc' signed_take_bit_int_eq_self)
  moreover have "- 100000 < a - b" "a - b < 100000" using assms by (auto simp: tau_range_def)
  ultimately have "comp_long a b = a - b" unfolding comp_long_def by (simp only:)
  then show ?thesis by simp
qed

lemma insert_cmp_insort:
  assumes "tau_range x" and "list_all tau_range ys"
  shows "insert_cmp comp_long x ys = insort x ys"
  using assms by (induction ys) (simp_all add: comp_long_sign)

lemma qsort_sort: "list_all tau_range xs \<Longrightarrow> qsort comp_long xs = sort xs"
proof (induction xs)
  case (Cons x xs)
  then have "list_all tau_range (sort xs)" by (simp add: list_all_iff)
  with Cons show ?case by (simp add: qsort_def insert_cmp_insort)
qed (simp add: qsort_def)

lemma pow2_floor_bounds: "0 < n \<Longrightarrow> pow2_floor n \<le> n \<and> n < 2 * pow2_floor n"
proof (induction n rule: pow2_floor.induct)
  case (1 n)
  show ?case
  proof (cases "n < 2")
    case True
    then show ?thesis using "1.prems" by (subst (1 2) pow2_floor.simps) simp
  next
    case False
    then have "pow2_floor (n div 2) \<le> n div 2 \<and> n div 2 < 2 * pow2_floor (n div 2)"
      using "1.IH" by simp
    moreover have "pow2_floor n = 2 * pow2_floor (n div 2)" using False by (subst pow2_floor.simps) simp
    ultimately show ?thesis by linarith
  qed
qed

lemma pow2_floor_pow: "\<exists>k. pow2_floor n = 2 ^ k"
proof (induction n rule: pow2_floor.induct)
  case (1 n)
  show ?case
  proof (cases "n < 2")
    case True
    then show ?thesis by (subst pow2_floor.simps) (auto intro: exI [of _ 0])
  next
    case False
    then obtain k where "pow2_floor (n div 2) = 2 ^ k" using 1 by blast
    then show ?thesis using False by (subst pow2_floor.simps) (auto intro: exI [of _ "Suc k"])
  qed
qed

lemma tau_repr_mset: "tau_repr s taus \<Longrightarrow> mset (take (tau_size s) (tau_arr s)) = mset (recent taus)"
  by (simp add: tau_repr_def ring_repr_def recent_def)

lemma recent_range: "list_all P xs \<Longrightarrow> list_all P (recent xs)"
  unfolding recent_def list_all_iff by (blast dest: in_set_dropD)

lemma length_recent: "length (recent xs) = min ARRSIZE (length xs)"
  by (simp add: recent_def)

lemma recent_Nil [simp]: "recent xs = [] \<longleftrightarrow> xs = []"
  using length_recent [of xs] by (simp add: min_def flip: length_0_conv split: if_splits)

lemma sorted_samples:
  assumes "tau_repr s taus" and "list_all tau_range taus"
  shows "qsort comp_long (take (tau_size s) (tau_arr s)) = sort (recent taus)"
proof -
  have m: "mset (take (tau_size s) (tau_arr s)) = mset (recent taus)" using assms(1) by (rule tau_repr_mset)
  then have "list_all tau_range (take (tau_size s) (tau_arr s))"
    using recent_range [OF assms(2)] unfolding list_all_iff by (metis set_mset_mset)
  then have "qsort comp_long (take (tau_size s) (tau_arr s)) = sort (take (tau_size s) (tau_arr s))"
    by (rule qsort_sort)
  also have "\<dots> = sort (recent taus)" by (rule properties_for_sort) (simp_all add: m)
  finally show ?thesis .
qed

definition median :: "int list \<Rightarrow> int" where
  "median ts = sort ts ! (length ts div 2)"

lemma median_range:
  assumes "list_all tau_range ts" and "ts \<noteq> []"
  shows "tau_range (median ts)"
proof -
  have "length ts div 2 < length (sort ts)" using assms(2) by simp
  then have "sort ts ! (length ts div 2) \<in> set ts" by (metis nth_mem set_sort)
  then show ?thesis using assms(1) by (simp add: median_def list_all_iff)
qed

lemma median_repr:
  assumes r: "tau_repr s taus" and t: "list_all tau_range taus" and b: "boundary \<le> sent"
  shows "\<exists>s'. update_tau_median tau boundary sent s =
      Inr (if taus = [] then UPPER_TAU else int (pow2_floor (nat (median (recent taus)))), boundary * 2, s') \<and>
    tau_repr s' [] \<and> (\<forall>hist. time_repr s hist \<longrightarrow> time_repr s' hist)"
proof -
  let ?arr = "qsort comp_long (take (tau_size s) (tau_arr s)) @ drop (tau_size s) (tau_arr s)"
  have q: "qsort comp_long (take (tau_size s) (tau_arr s)) = sort (recent taus)"
    using sorted_samples [OF r t] .
  have n: "tau_size s = length (recent taus)" and len: "length (tau_arr s) = ARRSIZE"
    using r by (simp_all add: tau_repr_def length_recent ring_repr_def)
  have "length ?arr = ARRSIZE" unfolding q using n len by (simp add: length_recent)
  from ring_repr_Nil [OF this] have "tau_repr (s\<lparr>tau_arr := ?arr, tau_size := 0, tau_index := 0\<rparr>) []"
    by (simp add: tau_repr_def)
  moreover have "?arr ! (tau_size s div 2) = median (recent taus)" if "taus \<noteq> []"
    unfolding q using that by (simp add: nth_append median_def n)
  moreover have "tau_range (median (recent taus))" if "taus \<noteq> []"
    using that median_range [OF recent_range [OF t]] by simp
  moreover have "tau_size s = 0 \<longleftrightarrow> taus = []" using n by simp
  ultimately show ?thesis using b
    by (cases "taus = []")
      (simp_all add: update_tau_median_def Let_def time_repr_def pow_floor_log2_def tau_range_def)
qed

lemma pow2_in_range:
  assumes "tau_range t"
  shows "int (pow2_floor (nat t)) \<in> {4096, 8192, 16384, 32768}"
proof -
  have "0 < nat t" "4096 \<le> nat t" "nat t \<le> 32768" using assms by (auto simp: tau_range_def)
  then have b: "2048 < pow2_floor (nat t)" "pow2_floor (nat t) \<le> 32768"
    using pow2_floor_bounds [of "nat t"] by linarith+
  obtain k where k: "pow2_floor (nat t) = 2 ^ k" using pow2_floor_pow by blast
  have "(2 :: nat) ^ 11 < 2 ^ k" "(2 :: nat) ^ k \<le> 2 ^ 15" using b k by simp_all
  then have "11 < k" "k \<le> 15" by (simp_all only: power_strict_increasing_iff power_increasing_iff one_less_numeral_iff semiring_norm)
  then have "k = 12 \<or> k = 13 \<or> k = 14 \<or> k = 15" by linarith
  then show ?thesis using k by auto
qed

section \<open>Properties\<close>

text \<open>C35: At the end of a burst, \<open>update_tau_interval\<close> turns the gaps between the last
  \<open>ARRSIZE\<close> recorded send times, newest first, into samples (a gap of 0 is replaced by the
  default for the side) and appends them to the samples held since tau was last computed;
  without any gap it appends one default sample. This holds however often either ring
  buffer has wrapped around, the loop over a wrapped buffer ends, and the recorded times
  are reset.\<close>

theorem burst_becomes_samples:
  assumes "time_repr s hist" and "tau_repr s taus" and "start < stop"
  shows "\<exists>s'. update_tau_interval start stop cur is_client s = Inr s' \<and> time_repr s' [] \<and>
    tau_repr s' (taus @ samples start stop is_client (if cur > 0 then hist @ [stop] else hist))"
  using assms by (rule update_tau_interval_repr)

lemma init_repr: "time_repr tau_state_init []" "tau_repr tau_state_init []"
  by (simp_all add: time_repr_def tau_repr_def tau_state_init_def ring_repr_Nil)

theorem burst_becomes_samples_witness:
  "\<exists>s'. update_tau_interval 1000 21000 548 False (insert_time 5000 tau_state_init) = Inr s' \<and>
     tau_repr s' [16000]"
proof -
  have "time_repr (insert_time 5000 tau_state_init) ([] @ [5000])"
    by (rule insert_time_repr) (rule init_repr)
  from burst_becomes_samples [OF this, of "[]" 1000 21000 548 False] init_repr(2)
  show ?thesis
    by (auto simp: samples_def gaps_def recent_def long_diff_def interval_tau_def clamp_tau_def)
qed

text \<open>C36: Once the boundary is reached, the new tau is the largest power of two up to the median
  of the last \<open>ARRSIZE\<close> samples (the upper one of an even number), or \<open>UPPER_TAU\<close> without
  samples; the boundary doubles and the samples start afresh. The comparison function's
  truncation to \<open>int\<close> does not disturb the sorting of samples in range.\<close>

theorem tau_is_rounded_median:
  assumes "tau_repr s taus" and "list_all tau_range taus" and "boundary \<le> sent"
  shows "\<exists>s'. update_tau_median tau boundary sent s =
      Inr (if taus = [] then UPPER_TAU else int (pow2_floor (nat (median (recent taus)))), boundary * 2, s') \<and>
    tau_repr s' []"
  using median_repr [OF assms, of tau] by blast

theorem tau_is_rounded_median_witness:
  "\<exists>s'. update_tau_median 8192 16384 20000 (store_tau 9000 (store_tau 5000 (store_tau 20000 tau_state_init))) =
     Inr (8192, 32768, s')"
proof -
  have "tau_repr (store_tau 9000 (store_tau 5000 (store_tau 20000 tau_state_init))) [20000, 5000, 9000]"
    using store_tau_repr [OF store_tau_repr [OF store_tau_repr [OF init_repr(2), of 20000], of 5000], of 9000]
    by simp
  from tau_is_rounded_median [OF this, of 16384 20000 8192]
  show ?thesis by (auto simp: tau_range_def recent_def median_def pow2_floor.simps)
qed

text \<open>The interval machine: what the client and the server loop do to tau and the boundary.\<close>

inductive tau_step :: "int \<times> int \<times> tau_state \<Rightarrow> int \<times> int \<times> tau_state \<Rightarrow> bool" where
  insert: "tau_step (tau, bd, s) (tau, bd, insert_time t s)"
| interval: "update_tau_interval start stop cur is_client s = Inr s' \<Longrightarrow> tau_step (tau, bd, s) (tau, bd, s')"
| median: "update_tau_median tau bd sent s = Inr (tau', bd', s') \<Longrightarrow> tau_step (tau, bd, s) (tau', bd', s')"
| reset: "tau_step (tau, bd, s) (INITIAL_TAU, INITIAL_BOUNDARY, s)"

definition tau_inv :: "int \<times> int \<times> tau_state \<Rightarrow> bool" where
  "tau_inv = (\<lambda>(tau, bd, s). tau \<in> {4096, 8192, 16384, 32768} \<and> (\<exists>k. bd = INITIAL_BOUNDARY * 2 ^ k) \<and>
     (\<exists>hist. time_repr s hist) \<and> (\<exists>taus. tau_repr s taus \<and> list_all tau_range taus))"

lemma tau_inv_init: "tau_inv (INITIAL_TAU, INITIAL_BOUNDARY, tau_state_init)"
  using init_repr by (fastforce simp: tau_inv_def intro: exI [of _ 0])

lemma tau_inv_interval:
  assumes "tau_inv (tau, bd, s)" and u: "update_tau_interval start stop cur is_client s = Inr s'"
  shows "tau_inv (tau, bd, s')"
proof (cases "start < stop")
  case True
  from assms(1) obtain hist taus where r: "time_repr s hist" "tau_repr s taus" "list_all tau_range taus"
    by (auto simp: tau_inv_def)
  from update_tau_interval_repr [OF r(1,2) True, of cur is_client] u r(3) samples_range
  have "time_repr s' []" "\<exists>taus. tau_repr s' taus \<and> list_all tau_range taus" by force+
  then show ?thesis using assms(1) by (auto simp: tau_inv_def)
next
  case False
  then show ?thesis using assms by (simp add: update_tau_interval_def not_less)
qed

lemma tau_inv_median:
  assumes inv: "tau_inv (tau, bd, s)" and u: "update_tau_median tau bd sent s = Inr (tau', bd', s')"
  shows "tau_inv (tau', bd', s')"
proof (cases "bd \<le> sent")
  case True
  from inv obtain hist taus k where r: "time_repr s hist" "tau_repr s taus" "list_all tau_range taus"
    "bd = INITIAL_BOUNDARY * 2 ^ k" by (auto simp: tau_inv_def)
  from median_repr [OF r(2,3) True, of tau] u r(1)
  have s': "tau' = (if taus = [] then UPPER_TAU else int (pow2_floor (nat (median (recent taus)))))"
    "bd' = bd * 2" "tau_repr s' []" "time_repr s' hist" by auto
  have "tau' \<in> {4096, 8192, 16384, 32768}"
    using s'(1) pow2_in_range [OF median_range [OF recent_range [OF r(3)]]] by auto
  moreover have "bd' = INITIAL_BOUNDARY * 2 ^ Suc k" using s'(2) r(4) by simp
  then have "\<exists>k. bd' = INITIAL_BOUNDARY * 2 ^ k" by blast
  moreover have "list_all tau_range []" by simp
  ultimately show ?thesis unfolding tau_inv_def using s'(3,4) by blast
next
  case False
  then show ?thesis using assms by (simp add: update_tau_median_def)
qed

lemma tau_inv_step: "tau_step a b \<Longrightarrow> tau_inv a \<Longrightarrow> tau_inv b"
proof (induction rule: tau_step.induct)
  case (insert tau bd s t)
  then show ?case using insert_time_repr by (fastforce simp: tau_inv_def)
next
  case (reset tau bd s)
  then show ?case by (auto simp: tau_inv_def intro: exI [of _ 0])
qed (blast intro: tau_inv_interval tau_inv_median)+

text \<open>C37: Whatever bursts, updates and resets happen, the interval tau is always one of the four
  powers of two from \<open>LOWER_TAU\<close> to \<open>UPPER_TAU\<close>, and the boundary the initial one times a power of
  two: an observer of the intervals learns at most one of four values per update.\<close>

theorem tau_four_values:
  assumes "tau_step\<^sup>*\<^sup>* (INITIAL_TAU, INITIAL_BOUNDARY, tau_state_init) (tau, bd, s)"
  shows "tau \<in> {4096, 8192, 16384, 32768} \<and> (\<exists>k. bd = INITIAL_BOUNDARY * 2 ^ k)"
proof -
  have "tau_inv (tau, bd, s)" using assms by (induction rule: rtranclp_induct) (auto intro: tau_inv_init tau_inv_step)
  then show ?thesis by (simp add: tau_inv_def)
qed

theorem tau_four_values_witness:
  "\<exists>tau bd s. tau_step\<^sup>*\<^sup>* (INITIAL_TAU, INITIAL_BOUNDARY, tau_state_init) (tau, bd, s) \<and>
     tau = UPPER_TAU \<and> tau \<in> {4096, 8192, 16384, 32768}"
proof -
  from median_repr [OF init_repr(2), of 16384 16384 8192] obtain s' where
    "update_tau_median 8192 16384 16384 tau_state_init = Inr (32768, 32768, s')" by auto
  then have "tau_step (INITIAL_TAU, INITIAL_BOUNDARY, tau_state_init) (UPPER_TAU, 32768, s')"
    by (rule tau_step.median)
  then have r: "tau_step\<^sup>*\<^sup>* (INITIAL_TAU, INITIAL_BOUNDARY, tau_state_init) (UPPER_TAU, 32768, s')"
    by (rule r_into_rtranclp)
  from tau_four_values [OF this] r show ?thesis by blast
qed

text \<open>C38: When \<open>should_set_writefd\<close> tells the caller to wait and the channel is not truly idle, the
  timeout it sets is exactly the time left until the next packet is due, with a valid
  microsecond part; when it lets the caller poll, the packet is overdue.\<close>

theorem wait_is_exact:
  assumes "\<not> (stmode s = 0 \<and> truly_idle)"
  shows "case should_set_writefd now truly_idle time_to_write s of
      (True, tv) \<Rightarrow> time_to_write < now \<and> tv = None
    | (False, tv) \<Rightarrow> \<exists>sec usec. tv = Some (sec, usec) \<and> usec < 1000000 \<and>
        unat now + (unat sec * 1000000 + unat usec) = unat time_to_write"
proof (cases "time_to_write < now")
  case False
  then have le: "unat now \<le> unat time_to_write" by (simp add: word_less_nat_alt)
  let ?d = "time_to_write - now"
  have "unat ?d = unat time_to_write - unat now" using le by (rule unat_sub_small)
  moreover have "unat (?d div 1000000) * 1000000 + unat (?d mod 1000000) = unat ?d"
    by (simp add: unat_div unat_mod)
  moreover have "?d mod 1000000 < 1000000" by (simp add: word_less_nat_alt unat_mod)
  ultimately show ?thesis using assms False le by (auto simp: should_set_writefd_def Let_def)
qed (use assms in \<open>auto simp: should_set_writefd_def\<close>)

theorem wait_is_exact_witness:
  "should_set_writefd 1000000 False 3500000 tau_state_init = (False, Some (2, 500000)) \<and>
   unat (1000000 :: u64) + (unat (2 :: u64) * 1000000 + unat (500000 :: u64)) = unat (3500000 :: u64)"
proof -
  have e: "should_set_writefd 1000000 False 3500000 tau_state_init = (False, Some (2, 500000))"
    by (simp add: should_set_writefd_def word_div_def word_mod_def)
  from wait_is_exact [of tau_state_init False 1000000 3500000] e show ?thesis by simp
qed

end
