(* ===== verification/CsState.thy ===== *)
theory CsState
  imports Clusters Supertrace Tau
begin

text \<open>
  The global state of CSBuFLO in \<open>misc.c\<close> (lines 67-129) and its accessors: the mode, the
  flags the two peers exchange, the requested URL and its cluster, and the position in the
  super trace that is being replayed. A getter of the source is the selector of its field;
  the record extends the one of \<open>Tau\<close>. \<open>cur_item\<close> points into a trace that no longer changes
  once it is set, so it is modelled by the packet it points to.
\<close>

section \<open>State\<close>

record cs_state = tau_state +
  cluster_id :: int
  padded_junk :: int
  unload_flag :: int
  paddingdone_flag :: int
  url :: "byte list"
  urllen :: nat
  straces :: "straces option"
  clusters :: "hashmap option"
  total_clusters :: int
  transcript_end :: int
  sent_tend :: int
  first_client :: int
  second_client :: int
  first_sent :: int
  st_index :: int
  cur_item :: "stpair option"
  trans_padded :: int
  urlack :: int
  first_expected :: u64
  received_sofar :: u64
  st_idle_start :: u64
  fportlog :: bool
  server_entering_normal :: int
  trans_padded_remaining :: int

definition cs_init :: cs_state where
  "cs_init = tau_state.extend tau_state_init
     \<lparr>cluster_id = -1, padded_junk = 0, unload_flag = 0, paddingdone_flag = 0,
      url = replicate 257 0, urllen = 0, straces = None, clusters = None, total_clusters = 0,
      transcript_end = 0, sent_tend = 0, first_client = 1, second_client = 0, first_sent = 0,
      st_index = -1, cur_item = None, trans_padded = 0, urlack = 0, first_expected = 0,
      received_sofar = 0, st_idle_start = 0, fportlog = False, server_entering_normal = 0,
      trans_padded_remaining = 0\<rparr>"

section \<open>Setters\<close>

definition set_server_entering_normal :: "cs_state \<Rightarrow> cs_state" where
  "set_server_entering_normal s = s\<lparr>server_entering_normal := 1\<rparr>"

definition unset_server_entering_normal :: "cs_state \<Rightarrow> cs_state" where
  "unset_server_entering_normal s = s\<lparr>server_entering_normal := 0\<rparr>"

definition set_trans_padded_remaining :: "int \<Rightarrow> cs_state \<Rightarrow> cs_state" where
  "set_trans_padded_remaining val s = s\<lparr>trans_padded_remaining := val\<rparr>"

definition decrease_trans_padded_remaining :: "int \<Rightarrow> cs_state \<Rightarrow> cs_state" where
  "decrease_trans_padded_remaining val s =
     (if trans_padded_remaining s \<ge> val
      then s\<lparr>trans_padded_remaining := trans_padded_remaining s - val\<rparr>
      else s\<lparr>trans_padded_remaining := 0\<rparr>)"

definition set_trans_padded :: "cs_state \<Rightarrow> cs_state" where
  "set_trans_padded s = s\<lparr>trans_padded := 1\<rparr>"

definition unset_trans_padded :: "cs_state \<Rightarrow> cs_state" where
  "unset_trans_padded s = s\<lparr>trans_padded := 0\<rparr>"

definition set_urlack :: "cs_state \<Rightarrow> cs_state" where
  "set_urlack s = s\<lparr>urlack := 1\<rparr>"

definition unset_urlack :: "cs_state \<Rightarrow> cs_state" where
  "unset_urlack s = s\<lparr>urlack := 0\<rparr>"

definition set_second_client :: "cs_state \<Rightarrow> cs_state" where
  "set_second_client s = s\<lparr>second_client := 1\<rparr>"

definition unset_second_client :: "cs_state \<Rightarrow> cs_state" where
  "unset_second_client s = s\<lparr>second_client := 0\<rparr>"

definition set_first_client :: "cs_state \<Rightarrow> cs_state" where
  "set_first_client s = s\<lparr>first_client := 1\<rparr>"

definition unset_first_client :: "cs_state \<Rightarrow> cs_state" where
  "unset_first_client s = s\<lparr>first_client := 0\<rparr>"

definition set_st_idle_start :: "u64 \<Rightarrow> cs_state \<Rightarrow> cs_state" where
  "set_st_idle_start val s = s\<lparr>st_idle_start := val\<rparr>"

definition set_sent_tend :: "cs_state \<Rightarrow> cs_state" where
  "set_sent_tend s = s\<lparr>sent_tend := 1\<rparr>"

definition unset_sent_tend :: "cs_state \<Rightarrow> cs_state" where
  "unset_sent_tend s = s\<lparr>sent_tend := 0\<rparr>"

definition set_transcript_end :: "cs_state \<Rightarrow> cs_state" where
  "set_transcript_end s = s\<lparr>transcript_end := 1\<rparr>"

definition unset_transcript_end :: "cs_state \<Rightarrow> cs_state" where
  "unset_transcript_end s = s\<lparr>transcript_end := 0\<rparr>"

definition unset_first_sent :: "cs_state \<Rightarrow> cs_state" where
  "unset_first_sent s = s\<lparr>first_sent := 0\<rparr>"

definition set_padded_junk :: "int \<Rightarrow> cs_state \<Rightarrow> cs_state" where
  "set_padded_junk val s = s\<lparr>padded_junk := val\<rparr>"

definition set_w2w :: "int \<Rightarrow> cs_state \<Rightarrow> cs_state" where
  "set_w2w val s = s\<lparr>w2w := (if val < 0 then 0 else val)\<rparr>"

definition set_received_sofar :: "u64 \<Rightarrow> cs_state \<Rightarrow> cs_state" where
  "set_received_sofar val s = s\<lparr>received_sofar := val\<rparr>"

definition set_stmode :: "int \<Rightarrow> cs_state \<Rightarrow> cs_state" where
  "set_stmode mode s = s\<lparr>stmode := mode\<rparr>"

definition set_ts_start :: "u64 \<Rightarrow> cs_state \<Rightarrow> cs_state" where
  "set_ts_start val s = s\<lparr>ts_start := val\<rparr>"

definition set_ts_end :: "u64 \<Rightarrow> cs_state \<Rightarrow> cs_state" where
  "set_ts_end val s = s\<lparr>ts_end := val\<rparr>"

definition set_tstart_set :: "int \<Rightarrow> cs_state \<Rightarrow> cs_state" where
  "set_tstart_set val s = s\<lparr>tstart_set := val\<rparr>"

definition set_tend_set :: "int \<Rightarrow> cs_state \<Rightarrow> cs_state" where
  "set_tend_set val s = s\<lparr>tend_set := val\<rparr>"

definition set_onload_flag :: "cs_state \<Rightarrow> cs_state" where
  "set_onload_flag s = s\<lparr>onload_flag := 1\<rparr>"

definition unset_onload_flag :: "cs_state \<Rightarrow> cs_state" where
  "unset_onload_flag s = s\<lparr>onload_flag := 0\<rparr>"

definition set_unload_flag :: "cs_state \<Rightarrow> cs_state" where
  "set_unload_flag s = s\<lparr>unload_flag := 1\<rparr>"

definition unset_unload_flag :: "cs_state \<Rightarrow> cs_state" where
  "unset_unload_flag s = s\<lparr>unload_flag := 0\<rparr>"

definition set_paddingdone_flag :: "cs_state \<Rightarrow> cs_state" where
  "set_paddingdone_flag s = s\<lparr>paddingdone_flag := 1\<rparr>"

definition unset_paddingdone_flag :: "cs_state \<Rightarrow> cs_state" where
  "unset_paddingdone_flag s = s\<lparr>paddingdone_flag := 0\<rparr>"

lemmas setter_defs = set_server_entering_normal_def unset_server_entering_normal_def
  set_trans_padded_remaining_def decrease_trans_padded_remaining_def set_trans_padded_def
  unset_trans_padded_def set_urlack_def unset_urlack_def set_second_client_def
  unset_second_client_def set_first_client_def unset_first_client_def set_st_idle_start_def
  set_sent_tend_def unset_sent_tend_def set_transcript_end_def unset_transcript_end_def
  unset_first_sent_def set_padded_junk_def set_w2w_def set_received_sofar_def set_stmode_def
  set_ts_start_def set_ts_end_def set_tstart_set_def set_tend_set_def set_onload_flag_def
  unset_onload_flag_def set_unload_flag_def unset_unload_flag_def set_paddingdone_flag_def
  unset_paddingdone_flag_def

section \<open>The requested URL\<close>

definition google_url :: "byte list" where
  "google_url = bytes_of ''www.google.com ''"

text \<open>
  The copy loop reads the packet up to a space or 255 bytes; reading past the end of the
  packet is outside the object.
\<close>

definition set_url :: "byte list \<Rightarrow> nat \<Rightarrow> cs_state \<Rightarrow> cs_state result" where
  "set_url p offset s =
     (let xs = drop offset p;
          u = take 255 (takeWhile (\<lambda>c. c \<noteq> 32) xs);
          n = length u
      in if n \<ge> length xs then Inl (MemFault ''set_url: p[i]'')
         else let s1 = s\<lparr>url := overwrite 0 (u @ [32, 0]) (url s), urllen := n + 1\<rparr> in
           if xs ! n \<noteq> 32
           then Inr (s1\<lparr>url := overwrite 0 (google_url @ [0]) (url s1), urllen := 15\<rparr>)
           else Inr s1)"

section \<open>Clusters and traces\<close>

text \<open>\<open>straces[cluster_id]\<close>, a wild pointer where no trace was loaded.\<close>

definition current_trace :: "cs_state \<Rightarrow> st result" where
  "current_trace s =
     (case straces s of None \<Rightarrow> Inl (MemFault ''straces'')
      | Some ss \<Rightarrow>
          if 0 \<le> cluster_id s \<and> nat (cluster_id s) < length ss
          then (case ss ! nat (cluster_id s) of
                  None \<Rightarrow> Inl (MemFault ''straces[cluster_id]'') | Some t \<Rightarrow> Inr t)
          else Inl (MemFault ''straces[cluster_id]''))"

text \<open>The databases are loaded at the first call; their files are parameters.\<close>

definition set_cluster_id :: "stpair \<Rightarrow> byte list option \<Rightarrow> byte list option \<Rightarrow> byte list \<Rightarrow> cs_state \<Rightarrow>
    cs_state result" where
  "set_cluster_id junk cluster_file st_file u s =
     rbind (case clusters s of
              Some _ \<Rightarrow> Inr s
            | None \<Rightarrow> rbind (hm_build cluster_file (total_clusters s))
                       (\<lambda>(m, c). Inr (s\<lparr>clusters := m, total_clusters := c\<rparr>))) (\<lambda>s.
     rbind (case straces s of
              Some _ \<Rightarrow> Inr s
            | None \<Rightarrow> rbind (load_st junk st_file (total_clusters s)) (\<lambda>ss.
                       rbind (change_to_relative_time ss (total_clusters s)) (\<lambda>ss.
                       rbind (Supertrace.split ss (total_clusters s)) (\<lambda>ss. Inr (s\<lparr>straces := ss\<rparr>))))) (\<lambda>s.
     rbind (hm_lookup (clusters s) (Some u)) (\<lambda>c.
       Inr (if c \<noteq> -1 then s\<lparr>cluster_id := c, st_index := 0\<rparr> else s\<lparr>cluster_id := c\<rparr>))))"

text \<open>A loop \<open>while (i < tracelen && P(cur[i].size)) i++\<close>.\<close>

function skip_items :: "(int \<Rightarrow> bool) \<Rightarrow> st \<Rightarrow> nat \<Rightarrow> nat" where
  "skip_items P t i =
     (if i < st_tracelen t \<and> P (st_size (st_pairs t ! i)) then skip_items P t (Suc i) else i)"
  by pat_completeness auto
termination by (relation "measure (\<lambda>(P, t, i). st_tracelen t - i)") auto

declare skip_items.simps [simp del]

definition set_first_sent :: "cs_state \<Rightarrow> cs_state result" where
  "set_first_sent s =
     (if cluster_id s = -1 then Inr s
      else rbind (current_trace s) (\<lambda>t.
        if st_index s < 0 \<or> st_index s \<ge> int (st_tracelen t) then Inr s
        else let i = skip_items (\<lambda>x. x > 0) t (nat (st_index s));
                 j = skip_items (\<lambda>x. x < 0) t i
             in if j < st_tracelen t
                then let s1 = s\<lparr>first_expected := st_expected (st_pairs t ! j)\<rparr> in
                     Inr (if j \<ge> 1 then s1\<lparr>first_sent := 1\<rparr> else s1)
                else Inr s))"

definition should_jump_trans_end :: "u32 \<Rightarrow> cs_state \<Rightarrow> bool \<times> cs_state" where
  "should_jump_trans_end rand s =
     (case cur_item s of
        None \<Rightarrow> (True, s)
      | Some item \<Rightarrow>
          if cluster_id s < 0 then (True, s)
          else if transcript_end s = 1 then (True, s)
          else if rand mod 100 < st_sprob item then (True, s\<lparr>cur_item := None, st_index := -1\<rparr>)
          else (False, s))"

definition move_to_next_st_item :: "bool \<Rightarrow> cs_state \<Rightarrow> cs_state result" where
  "move_to_next_st_item is_pos s =
     (if cluster_id s < 0 then Inr s
      else rbind (current_trace s) (\<lambda>t.
        if st_index s < 0 \<or> st_index s \<ge> int (st_tracelen t)
        then Inr (s\<lparr>cur_item := None, st_index := -1\<rparr>)
        else let i = skip_items (\<lambda>x. if is_pos then x \<le> 0 else x \<ge> 0) t (nat (st_index s)) in
          if i < st_tracelen t
          then Inr (s\<lparr>cur_item := Some (st_pairs t ! i), st_index := int i + 1\<rparr>)
          else Inr (s\<lparr>cur_item := None, st_index := -1\<rparr>)))"

section \<open>Replaying a trace\<close>

lemma skip_items_spec:
  "i \<le> skip_items P t i \<and> (\<forall>k. i \<le> k \<and> k < skip_items P t i \<longrightarrow> P (st_size (st_pairs t ! k))) \<and>
   (skip_items P t i < st_tracelen t \<longrightarrow> \<not> P (st_size (st_pairs t ! skip_items P t i)))"
proof (induction P t i rule: skip_items.induct)
  case (1 P t i)
  show ?case
  proof (cases "i < st_tracelen t \<and> P (st_size (st_pairs t ! i))")
    case True
    have e: "skip_items P t i = skip_items P t (Suc i)" using True by (subst skip_items.simps) simp
    show ?thesis unfolding e using 1 [OF True] True by (auto simp: Suc_le_eq elim: le_neq_implies_less)
  next
    case False
    then show ?thesis by (subst (1 2 3 4) skip_items.simps) auto
  qed
qed

text \<open>The packets a side replays: the server those of positive size, the client the others.\<close>

definition own_item :: "bool \<Rightarrow> stpair \<Rightarrow> bool" where
  "own_item is_pos p \<longleftrightarrow> (if is_pos then 0 < st_size p else st_size p < 0)"

lemma skip_filter:
  assumes "st_tracelen t = length (st_pairs t)" and "i \<le> length (st_pairs t)"
    and "j = skip_items (\<lambda>x. if is_pos then x \<le> 0 else x \<ge> 0) t i"
  shows "filter (own_item is_pos) (drop i (st_pairs t)) =
    (if j < length (st_pairs t) then st_pairs t ! j # filter (own_item is_pos) (drop (Suc j) (st_pairs t)) else [])"
proof -
  let ?ps = "st_pairs t"
  note sp = skip_items_spec [of i "\<lambda>x. if is_pos then x \<le> 0 else x \<ge> 0" t, folded assms(3)]
  have pre: "filter (own_item is_pos) (drop i (take j ?ps)) = []"
  proof -
    have "\<not> own_item is_pos (drop i (take j ?ps) ! k)" if "k < length (drop i (take j ?ps))" for k
    proof -
      have "if is_pos then st_size (?ps ! (i + k)) \<le> 0 else st_size (?ps ! (i + k)) \<ge> 0"
        using sp that by auto
      moreover have "i + k < j" "i + k < length ?ps" using that by auto
      then have "drop i (take j ?ps) ! k = ?ps ! (i + k)" by simp
      ultimately show ?thesis by (auto simp: own_item_def split: if_splits)
    qed
    then show ?thesis unfolding filter_empty_conv all_set_conv_all_nth by blast
  qed
  show ?thesis
  proof (cases "j < length ?ps")
    case True
    have "drop i ?ps = drop i (take j ?ps) @ drop j ?ps"
      using sp True by (metis append_take_drop_id drop_append length_take less_imp_le min_absorb2 diff_is_0_eq' drop_0)
    moreover have "drop j ?ps = ?ps ! j # drop (Suc j) ?ps" using True by (simp add: Cons_nth_drop_Suc)
    moreover have "own_item is_pos (?ps ! j)"
      using sp True assms(1) by (auto simp: own_item_def split: if_splits)
    ultimately show ?thesis using True pre by simp
  next
    case False
    then show ?thesis using pre by simp
  qed
qed

text \<open>The packets successive calls of \<open>move_to_next_st_item\<close> make current.\<close>

fun replay :: "nat \<Rightarrow> bool \<Rightarrow> cs_state \<Rightarrow> stpair option list result" where
  "replay 0 is_pos s = Inr []"
| "replay (Suc n) is_pos s =
     rbind (move_to_next_st_item is_pos s) (\<lambda>s'.
       rbind (replay n is_pos s') (\<lambda>r. Inr (cur_item s' # r)))"

lemma current_trace_frame [simp]:
  "current_trace (s\<lparr>cur_item := x\<rparr>) = current_trace s"
  "current_trace (s\<lparr>st_index := i\<rparr>) = current_trace s"
  by (simp_all add: current_trace_def split: option.splits)

lemma replay_ended:
  assumes "current_trace s = Inr t" and "0 \<le> cluster_id s" and "st_index s = -1"
  shows "replay n is_pos s = Inr (replicate n None)"
  using assms
proof (induction n arbitrary: s)
  case (Suc n)
  then show ?case using Suc.IH [of "s\<lparr>cur_item := None, st_index := -1\<rparr>"]
    by (simp add: move_to_next_st_item_def)
qed simp

lemma replay_filter:
  assumes "current_trace s = Inr t" and "0 \<le> cluster_id s" and "st_tracelen t = length (st_pairs t)"
    and "st_index s = int i" and "i \<le> length (st_pairs t)" and "F = filter (own_item is_pos) (drop i (st_pairs t))"
  shows "replay n is_pos s = Inr (map Some (take n F) @ replicate (n - length F) None)"
  using assms
proof (induction n arbitrary: s i F)
  case (Suc n)
  let ?j = "skip_items (\<lambda>x. if is_pos then x \<le> 0 else x \<ge> 0) t i"
  note F = skip_filter [OF Suc.prems(3,5), of ?j is_pos, OF refl, folded Suc.prems(6)]
  show ?case
  proof (cases "?j < length (st_pairs t)")
    case True
    let ?s = "s\<lparr>cur_item := Some (st_pairs t ! ?j), st_index := int ?j + 1\<rparr>"
    have "i < length (st_pairs t)"
      using skip_items_spec [of i "\<lambda>x. if is_pos then x \<le> 0 else x \<ge> 0" t] True by linarith
    then have "move_to_next_st_item is_pos s = Inr ?s"
      using Suc.prems True by (simp add: move_to_next_st_item_def Let_def)
    moreover have "replay n is_pos ?s =
        Inr (map Some (take n (filter (own_item is_pos) (drop (Suc ?j) (st_pairs t)))) @
             replicate (n - length (filter (own_item is_pos) (drop (Suc ?j) (st_pairs t)))) None)"
      using Suc.IH [of ?s "Suc ?j"] Suc.prems True by simp
    ultimately show ?thesis using F True by simp
  next
    case False
    let ?s = "s\<lparr>cur_item := None, st_index := -1\<rparr>"
    have "move_to_next_st_item is_pos s = Inr ?s"
      using Suc.prems False by (simp add: move_to_next_st_item_def Let_def)
    moreover have "replay n is_pos ?s = Inr (replicate n None)"
      using Suc.prems by (intro replay_ended) simp_all
    ultimately show ?thesis using F False by simp
  qed
qed simp

section \<open>Properties\<close>

text \<open>C30: Replaying a trace from its start visits exactly the packets of the own direction, in
  trace order and each once, and then reports the end of the trace for good: successive
  calls of \<open>move_to_next_st_item\<close> make current the packets of positive size for the server
  and those of negative size for the client, and NULL from then on.\<close>

theorem replay_visits_own_packets:
  assumes "current_trace s = Inr t" and "0 \<le> cluster_id s" and "st_tracelen t = length (st_pairs t)"
    and "st_index s = 0"
  shows "replay n is_pos s =
    (let own = filter (\<lambda>p. if is_pos then 0 < st_size p else st_size p < 0) (st_pairs t)
     in Inr (map Some (take n own) @ replicate (n - length own) None))"
proof -
  have "own_item is_pos = (\<lambda>p. if is_pos then 0 < st_size p else st_size p < 0)"
    by (simp add: fun_eq_iff own_item_def)
  then show ?thesis using replay_filter [OF assms(1-3), of 0 _ is_pos n] assms(4) by (simp add: Let_def)
qed

definition demo_replay :: cs_state where
  "demo_replay = cs_init\<lparr>cluster_id := 1, st_index := 0, straces := Some [None, Some demo_trace]\<rparr>"

theorem replay_visits_own_packets_witness:
  "replay 3 False demo_replay =
     Inr [Some \<lparr>st_size = -50, st_time = 5, st_sprob = 10, st_expected = 0\<rparr>, None, None]"
  using replay_visits_own_packets [of demo_replay demo_trace 3 False]
  by (simp add: demo_replay_def current_trace_def cs_init_def tau_state.extend_def demo_trace_def numeral_eq_Suc)

lemma overwrite_0: "length d \<le> length xs \<Longrightarrow> overwrite 0 d xs = d @ drop (length d) xs"
  by (simp add: overwrite_def)

lemma set_url_array:
  assumes "set_url p offset s = Inr s'" and "length (url s) = 257"
  shows "length (url s') = 257 \<and> urllen s' \<le> 256 \<and>
    (\<exists>u r. url s' = u @ [32, 0] @ r \<and> urllen s' = length u + 1 \<and> 32 \<notin> set u)"
proof -
  let ?xs = "drop offset p"
  let ?u = "take 255 (takeWhile (\<lambda>c. c \<noteq> 32) ?xs)"
  have u: "32 \<notin> set ?u" "length ?u \<le> 255" by (auto dest: in_set_takeD set_takeWhileD)
  let ?a = "overwrite 0 (?u @ [32, 0]) (url s)"
  have a: "length ?a = 257" "?a = ?u @ [32, 0] @ drop (length ?u + 2) (url s)"
    using u(2) assms(2) by (simp_all add: overwrite_0)
  have g: "google_url = butlast google_url @ [32]" "32 \<notin> set (butlast google_url)" "length google_url = 15"
    by (simp_all add: google_url_def bytes_of_def)
  show ?thesis
  proof (cases "?xs ! length ?u = 32")
    case True
    then have "url s' = ?a" "urllen s' = length ?u + 1"
      using assms(1) by (auto simp: set_url_def Let_def split: if_splits)
    then show ?thesis using a u by auto
  next
    case False
    then have s': "url s' = overwrite 0 (google_url @ [0]) ?a" "urllen s' = 15"
      using assms(1) by (auto simp: set_url_def Let_def split: if_splits)
    have "url s' = butlast google_url @ [32, 0] @ drop 16 ?a" "length (butlast google_url) = 14"
      using s'(1) a(1) g by (auto simp: overwrite_0)
    then show ?thesis using s' a(1) g by auto
  qed
qed

text \<open>C31: \<open>set_url\<close> never writes outside \<open>url[257]\<close> and always leaves a URL that is ended by a space
  and a NUL, of at most 255 bytes; its length counts the space. As a consequence the lookup
  of its cluster never runs over the key buffer of \<open>hm_lookup\<close>, whatever bytes the peer sent.\<close>

theorem url_fits:
  assumes "set_url p offset s = Inr s'" and "length (url s) = 257"
  shows "length (url s') = 257 \<and> urllen s' \<le> 256 \<and>
    (\<exists>u r. url s' = u @ [32, 0] @ r \<and> urllen s' = length u + 1 \<and> 32 \<notin> set u) \<and>
    (\<exists>v. hm_lookup hm (Some (url s')) = Inr v)"
proof -
  note a = set_url_array [OF assms]
  then obtain u r where u: "url s' = u @ [32, 0] @ r" "urllen s' = length u + 1" by blast
  let ?P = "\<lambda>c :: byte. c \<noteq> 32 \<and> c \<noteq> 0"
  have "length (takeWhile ?P (u @ [32, 0] @ r)) \<le> length u"
    by (simp add: takeWhile_append length_takeWhile_le)
  moreover have "length u \<le> 255" using a u(2) by simp
  ultimately have "length (takeWhile ?P (url s')) < 257" using u(1) by simp
  then have "\<exists>v. hm_lookup hm (Some (url s')) = Inr v"
    by (cases hm) (auto simp: hm_lookup_def Let_def)
  with a show ?thesis by blast
qed

theorem url_fits_witness:
  "\<exists>s'. set_url [71, 69, 84, 32, 97, 46, 98, 32, 13] 4 cs_init = Inr s' \<and> urllen s' = 4 \<and>
     length (url s') = 257"
proof -
  let ?s = "cs_init\<lparr>url := overwrite 0 [97, 46, 98, 32, 0] (url cs_init), urllen := 4\<rparr>"
  have "set_url [71, 69, 84, 32, 97, 46, 98, 32, 13] 4 cs_init = Inr ?s"
    by (simp add: set_url_def)
  moreover have "length (url cs_init) = 257" by (simp add: cs_init_def tau_state.extend_def)
  ultimately show ?thesis using url_fits [of _ 4 cs_init ?s None] by auto
qed

lemma all_clusters_printed:
  assumes "list_all (printable n) ts" and "length ts = n" and "distinct (map st_clusterid ts)"
  shows "\<exists>tr. (\<forall>i \<in> {1..n}. tr i \<in> set ts \<and> nat (st_clusterid (tr i)) = i) \<and>
    (\<forall>t \<in> set ts. nat (st_clusterid t) \<in> {1..n} \<and> tr (nat (st_clusterid t)) = t)"
proof -
  let ?id = "\<lambda>t. nat (st_clusterid t)"
  have rng: "\<forall>t \<in> set ts. 0 < st_clusterid t \<and> st_clusterid t \<le> int n"
    using assms(1) by (simp add: list_all_iff printable_def)
  have inj: "inj_on ?id (set ts)"
  proof (rule inj_onI)
    fix x y assume "x \<in> set ts" "y \<in> set ts" "?id x = ?id y"
    then have "st_clusterid x = st_clusterid y" using rng by (auto simp: eq_nat_nat_iff)
    then show "x = y" using assms(3) \<open>x \<in> set ts\<close> \<open>y \<in> set ts\<close> by (simp add: distinct_map inj_on_def)
  qed
  have "card (set ts) = n" using assms(2,3) by (metis distinct_card distinct_map)
  then have "card (?id ` set ts) = card {1..n}" using card_image [OF inj] by simp
  moreover have sub: "?id ` set ts \<subseteq> {1..n}" using rng by (auto simp: nat_le_iff)
  ultimately have "?id ` set ts = {1..n}" by (intro card_subset_eq) simp_all
  then have "\<forall>i \<in> {1..n}. \<exists>t. t \<in> set ts \<and> ?id t = i" by (metis imageE)
  then obtain tr where tr: "\<forall>i \<in> {1..n}. tr i \<in> set ts \<and> ?id (tr i) = i" by (rule bchoice [THEN exE])
  moreover have "tr (?id t) = t" if "t \<in> set ts" for t
    using tr sub that inj_onD [OF inj, of "tr (?id t)" t] by blast
  ultimately show ?thesis using sub by blast
qed

lemma prepare_traces:
  assumes ok: "list_all (printable n) ts" "length ts = n" "distinct (map st_clusterid ts)"
    and tw: "\<forall>t \<in> set ts. trace_ok t \<and> two_way t"
  shows "\<exists>ss2 ss3 ss. load_st junk (Some (concat (map print_trace ts))) (int n) = Inr ss2 \<and>
    change_to_relative_time ss2 (int n) = Inr ss3 \<and> Supertrace.split ss3 (int n) = Inr (Some ss) \<and>
    (\<forall>t \<in> set ts. nat (st_clusterid t) < length ss \<and> (\<exists>t'. ss ! nat (st_clusterid t) = Some t' \<and>
       st_tracelen t' = st_tracelen t \<and> length (st_pairs t') = st_tracelen t \<and>
       up_bytes (st_pairs t') = up_bytes (st_pairs t) \<and> down_bytes (st_pairs t') = down_bytes (st_pairs t)))"
proof -
  from all_clusters_printed [OF ok] obtain tr where
    tr: "\<forall>i \<in> {1..n}. tr i \<in> set ts \<and> nat (st_clusterid (tr i)) = i"
    "\<forall>t \<in> set ts. nat (st_clusterid t) \<in> {1..n} \<and> tr (nat (st_clusterid t)) = t" by blast
  from load_printed [OF ok, of junk] obtain s1 where
    s1: "load_st junk (Some (concat (map print_trace ts))) (int n) = Inr (Some s1)" "length s1 = Suc n"
    "\<forall>t \<in> set ts. s1 ! nat (st_clusterid t) = Some t" by blast
  have is_eq: "set [1..<Suc n] = {1..n}" by auto
  have "\<forall>i \<in> set [1..<Suc n]. i < length s1 \<and> s1 ! i = Some (tr i)"
    unfolding is_eq using tr(1) s1(2,3) by force
  from change_loop_spec [OF distinct_upt this] obtain s2 where
    s2: "change_loop [1..<Suc n] s1 = Inr s2" "length s2 = Suc n"
    "\<forall>i \<in> {1..n}. s2 ! i = Some (rel_trace (tr i))" using s1(2) is_eq by auto
  have two: "two_way (rel_trace (tr i))" if "i \<in> {1..n}" for i
    using tr(1) tw that by (intro rel_trace_two_way(1)) auto
  then have "\<forall>i \<in> set [1..<Suc n]. i < length s2 \<and> s2 ! i = Some (rel_trace (tr i)) \<and> two_way (rel_trace (tr i))"
    unfolding is_eq using s2(2,3) by force
  from split_clusters_spec [OF distinct_upt this, of 0] obtain s3 where
    s3: "split_clusters [1..<Suc n] s2 0 = Inr s3" "length s3 = Suc n"
    "\<forall>i \<in> {1..n}. \<exists>s'. s3 ! i = Some s' \<and> st_tracelen s' = st_tracelen (rel_trace (tr i)) \<and>
      map st_size (st_pairs s') = map st_size (st_pairs (rel_trace (tr i)))" using s2(2) is_eq by auto
  have "nat (st_clusterid t) < length s3 \<and> (\<exists>t'. s3 ! nat (st_clusterid t) = Some t' \<and>
      st_tracelen t' = st_tracelen t \<and> length (st_pairs t') = st_tracelen t \<and>
      up_bytes (st_pairs t') = up_bytes (st_pairs t) \<and> down_bytes (st_pairs t') = down_bytes (st_pairs t))"
    if t: "t \<in> set ts" for t
  proof -
    let ?i = "nat (st_clusterid t)"
    have i: "?i \<in> {1..n}" "tr ?i = t" using tr(2) t by auto
    from s3(3) i obtain s' where s': "s3 ! ?i = Some s'" "st_tracelen s' = st_tracelen (rel_trace t)"
      "map st_size (st_pairs s') = map st_size (st_pairs (rel_trace t))" by force
    note b = bytes_of_sizes [OF s'(3)] rel_trace_bytes [of t]
    have "length (st_pairs s') = length (st_pairs (rel_trace t))" using s'(3) by (metis length_map)
    then show ?thesis using s' b tw t i s3(2) rel_trace_two_way(3) [of t] by auto
  qed
  then show ?thesis using s1(1) s2(1) s3(1)
    by (auto simp: change_to_relative_time_def Supertrace.split_def)
qed


lemma demo_trace_facts: "trace_ok demo_trace" "two_way demo_trace" "printable 1 demo_trace"
  by (simp_all add: trace_ok_def two_way_def printable_def demo_trace_def up_bytes_def down_bytes_def int_range_def)


end
