(* ===== verification/Packet.thy ===== *)
theory Packet
  imports Bufaux Cipher MacAlg Compress Deattack CsState
begin

text \<open>
  The state of the binary packet protocol, \<open>packet.c\<close>, and its small operations. \<open>world\<close> is the
  \<open>session_state\<close> of the active connection together with the other static variables the packet
  layer reads and writes: those of \<open>misc.c\<close>, of \<open>kex.c\<close> and of \<open>compress.c\<close>, the clock, the random
  numbers and the answers of the socket, each as the sequence of values later calls return, and the
  bytes written so far, one element per \<open>write\<close>. The libraries are the parameter \<open>libs\<close>.
\<close>

section \<open>Keys\<close>

record enc =
  enc_name :: string
  enc_cipher :: cipher
  enc_key_len :: u32
  enc_block_size :: u32
  enc_key :: "byte list"
  enc_iv :: "byte list"

record comp =
  comp_type :: int
  comp_enabled :: bool
  comp_name :: string

abbreviation COMP_NONE :: int where "COMP_NONE \<equiv> 0"
abbreviation COMP_ZLIB :: int where "COMP_ZLIB \<equiv> 1"
abbreviation COMP_DELAYED :: int where "COMP_DELAYED \<equiv> 2"

record newkeys =
  nk_enc :: enc
  nk_mac :: mac
  nk_comp :: comp

datatype kex_mode = MODE_IN | MODE_OUT

section \<open>Sessions\<close>

record packet_state =
  seqnr :: u32
  packets :: u32
  blocks :: u64
  bytes :: u64

record 'c session_state =
  connection_in :: int
  connection_out :: int
  remote_protocol_flags :: u32
  receive_context :: "'c cipher_context"
  send_context :: "'c cipher_context"
  s_input :: buffer
  s_output :: buffer
  outgoing_packet :: buffer
  incoming_packet :: buffer
  compression_buffer :: buffer
  compression_buffer_ready :: bool
  packet_compression :: bool
  max_packet_size :: u32
  initialized :: bool
  interactive_mode :: bool
  server_side :: bool
  after_authentication :: bool
  keep_alive_timeouts :: int
  packet_timeout_ms :: int
  newkeys_in :: "newkeys option"
  newkeys_out :: "newkeys option"
  p_read :: packet_state
  p_send :: packet_state
  max_blocks_in :: u64
  max_blocks_out :: u64
  rekey_limit :: u32
  ssh1_key :: "byte list"
  ssh1_keylen :: u32
  extra_pad :: byte
  packet_discard :: u32
  packet_discard_mac :: "mac option"
  packlen :: u32
  rekeying :: bool
  set_interactive_called :: bool
  set_maxsize_called :: bool
  outgoing :: "(byte \<times> buffer) list"

text \<open>One visit to the socket for writing: the bytes queued in the kernel, what \<open>roaming_write\<close>
  returns, whether it asks to go on, and whether an error is one to retry.\<close>

record os_answer =
  os_outq :: int
  os_ret :: int
  os_cont :: bool
  os_again :: bool

record ('c, 'z) world = "'c session_state" +
  w_cs :: cs_state
  packet_tau :: int
  packet_time_to_write :: u64
  compat20 :: bool
  datafellows :: u32
  current_keys_in :: "newkeys option"
  current_keys_out :: "newkeys option"
  zstate :: "'z compress_state"
  attack :: attack_state
  read_bytes :: u64
  backup_state :: "'c session_state option"
  rnd_src :: "nat \<Rightarrow> u32"
  rnd_pos :: nat
  clk_src :: "nat \<Rightarrow> u64"
  clk_pos :: nat
  os_src :: "nat \<Rightarrow> os_answer"
  os_pos :: nat
  wire_out :: "byte list list"

record ('c, 'z) libs =
  l_evp :: "'c evp"
  l_mac :: mac_lib
  l_zlib :: "'z zlib"
  l_junk :: "byte list"
  l_st_junk :: stpair
  l_cluster_file :: "byte list option"
  l_st_file :: "byte list option"

abbreviation SSH_BUG_NOREKEY :: u32 where "SSH_BUG_NOREKEY \<equiv> 0x8000"
abbreviation PACKET_MAX_SIZE :: u32 where "PACKET_MAX_SIZE \<equiv> 0x40000"
abbreviation INT_MAX :: int where "INT_MAX \<equiv> 2147483647"

text \<open>Message numbers.\<close>

abbreviation SSH_MSG_NONE :: byte where "SSH_MSG_NONE \<equiv> 0"
abbreviation SSH2_MSG_DISCONNECT :: byte where "SSH2_MSG_DISCONNECT \<equiv> 1"
abbreviation SSH2_MSG_IGNORE :: byte where "SSH2_MSG_IGNORE \<equiv> 2"
abbreviation SSH2_MSG_UNIMPLEMENTED :: byte where "SSH2_MSG_UNIMPLEMENTED \<equiv> 3"
abbreviation SSH2_MSG_DEBUG :: byte where "SSH2_MSG_DEBUG \<equiv> 4"
abbreviation SSH2_MSG_KEXINIT :: byte where "SSH2_MSG_KEXINIT \<equiv> 20"
abbreviation SSH2_MSG_NEWKEYS :: byte where "SSH2_MSG_NEWKEYS \<equiv> 21"
abbreviation SSH2_MSG_TRANSPORT_MIN :: byte where "SSH2_MSG_TRANSPORT_MIN \<equiv> 1"
abbreviation SSH2_MSG_TRANSPORT_MAX :: byte where "SSH2_MSG_TRANSPORT_MAX \<equiv> 49"
abbreviation SSH2_MSG_USERAUTH_SUCCESS :: byte where "SSH2_MSG_USERAUTH_SUCCESS \<equiv> 52"
abbreviation SSH2_MSG_LOCAL_MIN :: byte where "SSH2_MSG_LOCAL_MIN \<equiv> 192"
abbreviation SSH_MSG_DISCONNECT :: byte where "SSH_MSG_DISCONNECT \<equiv> 1"
abbreviation SSH_MSG_IGNORE :: byte where "SSH_MSG_IGNORE \<equiv> 32"
abbreviation SSH_MSG_DEBUG :: byte where "SSH_MSG_DEBUG \<equiv> 36"
abbreviation SSH_MSG_MIN :: byte where "SSH_MSG_MIN \<equiv> 1"
abbreviation SSH_MSG_MAX :: byte where "SSH_MSG_MAX \<equiv> 254"
abbreviation NOTIFY_ONLOAD :: byte where "NOTIFY_ONLOAD \<equiv> 200"
abbreviation NOTIFY_UNLOAD :: byte where "NOTIFY_UNLOAD \<equiv> 201"
abbreviation NOTIFY_PADDINGDONE :: byte where "NOTIFY_PADDINGDONE \<equiv> 202"
abbreviation NOTIFY_URL :: byte where "NOTIFY_URL \<equiv> 203"
abbreviation NOTIFY_SYNC :: byte where "NOTIFY_SYNC \<equiv> 204"
abbreviation NOTIFY_TEND :: byte where "NOTIFY_TEND \<equiv> 205"
abbreviation NOTIFY_NORMAL :: byte where "NOTIFY_NORMAL \<equiv> 206"
abbreviation NOTIFY_URLACK :: byte where "NOTIFY_URLACK \<equiv> 207"

section \<open>Buffers as the packet layer uses them\<close>

text \<open>A store through \<open>buffer_ptr\<close>, a read through it, and a call of the cipher whose output goes to
  fresh space at the end of a buffer.\<close>

definition buffer_poke :: "buffer \<Rightarrow> nat \<Rightarrow> byte list \<Rightarrow> buffer" where
  "buffer_poke b i d = b\<lparr>b_buf := overwrite (unat (b_offset b) + i) d (b_buf b)\<rparr>"

definition buffer_peek :: "buffer \<Rightarrow> nat \<Rightarrow> byte result" where
  "buffer_peek b i = (if i < length (buffer_ptr b) then Inr (buffer_ptr b ! i) else Inl (MemFault ''buffer_ptr''))"

definition crypt_append :: "'c evp \<Rightarrow> 'c cipher_context \<Rightarrow> buffer \<Rightarrow> byte list \<Rightarrow> u32 \<Rightarrow>
    ('c cipher_context \<times> buffer) result" where
  "crypt_append E cc dst src len =
     rbind (buffer_append_space dst len) (\<lambda>(p, dst).
     rbind (cipher_crypt E cc src len) (\<lambda>(cc, out).
       Inr (cc, dst\<lparr>b_buf := overwrite (unat p) out (b_buf dst)\<rparr>)))"

section \<open>Random numbers and the clock\<close>

definition arc4random :: "('c, 'z) world \<Rightarrow> u32 \<times> ('c, 'z) world" where
  "arc4random w = (rnd_src w (rnd_pos w), w\<lparr>rnd_pos := Suc (rnd_pos w)\<rparr>)"

definition read_clock :: "('c, 'z) world \<Rightarrow> u64 \<times> ('c, 'z) world" where
  "read_clock w = (clk_src w (clk_pos w), w\<lparr>clk_pos := Suc (clk_pos w)\<rparr>)"

text \<open>
  The loop \<open>if (i % 4 == 0) rnd = arc4random(); .. rnd & 0xff ..; rnd >>= 8\<close> for the \<open>n\<close> values of
  \<open>i\<close> from \<open>i\<close> on.
\<close>

fun random_bytes :: "nat \<Rightarrow> nat \<Rightarrow> u32 \<Rightarrow> ('c, 'z) world \<Rightarrow> byte list \<times> ('c, 'z) world" where
  "random_bytes 0 i rnd w = ([], w)"
| "random_bytes (Suc n) i rnd w =
     (let (rnd, w) = (if i mod 4 = 0 then arc4random w else (rnd, w));
          (bs, w) = random_bytes n (Suc i) (drop_bit 8 rnd) w
      in (ucast rnd # bs, w))"

section \<open>Setting up a session\<close>

definition zero_buffer :: buffer where
  "zero_buffer = \<lparr>b_buf = [], b_alloc = 0, b_offset = 0, b_end = 0\<rparr>"

definition zero_counters :: packet_state where
  "zero_counters = \<lparr>seqnr = 0, packets = 0, blocks = 0, bytes = 0\<rparr>"

text \<open>\<open>zcc\<close> is a zeroed cipher context.\<close>

definition alloc_session_state :: "'c cipher_context \<Rightarrow> 'c session_state" where
  "alloc_session_state zcc = \<lparr>connection_in = -1, connection_out = -1, remote_protocol_flags = 0,
     receive_context = zcc, send_context = zcc, s_input = zero_buffer, s_output = zero_buffer,
     outgoing_packet = zero_buffer, incoming_packet = zero_buffer, compression_buffer = zero_buffer,
     compression_buffer_ready = False, packet_compression = False, max_packet_size = 32768,
     initialized = False, interactive_mode = False, server_side = False, after_authentication = False,
     keep_alive_timeouts = 0, packet_timeout_ms = -1, newkeys_in = None, newkeys_out = None,
     p_read = zero_counters, p_send = zero_counters, max_blocks_in = 0, max_blocks_out = 0, rekey_limit = 0,
     ssh1_key = replicate 32 0, ssh1_keylen = 0, extra_pad = 0, packet_discard = 0, packet_discard_mac = None,
     packlen = 0, rekeying = False, set_interactive_called = False, set_maxsize_called = False, outgoing = []\<rparr>"

definition packet_set_connection :: "('c, 'z) libs \<Rightarrow> int \<Rightarrow> int \<Rightarrow> ('c, 'z) world \<Rightarrow> ('c, 'z) world result" where
  "packet_set_connection L fd_in fd_out w =
     (case cipher_by_name ''none'' of
        None \<Rightarrow> Inl (Fatal ''packet_set_connection: cannot load cipher 'none' '')
      | Some none \<Rightarrow>
          rbind (cipher_init (l_evp L) (l_junk L) none [] 0 None 0 True) (\<lambda>send.
          rbind (cipher_init (l_evp L) (l_junk L) none [] 0 None 0 False) (\<lambda>recv.
            let w = w\<lparr>connection_in := fd_in, connection_out := fd_out, send_context := send,
                      receive_context := recv, newkeys_in := None, newkeys_out := None\<rparr>
            in Inr (if initialized w then w
                    else w\<lparr>initialized := True, s_input := buffer_init, s_output := buffer_init,
                           outgoing_packet := buffer_init, incoming_packet := buffer_init, outgoing := [],
                           p_send := (p_send w)\<lparr>packets := 0\<rparr>, p_read := (p_read w)\<lparr>packets := 0\<rparr>\<rparr>))))"

text \<open>C's division rounds towards 0.\<close>

definition cdiv :: "int \<Rightarrow> int \<Rightarrow> int" where
  "cdiv a b = sgn a * sgn b * (abs a div abs b)"

definition packet_set_timeout :: "int \<Rightarrow> int \<Rightarrow> ('c, 'z) world \<Rightarrow> ('c, 'z) world" where
  "packet_set_timeout timeout cnt w =
     (if timeout = 0 \<or> cnt = 0 then w\<lparr>packet_timeout_ms := -1\<rparr>
      else if cdiv (cdiv INT_MAX 1000) cnt < timeout then w\<lparr>packet_timeout_ms := INT_MAX\<rparr>
      else w\<lparr>packet_timeout_ms := timeout * cnt * 1000\<rparr>)"

definition packet_get_state :: "kex_mode \<Rightarrow> ('c, 'z) world \<Rightarrow> u32 \<times> u64 \<times> u32 \<times> u64" where
  "packet_get_state mode w =
     (let st = (if mode = MODE_IN then p_read w else p_send w) in (seqnr st, blocks st, packets st, bytes st))"

definition packet_set_state :: "kex_mode \<Rightarrow> u32 \<Rightarrow> u64 \<Rightarrow> u32 \<Rightarrow> u64 \<Rightarrow> ('c, 'z) world \<Rightarrow> ('c, 'z) world" where
  "packet_set_state mode sq bl pk bt w =
     (let st = \<lparr>seqnr = sq, packets = pk, blocks = bl, bytes = bt\<rparr>
      in if mode = MODE_IN then w\<lparr>p_read := st\<rparr> else w\<lparr>p_send := st\<rparr>)"

definition packet_close :: "('c, 'z) world \<Rightarrow> ('c, 'z) world" where
  "packet_close w =
     (if \<not> initialized w then w
      else let w = w\<lparr>initialized := False, s_input := buffer_free (s_input w), s_output := buffer_free (s_output w),
                     outgoing_packet := buffer_free (outgoing_packet w),
                     incoming_packet := buffer_free (incoming_packet w)\<rparr>
           in if compression_buffer_ready w
              then w\<lparr>compression_buffer := buffer_free (compression_buffer w), zstate := buffer_compress_uninit (zstate w)\<rparr>
              else w)"

definition packet_set_protocol_flags :: "u32 \<Rightarrow> ('c, 'z) world \<Rightarrow> ('c, 'z) world" where
  "packet_set_protocol_flags flags w = w\<lparr>remote_protocol_flags := flags\<rparr>"

definition packet_init_compression :: "('c, 'z) world \<Rightarrow> ('c, 'z) world" where
  "packet_init_compression w =
     (if compression_buffer_ready w then w
      else w\<lparr>compression_buffer_ready := True, compression_buffer := buffer_init\<rparr>)"

definition packet_start_compression :: "('c, 'z) libs \<Rightarrow> int \<Rightarrow> ('c, 'z) world \<Rightarrow> ('c, 'z) world result" where
  "packet_start_compression L level w =
     (if packet_compression w \<and> \<not> compat20 w then Inl (Fatal ''Compression already enabled.'')
      else let w = packet_init_compression (w\<lparr>packet_compression := True\<rparr>) in
           rbind (buffer_compress_init_send (l_zlib L) level (zstate w)) (\<lambda>z.
             Inr (w\<lparr>zstate := buffer_compress_init_recv (l_zlib L) z\<rparr>)))"

definition packet_set_encryption_key ::
    "('c, 'z) libs \<Rightarrow> byte list \<Rightarrow> u32 \<Rightarrow> int \<Rightarrow> ('c, 'z) world \<Rightarrow> ('c, 'z) world result" where
  "packet_set_encryption_key L key keylen number w =
     (case cipher_by_number number of
        None \<Rightarrow> Inl (Fatal ''packet_set_encryption_key: unknown cipher number'')
      | Some c \<Rightarrow>
          if keylen < 20 then Inl (Fatal ''packet_set_encryption_key: keylen too small'')
          else if keylen > 32 then Inl (Fatal ''packet_set_encryption_key: keylen too big'')
          else let w = w\<lparr>ssh1_key := overwrite 0 (take (unat keylen) key) (ssh1_key w), ssh1_keylen := keylen\<rparr> in
            rbind (cipher_init (l_evp L) (l_junk L) c key keylen None 0 True) (\<lambda>send.
            rbind (cipher_init (l_evp L) (l_junk L) c key keylen None 0 False) (\<lambda>recv.
              Inr (w\<lparr>send_context := send, receive_context := recv\<rparr>))))"

definition packet_get_encryption_key :: "('c, 'z) world \<Rightarrow> byte list \<times> u32" where
  "packet_get_encryption_key w = (take (unat (ssh1_keylen w)) (ssh1_key w), ssh1_keylen w)"

section \<open>Building a packet\<close>

definition upd_outgoing :: "(buffer \<Rightarrow> buffer result) \<Rightarrow> ('c, 'z) world \<Rightarrow> ('c, 'z) world result" where
  "upd_outgoing f w = rbind (f (outgoing_packet w)) (\<lambda>b. Inr (w\<lparr>outgoing_packet := b\<rparr>))"

definition packet_start :: "byte \<Rightarrow> ('c, 'z) world \<Rightarrow> ('c, 'z) world result" where
  "packet_start type w =
     (let len = (if compat20 w then 6 else 9);
          buf = replicate (len - 1) 0 @ [type]
      in upd_outgoing (\<lambda>b. buffer_append (buffer_clear b) buf (of_nat len)) w)"

definition packet_put_char :: "u32 \<Rightarrow> ('c, 'z) world \<Rightarrow> ('c, 'z) world result" where
  "packet_put_char v = upd_outgoing (\<lambda>b. buffer_append b [ucast v] 1)"

definition packet_put_int :: "u32 \<Rightarrow> ('c, 'z) world \<Rightarrow> ('c, 'z) world result" where
  "packet_put_int v = upd_outgoing (\<lambda>b. buffer_put_int b v)"

definition packet_put_int64 :: "u64 \<Rightarrow> ('c, 'z) world \<Rightarrow> ('c, 'z) world result" where
  "packet_put_int64 v = upd_outgoing (\<lambda>b. buffer_put_int64 b v)"

definition packet_put_string :: "byte list \<Rightarrow> u32 \<Rightarrow> ('c, 'z) world \<Rightarrow> ('c, 'z) world result" where
  "packet_put_string s len = upd_outgoing (\<lambda>b. buffer_put_string b s len)"

definition packet_put_cstring :: "byte list option \<Rightarrow> ('c, 'z) world \<Rightarrow> ('c, 'z) world result" where
  "packet_put_cstring s = upd_outgoing (\<lambda>b. buffer_put_cstring b s)"

definition packet_put_raw :: "byte list \<Rightarrow> u32 \<Rightarrow> ('c, 'z) world \<Rightarrow> ('c, 'z) world result" where
  "packet_put_raw s len = upd_outgoing (\<lambda>b. buffer_append b s len)"

section \<open>Reading a packet\<close>

definition upd_incoming :: "(buffer \<Rightarrow> ('a \<times> buffer) result) \<Rightarrow> ('c, 'z) world \<Rightarrow> ('a \<times> ('c, 'z) world) result" where
  "upd_incoming f w = rbind (f (incoming_packet w)) (\<lambda>(x, b). Inr (x, w\<lparr>incoming_packet := b\<rparr>))"

definition packet_get_char :: "('c, 'z) world \<Rightarrow> (u32 \<times> ('c, 'z) world) result" where
  "packet_get_char = upd_incoming (\<lambda>b. rbind (buffer_get b 1) (\<lambda>(d, b). Inr (ucast (hd d), b)))"

definition packet_get_int :: "('c, 'z) world \<Rightarrow> (u32 \<times> ('c, 'z) world) result" where
  "packet_get_int = upd_incoming buffer_get_int"

definition packet_get_int64 :: "('c, 'z) world \<Rightarrow> (u64 \<times> ('c, 'z) world) result" where
  "packet_get_int64 = upd_incoming buffer_get_int64"

definition packet_get_raw :: "('c, 'z) world \<Rightarrow> byte list \<times> u32" where
  "packet_get_raw w = (buffer_ptr (incoming_packet w), buffer_len (incoming_packet w))"

definition packet_remaining :: "('c, 'z) world \<Rightarrow> u32" where
  "packet_remaining w = buffer_len (incoming_packet w)"

definition packet_get_string :: "('c, 'z) world \<Rightarrow> (byte list \<times> ('c, 'z) world) result" where
  "packet_get_string = upd_incoming buffer_get_string"

definition packet_get_string_ptr :: "('c, 'z) world \<Rightarrow> (byte list \<times> ('c, 'z) world) result" where
  "packet_get_string_ptr = upd_incoming buffer_get_string_ptr"

definition packet_get_cstring :: "('c, 'z) world \<Rightarrow> (byte list \<times> ('c, 'z) world) result" where
  "packet_get_cstring = upd_incoming buffer_get_cstring"

section \<open>Flags, limits and counters\<close>

definition set_packet_tau :: "int \<Rightarrow> ('c, 'z) world \<Rightarrow> ('c, 'z) world" where
  "set_packet_tau tau w = w\<lparr>packet_tau := tau\<rparr>"

definition set_updated_time :: "u64 \<Rightarrow> ('c, 'z) world \<Rightarrow> ('c, 'z) world" where
  "set_updated_time t w = w\<lparr>packet_time_to_write := t\<rparr>"

text \<open>
  \<open>(unsigned long long)(tau * r / 100.0f)\<close> for \<open>r\<close> up to 200: for the values of \<open>tau\<close> the program
  uses, at most 81920, product and quotient are small enough for a \<open>float\<close> to be truncated exactly.
\<close>

definition update_time :: "u64 \<Rightarrow> int \<Rightarrow> ('c, 'z) world \<Rightarrow> u64 \<times> ('c, 'z) world" where
  "update_time now tau w =
     (if stmode (w_cs w) = 1 then (now + word_of_int tau, w)
      else let (r, w) = arc4random w in (now + word_of_int (tau * int (unat (r mod 201)) div 100), w))"

definition packet_have_data_to_write :: "('c, 'z) world \<Rightarrow> bool" where
  "packet_have_data_to_write w \<longleftrightarrow> buffer_len (s_output w) \<noteq> 0"

definition packet_not_very_much_data_to_write :: "('c, 'z) world \<Rightarrow> bool" where
  "packet_not_very_much_data_to_write w \<longleftrightarrow>
     (if interactive_mode w then buffer_len (s_output w) < 16384 else buffer_len (s_output w) < 128 * 1024)"

definition packet_set_interactive :: "bool \<Rightarrow> ('c, 'z) world \<Rightarrow> ('c, 'z) world" where
  "packet_set_interactive interactive w =
     (if set_interactive_called w then w else w\<lparr>set_interactive_called := True, interactive_mode := interactive\<rparr>)"

definition packet_set_maxsize :: "u32 \<Rightarrow> ('c, 'z) world \<Rightarrow> int \<times> ('c, 'z) world" where
  "packet_set_maxsize s w =
     (if set_maxsize_called w then (-1, w)
      else if s < 4 * 1024 \<or> s > 1024 * 1024 then (-1, w)
      else (sint s, w\<lparr>set_maxsize_called := True, max_packet_size := s\<rparr>))"

definition packet_inc_alive_timeouts :: "('c, 'z) world \<Rightarrow> int \<times> ('c, 'z) world" where
  "packet_inc_alive_timeouts w = (keep_alive_timeouts w + 1, w\<lparr>keep_alive_timeouts := keep_alive_timeouts w + 1\<rparr>)"

definition packet_set_alive_timeouts :: "int \<Rightarrow> ('c, 'z) world \<Rightarrow> ('c, 'z) world" where
  "packet_set_alive_timeouts ka w = w\<lparr>keep_alive_timeouts := ka\<rparr>"

definition packet_add_padding :: "byte \<Rightarrow> ('c, 'z) world \<Rightarrow> ('c, 'z) world" where
  "packet_add_padding pad w = w\<lparr>extra_pad := pad\<rparr>"

definition packet_need_rekeying :: "('c, 'z) world \<Rightarrow> bool" where
  "packet_need_rekeying w \<longleftrightarrow>
     (if datafellows w AND SSH_BUG_NOREKEY \<noteq> 0 then False
      else packets (p_send w) > push_bit 31 1 \<or> packets (p_read w) > push_bit 31 1 \<or>
           max_blocks_out w \<noteq> 0 \<and> blocks (p_send w) > max_blocks_out w \<or>
           max_blocks_in w \<noteq> 0 \<and> blocks (p_read w) > max_blocks_in w)"

definition packet_set_rekey_limit :: "u32 \<Rightarrow> ('c, 'z) world \<Rightarrow> ('c, 'z) world" where
  "packet_set_rekey_limit n w = w\<lparr>rekey_limit := n\<rparr>"

definition packet_set_server :: "('c, 'z) world \<Rightarrow> ('c, 'z) world" where
  "packet_set_server w = w\<lparr>server_side := True\<rparr>"

definition packet_set_authenticated :: "('c, 'z) world \<Rightarrow> ('c, 'z) world" where
  "packet_set_authenticated w = w\<lparr>after_authentication := True\<rparr>"

section \<open>Suspending a session\<close>

definition swap_session :: "'c session_state \<Rightarrow> ('c, 'z) world \<Rightarrow> ('c, 'z) world" where
  "swap_session s w = session_state.extend s (session_state.more w)"

definition packet_backup_state :: "'c cipher_context \<Rightarrow> ('c, 'z) world \<Rightarrow> ('c, 'z) world" where
  "packet_backup_state zcc w =
     (let w = w\<lparr>connection_in := -1, connection_out := -1\<rparr>;
          tmp = (case backup_state w of Some s \<Rightarrow> s | None \<Rightarrow> alloc_session_state zcc)
      in swap_session tmp (w\<lparr>backup_state := Some (session_state.truncate w)\<rparr>))"

definition packet_restore_state :: "('c, 'z) world \<Rightarrow> ('c, 'z) world result" where
  "packet_restore_state w =
     (case backup_state w of
        None \<Rightarrow> Inl (MemFault ''packet_restore_state: active_state'')
      | Some tmp \<Rightarrow>
          let old = session_state.truncate w;
              w = swap_session tmp w;
              w = w\<lparr>connection_in := connection_in old, connection_out := connection_out old\<rparr>;
              old = old\<lparr>connection_in := -1, connection_out := -1\<rparr>;
              len = buffer_len (s_input old)
          in if len > 0
             then rbind (buffer_append (s_input w) (buffer_ptr (s_input old)) len) (\<lambda>b.
                    Inr (w\<lparr>s_input := b, backup_state := Some (old\<lparr>s_input := buffer_clear (s_input old)\<rparr>),
                           read_bytes := read_bytes w + ucast len\<rparr>))
             else Inr (w\<lparr>backup_state := Some old\<rparr>))"

end
