(* ===== verification/PacketSend.thy ===== *)
theory PacketSend
  imports Packet
begin

text \<open>
  Sending: the finished packet is compressed, padded, authenticated and encrypted into the output
  buffer. During a key exchange the packets of the connection wait in the queue \<open>outgoing\<close>.
\<close>

section \<open>New keys\<close>

definition kex_get_newkeys :: "kex_mode \<Rightarrow> ('c, 'z) world \<Rightarrow> newkeys option \<times> ('c, 'z) world" where
  "kex_get_newkeys mode w =
     (case mode of MODE_IN \<Rightarrow> (current_keys_in w, w\<lparr>current_keys_in := None\<rparr>)
                 | MODE_OUT \<Rightarrow> (current_keys_out w, w\<lparr>current_keys_out := None\<rparr>))"

definition put_newkeys :: "kex_mode \<Rightarrow> newkeys \<Rightarrow> ('c, 'z) world \<Rightarrow> ('c, 'z) world" where
  "put_newkeys mode nk w =
     (case mode of MODE_IN \<Rightarrow> w\<lparr>newkeys_in := Some nk\<rparr> | MODE_OUT \<Rightarrow> w\<lparr>newkeys_out := Some nk\<rparr>)"

text \<open>Turning on compression for one direction.\<close>

definition enable_compression :: "('c, 'z) libs \<Rightarrow> kex_mode \<Rightarrow> ('c, 'z) world \<Rightarrow> ('c, 'z) world result" where
  "enable_compression L mode w =
     (let w = packet_init_compression w in
      case mode of
        MODE_OUT \<Rightarrow> rbind (buffer_compress_init_send (l_zlib L) 6 (zstate w)) (\<lambda>z. Inr (w\<lparr>zstate := z\<rparr>))
      | MODE_IN \<Rightarrow> Inr (w\<lparr>zstate := buffer_compress_init_recv (l_zlib L) (zstate w)\<rparr>))"

text \<open>The number of blocks after which new keys are due; the limit of bytes is optional.\<close>

definition block_limit :: "u32 \<Rightarrow> u32 \<Rightarrow> u64" where
  "block_limit block_size limit =
     (let m = (if block_size \<ge> 16 then push_bit (unat (block_size * 2)) 1
               else push_bit 30 1 div ucast block_size)
      in if limit \<noteq> 0 then min m (ucast (limit div block_size)) else m)"

definition set_newkeys :: "('c, 'z) libs \<Rightarrow> kex_mode \<Rightarrow> ('c, 'z) world \<Rightarrow> ('c, 'z) world result" where
  "set_newkeys L mode w =
     (let w = (case mode of
                 MODE_OUT \<Rightarrow> w\<lparr>p_send := (p_send w)\<lparr>packets := 0, blocks := 0\<rparr>\<rparr>
               | MODE_IN \<Rightarrow> w\<lparr>p_read := (p_read w)\<lparr>packets := 0, blocks := 0\<rparr>\<rparr>);
          (keys, w) = kex_get_newkeys mode w
      in case keys of
           None \<Rightarrow> Inl (Fatal ''newkeys: no keys'')
         | Some nk \<Rightarrow>
             let e = nk_enc nk in
             rbind (mac_init (nk_mac nk)) (\<lambda>(rc, m).
             let m = (if rc = 0 then m\<lparr>mac_enabled := True\<rparr> else m) in
             rbind (cipher_init (l_evp L) (l_junk L) (enc_cipher e) (enc_key e) (enc_key_len e)
                      (Some (enc_iv e)) (enc_block_size e) (mode = MODE_OUT)) (\<lambda>cc.
             let w = (case mode of MODE_OUT \<Rightarrow> w\<lparr>send_context := cc\<rparr> | MODE_IN \<Rightarrow> w\<lparr>receive_context := cc\<rparr>);
                 c = nk_comp nk;
                 on = (comp_type c = COMP_ZLIB \<or> comp_type c = COMP_DELAYED \<and> after_authentication w) \<and> \<not> comp_enabled c
             in
             rbind (if on then enable_compression L mode w else Inr w) (\<lambda>w.
             let c = (if on then c\<lparr>comp_enabled := True\<rparr> else c);
                 w = put_newkeys mode (nk\<lparr>nk_mac := m, nk_comp := c\<rparr>) w
             in
             if enc_block_size e = 0 then Inl (MemFault ''set_newkeys: division by zero'')
             else Inr (case mode of
                         MODE_OUT \<Rightarrow> w\<lparr>max_blocks_out := block_limit (enc_block_size e) (rekey_limit w)\<rparr>
                       | MODE_IN \<Rightarrow> w\<lparr>max_blocks_in := block_limit (enc_block_size e) (rekey_limit w)\<rparr>)))))"

definition delayed_one :: "('c, 'z) libs \<Rightarrow> kex_mode \<Rightarrow> newkeys option \<Rightarrow> ('c, 'z) world \<Rightarrow> ('c, 'z) world result" where
  "delayed_one L mode keys w =
     (case keys of
        None \<Rightarrow> Inr w
      | Some nk \<Rightarrow>
          if \<not> comp_enabled (nk_comp nk) \<and> comp_type (nk_comp nk) = COMP_DELAYED
          then rbind (enable_compression L mode w) (\<lambda>w.
                 Inr (put_newkeys mode (nk\<lparr>nk_comp := (nk_comp nk)\<lparr>comp_enabled := True\<rparr>\<rparr>) w))
          else Inr w)"

definition packet_enable_delayed_compress :: "('c, 'z) libs \<Rightarrow> ('c, 'z) world \<Rightarrow> ('c, 'z) world result" where
  "packet_enable_delayed_compress L w =
     (let w = w\<lparr>after_authentication := True\<rparr> in
      rbind (delayed_one L MODE_IN (newkeys_in w) w) (\<lambda>w. delayed_one L MODE_OUT (newkeys_out w) w))"

section \<open>Protocol 2\<close>

text \<open>Compression of the payload, behind the five bytes of the header.\<close>

definition send2_compress :: "('c, 'z) libs \<Rightarrow> ('c, 'z) world \<Rightarrow> ('c, 'z) world result" where
  "send2_compress L w =
     rbind (buffer_consume (outgoing_packet w) 5) (\<lambda>op.
     rbind (buffer_compress (l_zlib L) op (buffer_clear (compression_buffer w)) (zstate w)) (\<lambda>(z, cb).
     rbind (buffer_append (buffer_clear op) [0, 0, 0, 0, 0] 5) (\<lambda>op.
     rbind (buffer_append op (buffer_ptr cb) (buffer_len cb)) (\<lambda>op.
       Inr (w\<lparr>outgoing_packet := op, compression_buffer := cb, zstate := z\<rparr>)))))"

text \<open>The length of the padding and what is left of \<open>extra_pad\<close>; all sums are of \<open>u_char\<close>s.\<close>

definition base_padlen :: "u32 \<Rightarrow> u32 \<Rightarrow> byte" where
  "base_padlen len block_size =
     (let padlen = ucast (block_size - len mod block_size) :: byte
      in if padlen < 4 then padlen + ucast block_size else padlen)"

definition send2_padlen :: "u32 \<Rightarrow> u32 \<Rightarrow> byte \<Rightarrow> byte result" where
  "send2_padlen len block_size extra =
     (if block_size = 0 then Inl (MemFault ''packet_send2: division by zero'')
      else let padlen = base_padlen len block_size in
        if extra = 0 then Inr padlen
        else let extra = ucast (roundup (ucast extra) block_size) :: byte in
          if extra = 0 then Inl (MemFault ''packet_send2: division by zero'')
          else let pad = extra - ucast ((len + ucast padlen) mod ucast extra) in Inr (padlen + pad))"

text \<open>Random padding under a cipher, zeros in the clear.\<close>

definition send2_padding :: "byte \<Rightarrow> ('c, 'z) world \<Rightarrow> byte list \<times> ('c, 'z) world" where
  "send2_padding padlen w =
     (if newkeys_out w \<noteq> None \<and> \<not> cc_plaintext (send_context w)
      then random_bytes (unat padlen) 0 0 w
      else (replicate (unat padlen) 0, w))"

text \<open>Header, MAC and encryption.\<close>

definition send2_seal :: "('c, 'z) libs \<Rightarrow> mac option \<Rightarrow> byte \<Rightarrow> ('c, 'z) world \<Rightarrow> (u32 \<times> ('c, 'z) world) result" where
  "send2_seal L m padlen w =
     (let packet_length = buffer_len (outgoing_packet w) - 4;
          op = buffer_poke (buffer_poke (outgoing_packet w) 0 (put_u32 packet_length)) 4 [padlen];
          len = buffer_len op
      in rbind (case m of
                  None \<Rightarrow> Inr []
                | Some m \<Rightarrow> rbind (mac_compute (l_mac L) m (seqnr (p_send w)) (take (unat len) (buffer_ptr op))) (\<lambda>d.
                    Inr (take (unat (mac_len m)) d))) (\<lambda>macbuf.
         rbind (crypt_append (l_evp L) (send_context w) (s_output w) (buffer_ptr op) len) (\<lambda>(cc, out).
         rbind (case m of None \<Rightarrow> Inr out | Some m \<Rightarrow> buffer_append out macbuf (mac_len m)) (\<lambda>out.
           Inr (packet_length, w\<lparr>outgoing_packet := op, send_context := cc, s_output := out\<rparr>)))))"

definition send2_account :: "u32 \<Rightarrow> u32 \<Rightarrow> ('c, 'z) world \<Rightarrow> ('c, 'z) world result" where
  "send2_account packet_length block_size w =
     (let p = (p_send w)\<lparr>seqnr := seqnr (p_send w) + 1, packets := packets (p_send w) + 1\<rparr> in
      if packets p = 0 \<and> datafellows w AND SSH_BUG_NOREKEY = 0
      then Inl (Fatal ''XXX too many packets with same key'')
      else Inr (w\<lparr>p_send := p\<lparr>blocks := blocks p + ucast ((packet_length + 4) div block_size),
                             bytes := bytes p + ucast (packet_length + 4)\<rparr>,
                  outgoing_packet := buffer_clear (outgoing_packet w)\<rparr>))"

definition active_mac :: "newkeys option \<Rightarrow> mac option" where
  "active_mac keys = (case keys of Some nk \<Rightarrow> if mac_enabled (nk_mac nk) then Some (nk_mac nk) else None | None \<Rightarrow> None)"

definition packet_send2_wrapped :: "('c, 'z) libs \<Rightarrow> ('c, 'z) world \<Rightarrow> ('c, 'z) world result" where
  "packet_send2_wrapped L w =
     (let keys = newkeys_out w;
          block_size = (case keys of None \<Rightarrow> 8 | Some nk \<Rightarrow> enc_block_size (nk_enc nk))
      in rbind (buffer_peek (outgoing_packet w) 5) (\<lambda>type.
         rbind (if (case keys of None \<Rightarrow> False | Some nk \<Rightarrow> comp_enabled (nk_comp nk))
                then send2_compress L w else Inr w) (\<lambda>w.
         rbind (send2_padlen (buffer_len (outgoing_packet w)) block_size (extra_pad w)) (\<lambda>padlen.
         let (pad, w) = send2_padding padlen (w\<lparr>extra_pad := 0\<rparr>) in
         rbind (buffer_append (outgoing_packet w) pad (ucast padlen)) (\<lambda>op.
         rbind (send2_seal L (active_mac keys) padlen (w\<lparr>outgoing_packet := op\<rparr>)) (\<lambda>(packet_length, w).
         rbind (send2_account packet_length block_size w) (\<lambda>w.
           if type = SSH2_MSG_NEWKEYS then set_newkeys L MODE_OUT w
           else if type = SSH2_MSG_USERAUTH_SUCCESS \<and> server_side w then packet_enable_delayed_compress L w
           else Inr w)))))))"

text \<open>The queue is emptied after new keys were taken into use.\<close>

fun send_queue :: "('c, 'z) libs \<Rightarrow> (byte \<times> buffer) list \<Rightarrow> ('c, 'z) world \<Rightarrow> ('c, 'z) world result" where
  "send_queue L [] w = Inr w"
| "send_queue L ((t, b) # q) w =
     rbind (packet_send2_wrapped L (w\<lparr>outgoing_packet := b, outgoing := q\<rparr>)) (send_queue L q)"

definition packet_send2 :: "('c, 'z) libs \<Rightarrow> ('c, 'z) world \<Rightarrow> ('c, 'z) world result" where
  "packet_send2 L w =
     rbind (buffer_peek (outgoing_packet w) 5) (\<lambda>type.
       if rekeying w \<and> \<not> (type \<ge> SSH2_MSG_TRANSPORT_MIN \<and> type \<le> SSH2_MSG_TRANSPORT_MAX)
       then Inr (w\<lparr>outgoing := outgoing w @ [(type, outgoing_packet w)], outgoing_packet := buffer_init\<rparr>)
       else let w = (if type = SSH2_MSG_KEXINIT then w\<lparr>rekeying := True\<rparr> else w) in
         rbind (packet_send2_wrapped L w) (\<lambda>w.
           if type = SSH2_MSG_NEWKEYS then send_queue L (outgoing w) (w\<lparr>rekeying := False\<rparr>) else Inr w))"

section \<open>Protocol 1\<close>

definition send1_compress :: "('c, 'z) libs \<Rightarrow> ('c, 'z) world \<Rightarrow> ('c, 'z) world result" where
  "send1_compress L w =
     rbind (buffer_consume (outgoing_packet w) 8) (\<lambda>op.
     rbind (buffer_append (buffer_clear (compression_buffer w)) [0, 0, 0, 0, 0, 0, 0, 0] 8) (\<lambda>cb.
     rbind (buffer_compress (l_zlib L) op cb (zstate w)) (\<lambda>(z, cb).
     rbind (buffer_append (buffer_clear op) (buffer_ptr cb) (buffer_len cb)) (\<lambda>op.
       Inr (w\<lparr>outgoing_packet := op, compression_buffer := cb, zstate := z\<rparr>)))))"

text \<open>
  The length counts the checksum and not the padding. The eight bytes in front of the packet are
  overwritten from their end with as much random padding as is needed, and the rest is dropped.
\<close>

definition packet_send1 :: "('c, 'z) libs \<Rightarrow> ('c, 'z) world \<Rightarrow> ('c, 'z) world result" where
  "packet_send1 L w =
     rbind (if packet_compression w then send1_compress L w else Inr w) (\<lambda>w.
     let len = buffer_len (outgoing_packet w) + 4 - 8;
         padding = 8 - unat (len mod 8);
         (op, w) = (if cc_plaintext (send_context w) then (outgoing_packet w, w)
                    else let (r, w) = random_bytes padding 0 0 w
                         in (buffer_poke (outgoing_packet w) (8 - padding) (rev r), w))
     in
     rbind (buffer_consume op (of_nat (8 - padding))) (\<lambda>op.
     let checksum = ssh_crc32 (buffer_ptr op) (buffer_len op) in
     rbind (buffer_append op (put_u32 checksum) 4) (\<lambda>op.
     rbind (buffer_append (s_output w) (put_u32 len) 4) (\<lambda>out.
     rbind (crypt_append (l_evp L) (send_context w) out (buffer_ptr op) (buffer_len op)) (\<lambda>(cc, out).
       Inr (w\<lparr>send_context := cc, s_output := out, outgoing_packet := buffer_clear op,
              p_send := (p_send w)\<lparr>packets := packets (p_send w) + 1,
                                  bytes := bytes (p_send w) + ucast (len + buffer_len op)\<rparr>\<rparr>))))))"

definition packet_send :: "('c, 'z) libs \<Rightarrow> ('c, 'z) world \<Rightarrow> ('c, 'z) world result" where
  "packet_send L w = (if compat20 w then packet_send2 L w else packet_send1 L w)"

section \<open>Junk and notifications\<close>

fun put_chars :: "byte list \<Rightarrow> ('c, 'z) world \<Rightarrow> ('c, 'z) world result" where
  "put_chars [] w = Inr w"
| "put_chars (c # cs) w = rbind (packet_put_char (ucast c) w) (put_chars cs)"

definition packet_send_ignore :: "int \<Rightarrow> ('c, 'z) world \<Rightarrow> ('c, 'z) world result" where
  "packet_send_ignore nbytes w =
     rbind (packet_start (if compat20 w then SSH2_MSG_IGNORE else SSH_MSG_IGNORE) w) (\<lambda>w.
     rbind (packet_put_int (word_of_int nbytes) w) (\<lambda>w.
       let (r, w) = random_bytes (nat nbytes) 0 0 w in put_chars r w))"

definition notify_type :: "char \<Rightarrow> byte option" where
  "notify_type flag =
     (if flag = CHR ''u'' then Some NOTIFY_UNLOAD
      else if flag = CHR ''o'' then Some NOTIFY_ONLOAD
      else if flag = CHR ''k'' then Some NOTIFY_URLACK
      else if flag = CHR ''t'' then Some NOTIFY_TEND
      else if flag = CHR ''s'' then Some NOTIFY_SYNC
      else if flag = CHR ''p'' then Some NOTIFY_PADDINGDONE
      else if flag = CHR ''l'' then Some NOTIFY_URL
      else if flag = CHR ''n'' then Some NOTIFY_NORMAL
      else None)"

text \<open>A URL is filled up to 300 bytes, so that its length does not show.\<close>

definition packet_send_notify :: "int \<Rightarrow> char \<Rightarrow> ('c, 'z) world \<Rightarrow> ('c, 'z) world result" where
  "packet_send_notify nbytes flag w =
     (case notify_type flag of
        None \<Rightarrow> Inr w
      | Some t \<Rightarrow>
          rbind (packet_start t w) (\<lambda>w.
          rbind (packet_put_int (word_of_int nbytes) w) (\<lambda>w.
            if flag = CHR ''l''
            then rbind (put_chars (take (nat nbytes) (url (w_cs w))) w) (\<lambda>w.
                   let (r, w) = random_bytes (nat (300 - nbytes)) 0 0 w in put_chars r w)
            else let (r, w) = random_bytes (nat nbytes) 0 0 w in put_chars r w)))"

end
