(* ===== verification/PacketRecv.thy ===== *)
theory PacketRecv
  imports PacketSend
begin

text \<open>
  Receiving: bytes from the socket are appended to the input buffer, complete packets are taken out
  of it, checked, decrypted and uncompressed, and the messages of the transport layer and of the
  padding protocol are handled before a packet reaches its caller.
\<close>

section \<open>Discarding after an error\<close>

text \<open>
  A bad length or MAC under a cipher in CBC mode is not reported at once: input is swallowed up to
  the maximal packet size first, and a MAC computed over as many bytes as a good packet would have.
\<close>

fun discard_fill :: "nat \<Rightarrow> buffer \<Rightarrow> buffer result" where
  "discard_fill 0 b = Inl NoReturn"
| "discard_fill (Suc fuel) b =
     (if buffer_len b < PACKET_MAX_SIZE
      then rbind (buffer_append b (replicate 1024 97) 1024) (discard_fill fuel)
      else Inr b)"

definition packet_stop_discard :: "('c, 'z) libs \<Rightarrow> ('c, 'z) world \<Rightarrow> ('c, 'z) world result" where
  "packet_stop_discard L w =
     rbind (case packet_discard_mac w of
              None \<Rightarrow> Inr ()
            | Some m \<Rightarrow>
                rbind (discard_fill 258 (incoming_packet w)) (\<lambda>b.
                rbind (mac_compute (l_mac L) m (seqnr (p_read w)) (take (unat PACKET_MAX_SIZE) (buffer_ptr b))) (\<lambda>_.
                  Inr ()))) (\<lambda>_. Inl (CleanupExit 255))"

definition packet_start_discard :: "('c, 'z) libs \<Rightarrow> enc option \<Rightarrow> mac option \<Rightarrow> u32 \<Rightarrow> u32 \<Rightarrow> ('c, 'z) world \<Rightarrow>
    ('c, 'z) world result" where
  "packet_start_discard L e m packet_length discard w =
     (if (case e of None \<Rightarrow> True | Some e \<Rightarrow> cipher_is_cbc (enc_cipher e) = 0) then Inl (Disconnect ''Packet corrupt'')
      else let w = (case m of
                      Some m \<Rightarrow> if packet_length \<noteq> PACKET_MAX_SIZE \<and> mac_enabled m
                                then w\<lparr>packet_discard_mac := Some m\<rparr> else w
                    | None \<Rightarrow> w)
      in if buffer_len (s_input w) \<ge> discard then packet_stop_discard L w
         else Inr (w\<lparr>packet_discard := discard - buffer_len (s_input w)\<rparr>))"

section \<open>Protocol 1\<close>

definition uncompress_incoming :: "('c, 'z) libs \<Rightarrow> ('c, 'z) world \<Rightarrow> ('c, 'z) world result" where
  "uncompress_incoming L w =
     rbind (buffer_uncompress (l_zlib L) (incoming_packet w) (buffer_clear (compression_buffer w)) (zstate w)) (\<lambda>(z, cb).
     rbind (buffer_append (buffer_clear (incoming_packet w)) (buffer_ptr cb) (buffer_len cb)) (\<lambda>ip.
       Inr (w\<lparr>incoming_packet := ip, compression_buffer := cb, zstate := z\<rparr>)))"

definition check_attack :: "byte list \<Rightarrow> u32 \<Rightarrow> ('c, 'z) world \<Rightarrow> ('c, 'z) world result" where
  "check_attack buf len w =
     (if cc_plaintext (receive_context w) then Inr w
      else rbind (detect_attack buf len (attack w)) (\<lambda>(r, st).
        case r of
          DEATTACK_DETECTED \<Rightarrow> Inl (Disconnect ''crc32 compensation attack: network attack detected'')
        | DEATTACK_DOS_DETECTED \<Rightarrow> Inl (Disconnect ''deattack denial of service detected'')
        | DEATTACK_OK \<Rightarrow> Inr (w\<lparr>attack := st\<rparr>)))"

definition packet_read_poll1 :: "('c, 'z) libs \<Rightarrow> ('c, 'z) world \<Rightarrow> (byte \<times> ('c, 'z) world) result" where
  "packet_read_poll1 L w =
     (if buffer_len (s_input w) < 4 + 8 then Inr (SSH_MSG_NONE, w)
      else let len = get_u32 (buffer_ptr (s_input w)) in
      if len < 1 + 2 + 2 \<or> len > 256 * 1024 then Inl (Disconnect ''Bad packet length'')
      else let padded_len = (len + 8) AND NOT 7 in
      if buffer_len (s_input w) < 4 + padded_len then Inr (SSH_MSG_NONE, w)
      else
        rbind (buffer_consume (s_input w) 4) (\<lambda>inp.
        rbind (check_attack (buffer_ptr inp) padded_len w) (\<lambda>w.
        rbind (crypt_append (l_evp L) (receive_context w) (buffer_clear (incoming_packet w)) (buffer_ptr inp) padded_len) (\<lambda>(cc, ip).
        rbind (buffer_consume inp padded_len) (\<lambda>inp.
        let checksum = ssh_crc32 (buffer_ptr ip) (buffer_len ip - 4) in
        rbind (buffer_consume ip (8 - len mod 8)) (\<lambda>ip.
        if len \<noteq> buffer_len ip then Inl (Disconnect ''packet_read_poll1: len != buffer_len'')
        else if checksum \<noteq> get_u32 (drop (unat (len - 4)) (buffer_ptr ip)) then Inl (Disconnect ''Corrupted check bytes on input.'')
        else
          rbind (buffer_consume_end ip 4) (\<lambda>ip.
          let w = w\<lparr>s_input := inp, receive_context := cc, incoming_packet := ip\<rparr> in
          rbind (if packet_compression w then uncompress_incoming L w else Inr w) (\<lambda>w.
          let w = w\<lparr>p_read := (p_read w)\<lparr>packets := packets (p_read w) + 1, bytes := bytes (p_read w) + ucast (padded_len + 4)\<rparr>\<rparr> in
          rbind (buffer_get_char (incoming_packet w)) (\<lambda>(type, ip).
          if type < SSH_MSG_MIN \<or> type > SSH_MSG_MAX then Inl (Disconnect ''Invalid ssh1 packet type'')
          else Inr (type, w\<lparr>incoming_packet := ip\<rparr>))))))))))"

section \<open>Protocol 2\<close>

text \<open>The first block of a packet and its length; \<open>None\<close> when there is not enough input, or when the
  length was bad and input is being discarded.\<close>

definition poll2_first :: "('c, 'z) libs \<Rightarrow> enc option \<Rightarrow> mac option \<Rightarrow> u32 \<Rightarrow> ('c, 'z) world \<Rightarrow>
    (bool \<times> ('c, 'z) world) result" where
  "poll2_first L e m block_size w =
     (if packlen w \<noteq> 0 then Inr (True, w)
      else if buffer_len (s_input w) < block_size then Inr (False, w)
      else
        rbind (crypt_append (l_evp L) (receive_context w) (buffer_clear (incoming_packet w)) (buffer_ptr (s_input w)) block_size)
          (\<lambda>(cc, ip).
        let w = w\<lparr>receive_context := cc, incoming_packet := ip, packlen := get_u32 (buffer_ptr ip)\<rparr> in
        if packlen w < 1 + 4 \<or> packlen w > PACKET_MAX_SIZE
        then rbind (packet_start_discard L e m (packlen w) PACKET_MAX_SIZE w) (\<lambda>w. Inr (False, w))
        else rbind (buffer_consume (s_input w) block_size) (\<lambda>inp. Inr (True, w\<lparr>s_input := inp\<rparr>))))"

text \<open>The MAC behind the packet.\<close>

definition poll2_mac :: "('c, 'z) libs \<Rightarrow> enc option \<Rightarrow> mac option \<Rightarrow> u32 \<Rightarrow> ('c, 'z) world \<Rightarrow>
    (bool \<times> ('c, 'z) world) result" where
  "poll2_mac L e m need w =
     (case m of
        None \<Rightarrow> Inr (True, w)
      | Some mc \<Rightarrow>
          if \<not> mac_enabled mc then Inr (True, w)
          else rbind (mac_compute (l_mac L) mc (seqnr (p_read w))
                        (take (unat (buffer_len (incoming_packet w))) (buffer_ptr (incoming_packet w)))) (\<lambda>d.
            if take (unat (mac_len mc)) d \<noteq> take (unat (mac_len mc)) (buffer_ptr (s_input w))
            then if need > PACKET_MAX_SIZE then Inl (Fatal ''internal error need'')
                 else rbind (packet_start_discard L e m (packlen w) (PACKET_MAX_SIZE - need) w) (\<lambda>w. Inr (False, w))
            else rbind (buffer_consume (s_input w) (mac_len mc)) (\<lambda>inp. Inr (True, w\<lparr>s_input := inp\<rparr>))))"

definition read_account :: "u32 \<Rightarrow> ('c, 'z) world \<Rightarrow> ('c, 'z) world result" where
  "read_account block_size w =
     (let p = (p_read w)\<lparr>seqnr := seqnr (p_read w) + 1, packets := packets (p_read w) + 1\<rparr> in
      if packets p = 0 \<and> datafellows w AND SSH_BUG_NOREKEY = 0
      then Inl (Fatal ''XXX too many packets with same key'')
      else Inr (w\<lparr>p_read := p\<lparr>blocks := blocks p + ucast ((packlen w + 4) div block_size),
                             bytes := bytes p + ucast (packlen w + 4)\<rparr>\<rparr>))"

definition notify_msg :: "byte \<Rightarrow> bool" where
  "notify_msg type \<longleftrightarrow> type \<in> {NOTIFY_ONLOAD, NOTIFY_UNLOAD, NOTIFY_SYNC, NOTIFY_TEND, NOTIFY_PADDINGDONE,
     NOTIFY_URL, NOTIFY_NORMAL, NOTIFY_URLACK}"

text \<open>Padding and compression are taken off, the type is read, and keys or compression change.\<close>

definition poll2_open :: "('c, 'z) libs \<Rightarrow> bool \<Rightarrow> ('c, 'z) world \<Rightarrow> (byte \<times> ('c, 'z) world) result" where
  "poll2_open L compressed w =
     rbind (buffer_peek (incoming_packet w) 4) (\<lambda>padlen.
     if padlen < 4 then Inl (Disconnect ''Corrupted padlen on input.'')
     else
       rbind (buffer_consume (incoming_packet w) (4 + 1)) (\<lambda>ip.
       rbind (buffer_consume_end ip (ucast padlen)) (\<lambda>ip.
       rbind (if compressed then uncompress_incoming L (w\<lparr>incoming_packet := ip\<rparr>) else Inr (w\<lparr>incoming_packet := ip\<rparr>)) (\<lambda>w.
       rbind (buffer_get_char (incoming_packet w)) (\<lambda>(type, ip).
       let w = w\<lparr>incoming_packet := ip\<rparr> in
       if (type < 1 \<or> type \<ge> SSH2_MSG_LOCAL_MIN) \<and> \<not> notify_msg type then Inl (Disconnect ''Invalid ssh2 packet type'')
       else rbind (if type = SSH2_MSG_NEWKEYS then set_newkeys L MODE_IN w
                   else if type = SSH2_MSG_USERAUTH_SUCCESS \<and> \<not> server_side w then packet_enable_delayed_compress L w
                   else Inr w) (\<lambda>w.
         Inr (type, w\<lparr>packlen := 0\<rparr>)))))))"

definition packet_read_poll2 :: "('c, 'z) libs \<Rightarrow> ('c, 'z) world \<Rightarrow> (byte \<times> u32 option \<times> ('c, 'z) world) result" where
  "packet_read_poll2 L w =
     (if packet_discard w \<noteq> 0 then Inr (SSH_MSG_NONE, None, w)
      else let keys = newkeys_in w;
               e = map_option nk_enc keys;
               m = map_option nk_mac keys;
               compressed = (case keys of None \<Rightarrow> False | Some nk \<Rightarrow> comp_enabled (nk_comp nk));
               maclen = (case m of Some mc \<Rightarrow> if mac_enabled mc then mac_len mc else 0 | None \<Rightarrow> 0);
               block_size = (case e of None \<Rightarrow> 8 | Some e \<Rightarrow> enc_block_size e)
      in rbind (poll2_first L e m block_size w) (\<lambda>(go, w).
         if \<not> go then Inr (SSH_MSG_NONE, None, w)
         else let need = 4 + packlen w - block_size in
         if block_size = 0 then Inl (MemFault ''packet_read_poll2: division by zero'')
         else if need mod block_size \<noteq> 0
         then rbind (packet_start_discard L e m (packlen w) (PACKET_MAX_SIZE - block_size) w)
                (\<lambda>w. Inr (SSH_MSG_NONE, None, w))
         else if buffer_len (s_input w) < need + maclen then Inr (SSH_MSG_NONE, None, w)
         else
           rbind (crypt_append (l_evp L) (receive_context w) (incoming_packet w) (buffer_ptr (s_input w)) need) (\<lambda>(cc, ip).
           rbind (buffer_consume (s_input w) need) (\<lambda>inp.
           rbind (poll2_mac L e m need (w\<lparr>receive_context := cc, incoming_packet := ip, s_input := inp\<rparr>)) (\<lambda>(go, w).
           if \<not> go then Inr (SSH_MSG_NONE, None, w)
           else let sq = seqnr (p_read w) in
             rbind (read_account block_size w) (\<lambda>w.
             rbind (poll2_open L compressed w) (\<lambda>(type, w).
               Inr (type, Some sq, w))))))))"

section \<open>Messages of the transport layer and of the padding protocol\<close>

abbreviation upd_cs :: "(cs_state \<Rightarrow> cs_state) \<Rightarrow> ('c, 'z) world \<Rightarrow> ('c, 'z) world" where
  "upd_cs f w \<equiv> w\<lparr>w_cs := f (w_cs w)\<rparr>"

text \<open>The end of a gap in the incoming traffic: only packets that carry data count.\<close>

definition note_arrival :: "byte \<Rightarrow> ('c, 'z) world \<Rightarrow> ('c, 'z) world" where
  "note_arrival type w =
     (if type \<noteq> SSH2_MSG_IGNORE \<and> type \<noteq> SSH_MSG_NONE \<and> \<not> notify_msg type
      then let (cur_ts, w) = read_clock w; s = w_cs w in
           if tend_set s = 0 \<and> cur_ts > ts_start s \<or> tend_set s \<noteq> 0 \<and> ts_end s \<le> ts_start s
           then upd_cs (set_ts_end cur_ts \<circ> set_tend_set 1) w else w
      else w)"

text \<open>A normal-mode notification; the lock file it removes is not modelled.\<close>

definition recv_normal :: "cs_state \<Rightarrow> cs_state" where
  "recv_normal s = (if stmode s = -1 then unset_server_entering_normal s else set_server_entering_normal s)"

text \<open>The server learns the URL of the page and chooses between replaying the trace of its cluster,
  which it acknowledges, and constant-rate padding.\<close>

definition recv_url2 :: "('c, 'z) libs \<Rightarrow> ('c, 'z) world \<Rightarrow> ('c, 'z) world result" where
  "recv_url2 L w =
     rbind (set_url (buffer_ptr (incoming_packet w)) 4
              (unset_sent_tend (unset_transcript_end (unset_onload_flag (w_cs w))))) (\<lambda>s.
     rbind (set_cluster_id (l_st_junk L) (l_cluster_file L) (l_st_file L) (url s) s) (\<lambda>s.
       if cluster_id s \<noteq> -1
       then rbind (set_first_sent (set_st_idle_start 0 (set_stmode 1 (set_trans_padded_remaining 0 (unset_trans_padded s))))) (\<lambda>s.
            rbind (packet_send_notify 4 CHR ''k'' (w\<lparr>w_cs := set_received_sofar (first_expected s) s\<rparr>)) (\<lambda>w.
              packet_send L w))
       else Inr (w\<lparr>w_cs := set_stmode 0 (set_unload_flag (unset_paddingdone_flag s))\<rparr>)))"

text \<open>One packet of protocol 2: \<open>None\<close> goes on to the next one, \<open>Some\<close> returns to the caller.\<close>

definition dispatch2 :: "('c, 'z) libs \<Rightarrow> byte \<Rightarrow> ('c, 'z) world \<Rightarrow> (byte option \<times> ('c, 'z) world) result" where
  "dispatch2 L type w =
     (if type = SSH2_MSG_IGNORE then Inr (None, w)
      else if type = NOTIFY_SYNC then Inr (None, w)
      else if type = NOTIFY_ONLOAD then Inr (None, upd_cs set_onload_flag w)
      else if type = NOTIFY_UNLOAD then Inr (None, upd_cs (set_unload_flag \<circ> unset_paddingdone_flag) w)
      else if type = NOTIFY_TEND then Inr (None, upd_cs set_transcript_end w)
      else if type = NOTIFY_NORMAL then Inr (None, upd_cs recv_normal w)
      else if type = NOTIFY_PADDINGDONE then Inr (None, upd_cs set_paddingdone_flag w)
      else if type = NOTIFY_URLACK then Inr (None, upd_cs set_urlack w)
      else if type = NOTIFY_URL then rbind (recv_url2 L w) (\<lambda>w. Inr (None, w))
      else if type = SSH2_MSG_DEBUG
      then rbind (packet_get_char w) (\<lambda>(_, w). rbind (packet_get_string w) (\<lambda>(_, w).
           rbind (packet_get_string w) (\<lambda>(_, w). Inr (None, w))))
      else if type = SSH2_MSG_DISCONNECT
      then rbind (packet_get_int w) (\<lambda>(_, w). rbind (packet_get_string w) (\<lambda>(_, w). Inl (CleanupExit 255)))
      else if type = SSH2_MSG_UNIMPLEMENTED then rbind (packet_get_int w) (\<lambda>(_, w). Inr (None, w))
      else Inr (Some type, w))"

definition dispatch1 :: "byte \<Rightarrow> ('c, 'z) world \<Rightarrow> (byte option \<times> ('c, 'z) world) result" where
  "dispatch1 type w =
     (if type = SSH_MSG_IGNORE then Inr (None, w)
      else if type = NOTIFY_SYNC then Inr (None, w)
      else if type = NOTIFY_ONLOAD then Inr (None, upd_cs set_onload_flag w)
      else if type = NOTIFY_UNLOAD then Inr (None, upd_cs (set_unload_flag \<circ> unset_paddingdone_flag) w)
      else if type = NOTIFY_TEND then Inr (None, upd_cs set_transcript_end w)
      else if type = NOTIFY_URLACK then Inr (None, upd_cs set_urlack w)
      else if type = NOTIFY_NORMAL then Inr (None, upd_cs recv_normal w)
      else if type = NOTIFY_PADDINGDONE then Inr (None, upd_cs set_paddingdone_flag w)
      else if type = NOTIFY_URL
      then rbind (set_url (buffer_ptr (incoming_packet w)) 0
                    (unset_sent_tend (unset_transcript_end (unset_onload_flag (w_cs w))))) (\<lambda>s.
             Inr (None, w\<lparr>w_cs := s\<rparr>))
      else if type = SSH_MSG_DEBUG then rbind (packet_get_string w) (\<lambda>(_, w). Inr (None, w))
      else if type = SSH_MSG_DISCONNECT then rbind (packet_get_string w) (\<lambda>(_, w). Inl (CleanupExit 255))
      else Inr (Some type, w))"

text \<open>
  The loop over the packets in the input buffer. Each of them takes at least one byte out of it, but
  for one whose first block was taken before, so that its length and two is fuel enough.
\<close>

fun read_poll_loop :: "nat \<Rightarrow> ('c, 'z) libs \<Rightarrow> u32 option \<Rightarrow> ('c, 'z) world \<Rightarrow> (byte \<times> u32 option \<times> ('c, 'z) world) result" where
  "read_poll_loop 0 L sq w = Inl NoReturn"
| "read_poll_loop (Suc fuel) L sq w =
     (if compat20 w
      then rbind (packet_read_poll2 L w) (\<lambda>(type, sq', w).
           let sq = (case sq' of None \<Rightarrow> sq | Some _ \<Rightarrow> sq');
               w = (if type \<noteq> 0 then w\<lparr>keep_alive_timeouts := 0\<rparr> else w);
               w = note_arrival type w
           in rbind (dispatch2 L type w) (\<lambda>(r, w).
                case r of Some t \<Rightarrow> Inr (t, sq, w) | None \<Rightarrow> read_poll_loop fuel L sq w))
      else rbind (packet_read_poll1 L w) (\<lambda>(type, w).
           rbind (dispatch1 type w) (\<lambda>(r, w).
             case r of Some t \<Rightarrow> Inr (t, sq, w) | None \<Rightarrow> read_poll_loop fuel L sq w)))"

definition packet_read_poll_seqnr :: "('c, 'z) libs \<Rightarrow> ('c, 'z) world \<Rightarrow> (byte \<times> u32 option \<times> ('c, 'z) world) result" where
  "packet_read_poll_seqnr L w = read_poll_loop (Suc (Suc (unat (buffer_len (s_input w))))) L None w"

definition packet_process_incoming :: "('c, 'z) libs \<Rightarrow> byte list \<Rightarrow> u32 \<Rightarrow> ('c, 'z) world \<Rightarrow> ('c, 'z) world result" where
  "packet_process_incoming L buf len w =
     (if packet_discard w \<noteq> 0
      then let w = w\<lparr>keep_alive_timeouts := 0\<rparr> in
           if len \<ge> packet_discard w then packet_stop_discard L w
           else Inr (w\<lparr>packet_discard := packet_discard w - len\<rparr>)
      else let w = upd_cs (set_received_sofar (received_sofar (w_cs w) + ucast len)) w in
           rbind (buffer_append (s_input w) buf len) (\<lambda>b. Inr (w\<lparr>s_input := b\<rparr>)))"

end
