(* ===== verification/PacketWrite.thy ===== *)
theory PacketWrite
  imports PacketRecv
begin

text \<open>
  Writing to the socket. \<open>packet_write_poll\<close> is where the traffic takes its shape: it writes at the
  times and in the amounts the padding scheme sets, and fills up with packets of junk what the
  real data leaves open.
\<close>

section \<open>One write\<close>

text \<open>The loop that appends empty junk packets until there is enough output.\<close>

fun pad_loop :: "nat \<Rightarrow> ('c, 'z) libs \<Rightarrow> int \<Rightarrow> ('c, 'z) world \<Rightarrow> ('c, 'z) world result" where
  "pad_loop 0 L actual_write w = Inl NoReturn"
| "pad_loop (Suc fuel) L actual_write w =
     (if int (unat (buffer_len (s_output w))) < actual_write
      then rbind (packet_send_ignore 0 w) (\<lambda>w. rbind (packet_send L w) (pad_loop fuel L actual_write))
      else Inr w)"

definition pad_output :: "('c, 'z) libs \<Rightarrow> int \<Rightarrow> ('c, 'z) world \<Rightarrow> ('c, 'z) world result" where
  "pad_output L actual_write w =
     (let ori_len = int (unat (buffer_len (s_output w)));
          amount = actual_write - ori_len - 16
      in rbind (packet_send_ignore (if amount > 0 then amount + 6 else 0) w) (\<lambda>w.
         rbind (packet_send L w) (\<lambda>w.
         rbind (pad_loop (Suc (nat actual_write)) L actual_write w) (\<lambda>w.
           Inr (upd_cs (\<lambda>s. set_padded_junk (int (unat (buffer_len (s_output w))) - ori_len + padded_junk s) s) w)))))"

abbreviation tcp_limit :: int where "tcp_limit \<equiv> 4096 * 4"
abbreviation minsize :: int where "minsize \<equiv> 128"

text \<open>In normal mode, and after the end of a transcript, the amount follows the data; otherwise it is
  what is due, as far as the kernel queue has room.\<close>

definition free_running :: "cs_state \<Rightarrow> bool" where
  "free_running s \<longleftrightarrow> stmode s = -1 \<or> stmode s = 1 \<and> sent_tend s = 1"

definition write_amount :: "int \<Rightarrow> int \<Rightarrow> int \<Rightarrow> cs_state \<Rightarrow> int" where
  "write_amount ori_w2w outq len s =
     (if free_running s
      then if trans_padded_remaining s \<le> 0 then if len > 32 then minsize else len else minsize
      else let a2w = (if outq < tcp_limit then tcp_limit - outq else 0)
           in if a2w < ori_w2w then a2w else ori_w2w)"

text \<open>Writing \<open>len\<close> bytes; returns the new value of \<open>*ori_w2w\<close>.\<close>

definition flush_output :: "os_answer \<Rightarrow> int \<Rightarrow> int \<Rightarrow> ('c, 'z) world \<Rightarrow> (int \<times> ('c, 'z) world) result" where
  "flush_output a ori_w2w len w =
     (let ret = min (os_ret a) len in
      if ret = -1 then if os_again a then Inr (ori_w2w, w) else Inl (Fatal ''Write failed'')
      else if ret = 0 \<and> \<not> os_cont a then Inl (Fatal ''Write connection closed'')
      else
        rbind (buffer_consume (s_output w) (word_of_int ret)) (\<lambda>out.
        let w = w\<lparr>wire_out := wire_out w @ [take (nat ret) (buffer_ptr (s_output w))], s_output := out\<rparr>;
            w = (if free_running (w_cs w) \<and> trans_padded_remaining (w_cs w) > 0
                 then upd_cs (decrease_trans_padded_remaining ret) w else w)
        in Inr (if stmode (w_cs w) = 1 \<and> ori_w2w > 0 then ori_w2w - ret else ori_w2w, w)))"

text \<open>The amount to write and, after padding, the length to write.\<close>

definition prepare_output :: "('c, 'z) libs \<Rightarrow> int \<Rightarrow> ('c, 'z) world \<Rightarrow> (int \<times> ('c, 'z) world) result" where
  "prepare_output L actual_write w =
     (if int (unat (buffer_len (s_output w))) \<ge> actual_write then Inr (actual_write, w)
      else rbind (pad_output L actual_write w) (\<lambda>w.
             Inr (if stmode (w_cs w) \<noteq> 0 then actual_write else int (unat (buffer_len (s_output w))), w)))"

definition packet_write_poll_one_write :: "('c, 'z) libs \<Rightarrow> int \<Rightarrow> ('c, 'z) world \<Rightarrow> (int \<times> ('c, 'z) world) result" where
  "packet_write_poll_one_write L ori_w2w w =
     (let a = os_src w (os_pos w);
          w = w\<lparr>os_pos := Suc (os_pos w)\<rparr>;
          actual_write = write_amount ori_w2w (os_outq a) (int (unat (buffer_len (s_output w)))) (w_cs w)
      in if actual_write > 0
         then rbind (prepare_output L actual_write w) (\<lambda>(len, w). flush_output a ori_w2w len w)
         else Inr (ori_w2w, w))"

section \<open>Polling and waiting\<close>

fun write_loop :: "nat \<Rightarrow> ('c, 'z) libs \<Rightarrow> int \<Rightarrow> ('c, 'z) world \<Rightarrow> (int \<times> ('c, 'z) world) result" where
  "write_loop 0 L ori_w2w w = (if ori_w2w > 0 then Inl NoReturn else Inr (ori_w2w, w))"
| "write_loop (Suc fuel) L ori_w2w w =
     (if ori_w2w > 0 then rbind (packet_write_poll_one_write L ori_w2w w) (\<lambda>(rest, w). write_loop fuel L rest w)
      else Inr (ori_w2w, w))"

text \<open>The loop writes until the amount is through, for as many rounds as \<open>fuel\<close> allows.\<close>

definition write_due :: "nat \<Rightarrow> ('c, 'z) libs \<Rightarrow> ('c, 'z) world \<Rightarrow> ('c, 'z) world result" where
  "write_due fuel L w =
     (let ori_w2w = w2w (w_cs w); w = upd_cs (set_padded_junk 0) w in
      if stmode (w_cs w) = 1
      then rbind (if ori_w2w = 0 \<and> sent_tend (w_cs w) = 1 then packet_write_poll_one_write L ori_w2w w
                  else Inr (ori_w2w, w)) (\<lambda>(ori_w2w, w).
           rbind (write_loop fuel L ori_w2w w) (\<lambda>(_, w). Inr (upd_cs (set_w2w 0) w)))
      else rbind (packet_write_poll_one_write L ori_w2w w) (\<lambda>(_, w). Inr w))"

definition packet_write_poll :: "nat \<Rightarrow> ('c, 'z) libs \<Rightarrow> ('c, 'z) world \<Rightarrow> ('c, 'z) world result" where
  "packet_write_poll fuel L w =
     (let (now, w) = read_clock w in
      if now < packet_time_to_write w then Inr w
      else rbind (write_due fuel L w) (\<lambda>w.
        let (t, w) = update_time now (if stmode (w_cs w) = -1 then 10 * INITIAL_TAU else packet_tau w) w
        in Inr (set_updated_time t w)))"

text \<open>What \<open>select\<close> reports for writing, one element per call; without an element the call blocks.\<close>

datatype select_event = Ready | Timeout

fun write_wait_loop :: "nat \<Rightarrow> ('c, 'z) libs \<Rightarrow> select_event list \<Rightarrow> ('c, 'z) world \<Rightarrow> ('c, 'z) world result" where
  "write_wait_loop fuel L [] w = (if packet_have_data_to_write w then Inl NoReturn else Inr w)"
| "write_wait_loop fuel L (e # es) w =
     (if packet_have_data_to_write w
      then (case e of Timeout \<Rightarrow> Inl (CleanupExit 255)
            | Ready \<Rightarrow> rbind (packet_write_poll fuel L w) (write_wait_loop fuel L es))
      else Inr w)"

definition packet_write_wait :: "nat \<Rightarrow> ('c, 'z) libs \<Rightarrow> select_event list \<Rightarrow> ('c, 'z) world \<Rightarrow> ('c, 'z) world result" where
  "packet_write_wait fuel L es w = rbind (packet_write_poll fuel L w) (write_wait_loop fuel L es)"

text \<open>What \<open>select\<close> and \<open>roaming_read\<close> report together for one round of reading.\<close>

datatype read_event = ReadTimeout | ReadClosed | ReadError | ReadData "byte list"

definition poll_packet :: "('c, 'z) libs \<Rightarrow> ('c, 'z) world \<Rightarrow> (byte \<times> u32 option \<times> ('c, 'z) world) result" where
  "poll_packet L w =
     rbind (packet_read_poll_seqnr L w) (\<lambda>(type, sq, w).
       if \<not> compat20 w \<and> type \<in> {14, 15, 19, 33} \<and> packet_remaining w > 0
       then Inl (Disconnect ''Packet integrity error'') else Inr (type, sq, w))"

fun read_wait_loop :: "('c, 'z) libs \<Rightarrow> read_event list \<Rightarrow> ('c, 'z) world \<Rightarrow> (byte \<times> u32 option \<times> ('c, 'z) world) result" where
  "read_wait_loop L [] w =
     rbind (poll_packet L w) (\<lambda>(type, sq, w). if type \<noteq> SSH_MSG_NONE then Inr (type, sq, w) else Inl NoReturn)"
| "read_wait_loop L (e # es) w =
     rbind (poll_packet L w) (\<lambda>(type, sq, w).
       if type \<noteq> SSH_MSG_NONE then Inr (type, sq, w)
       else case e of
              ReadTimeout \<Rightarrow> Inl (CleanupExit 255)
            | ReadClosed \<Rightarrow> Inl (CleanupExit 255)
            | ReadError \<Rightarrow> Inl (Fatal ''Read from socket failed'')
            | ReadData d \<Rightarrow> rbind (packet_process_incoming L d (of_nat (length d)) w) (read_wait_loop L es))"

definition packet_read_seqnr :: "nat \<Rightarrow> ('c, 'z) libs \<Rightarrow> select_event list \<Rightarrow> read_event list \<Rightarrow> ('c, 'z) world \<Rightarrow>
    (byte \<times> u32 option \<times> ('c, 'z) world) result" where
  "packet_read_seqnr fuel L es rs w = rbind (packet_write_wait fuel L es w) (read_wait_loop L rs)"

definition packet_read_expect :: "nat \<Rightarrow> ('c, 'z) libs \<Rightarrow> select_event list \<Rightarrow> read_event list \<Rightarrow> byte \<Rightarrow> ('c, 'z) world \<Rightarrow>
    ('c, 'z) world result" where
  "packet_read_expect fuel L es rs expected_type w =
     rbind (packet_read_seqnr fuel L es rs w) (\<lambda>(type, _, w).
       if type \<noteq> expected_type then Inl (Disconnect ''Protocol error: expected packet type'') else Inr w)"

end
