(* ===== verification/PacketWire.thy ===== *)
theory PacketWire
  imports PacketRecv
begin

text \<open>
  What a packet looks like on the wire, and that the receiver gets back what the sender sealed. The
  lemmas lift the operations on buffers to their contents.
\<close>

section \<open>Buffers by their contents\<close>

lemma overwrite_app: "overwrite (length a + i) d (a @ b) = a @ overwrite i d b"
  by (simp add: overwrite_def add.assoc)

lemma take_ptr: "buffer_ok b \<Longrightarrow> n \<le> length (buffer_contents b) \<Longrightarrow> take n (buffer_ptr b) = take n (buffer_contents b)"
  by (simp add: length_contents) (simp add: buffer_ptr_def buffer_contents_def drop_take min_def)

lemma take_len_ptr: "buffer_ok b \<Longrightarrow> take (unat (buffer_len b)) (buffer_ptr b) = buffer_contents b"
  by (simp add: contents_ptr)

lemma peek_contents: "buffer_ok b \<Longrightarrow> i < length (buffer_contents b) \<Longrightarrow> buffer_peek b i = Inr (buffer_contents b ! i)"
proof -
  assume ok: "buffer_ok b" and i: "i < length (buffer_contents b)"
  have l: "length (buffer_contents b) \<le> length (buffer_ptr b)"
    using take_len_ptr [OF ok] by (metis length_take min.cobounded1)
  have "buffer_ptr b ! i = take (Suc i) (buffer_ptr b) ! i" by simp
  also have "\<dots> = buffer_contents b ! i" using take_ptr [OF ok, of "Suc i"] i by simp
  finally show ?thesis using l i by (simp add: buffer_peek_def)
qed

lemma poke_contents:
  assumes ok: "buffer_ok b" and fit: "i + length d \<le> length (buffer_contents b)"
  shows "buffer_ok (buffer_poke b i d)" and "buffer_contents (buffer_poke b i d) = overwrite i d (buffer_contents b)"
proof -
  let ?o = "unat (b_offset b)" and ?e = "unat (b_end b)"
  have b: "?o + i + length d \<le> ?e" "?e \<le> length (b_buf b)" "?o \<le> ?e"
    using ok fit by (auto simp: length_contents buffer_ok_def)
  then have len: "length (overwrite (?o + i) d (b_buf b)) = length (b_buf b)" by simp
  show "buffer_ok (buffer_poke b i d)" using ok len by (simp add: buffer_ok_def buffer_poke_def)
  have p: "b_buf b = take ?o (b_buf b) @ buffer_contents b @ drop ?e (b_buf b)"
  proof -
    have "take ?e (b_buf b) = take ?o (b_buf b) @ buffer_contents b"
      using append_take_drop_id [of ?o "take ?e (b_buf b)"] b(3)
      by (simp add: buffer_contents_def min_def del: append_take_drop_id)
    then show ?thesis using append_take_drop_id [of ?e "b_buf b"] by simp
  qed
  have lo: "length (take ?o (b_buf b)) = ?o" using b by simp
  have "overwrite (?o + i) d (b_buf b) = take ?o (b_buf b) @ overwrite i d (buffer_contents b @ drop ?e (b_buf b))"
    using overwrite_app [of "take ?o (b_buf b)" i d] p lo by metis
  also have "overwrite i d (buffer_contents b @ drop ?e (b_buf b)) = overwrite i d (buffer_contents b) @ drop ?e (b_buf b)"
    using fit by (simp add: overwrite_def)
  finally have e: "overwrite (?o + i) d (b_buf b) =
    take ?o (b_buf b) @ overwrite i d (buffer_contents b) @ drop ?e (b_buf b)" .
  have lx: "length (overwrite i d (buffer_contents b)) = ?e - ?o"
    using ok fit by (simp add: length_contents)
  have mn: "min (length (b_buf b)) ?o = ?o" using b by simp
  show "buffer_contents (buffer_poke b i d) = overwrite i d (buffer_contents b)"
    unfolding buffer_contents_def [of "buffer_poke b i d"] using lx b(3) by (simp add: buffer_poke_def e mn)
qed

text \<open>An append to a small queue always succeeds.\<close>

lemma append_space_small:
  assumes ok: "buffer_ok b" and small: "length (buffer_contents b) + unat len \<le> 0x100000"
  shows "\<exists>p b'. buffer_append_space b len = Inr (p, b') \<and> appended b len p b'"
proof -
  let ?r = "buffer_rewind b"
  have l: "unat len \<le> 0x100000" and lc: "len \<le> BUFFER_MAX_CHUNK" using small by (auto simp: word_le_nat_alt)
  have okr: "buffer_ok ?r" and cr: "buffer_contents ?r = buffer_contents b"
    using ok by (simp_all add: buffer_rewind_ok contents_rewind)
  obtain m c where comp: "buffer_compact ?r = (m, c)" by fastforce
  note cok = buffer_compact_ok [OF okr comp]
  have off: "unat (b_offset c) \<le> 0x100000"
    using comp cok(3,5) by (cases m) (auto simp: buffer_compact_def min_def word_le_nat_alt not_less split: if_splits)
  have "unat (b_end c) = unat (b_offset c) + length (buffer_contents b)"
    using length_contents [OF cok(1)] cok(1,2) cr by (simp add: buffer_ok_def)
  then have room: "\<not> b_end c + len < b_alloc c \<Longrightarrow> unat (b_alloc c) \<le> 0x200000"
    using fits_iff [OF cok(1) l] small off by simp
  have grow: "roundup (b_alloc c + len) BUFFER_ALLOCSZ \<le> BUFFER_MAX_LEN" if "\<not> b_end c + len < b_alloc c"
  proof -
    have "unat (b_alloc c + len) = unat (b_alloc c) + unat len" using room [OF that] l by (simp add: unat_add_small)
    then show ?thesis using room [OF that] l unat_roundup [of "b_alloc c + len"] by (simp add: word_le_nat_alt)
  qed
  have two: "buffer_check_alloc b len = check_restart (Suc (Suc 0)) ?r len"
    by (simp add: buffer_check_alloc_def numeral_2_eq_2)
  have "\<exists>d. buffer_check_alloc b len = Inr (True, d)"
  proof (cases m)
    case True
    then have again: "buffer_compact c = (False, c)"
      using cok(3) [OF True] by (simp add: buffer_compact_def not_less)
    then show ?thesis using comp True grow unfolding two by (auto simp: check_restart.simps(2))
  next
    case False
    then have "c = ?r" using cok(5) by simp
    then show ?thesis using comp False grow unfolding two by (auto simp: check_restart.simps(2))
  qed
  with append_space_spec [OF ok lc] show ?thesis by auto
qed

lemma append_small:
  assumes "buffer_ok b" and "length (buffer_contents b) + unat len \<le> 0x100000"
  shows "\<exists>b'. buffer_append b d len = Inr b'"
  using append_space_small [OF assms] by (auto simp: buffer_append_def)

lemma consume_spec:
  assumes "buffer_ok b" and "unat n \<le> length (buffer_contents b)"
  shows "\<exists>b'. buffer_consume b n = Inr b' \<and> buffer_ok b' \<and> buffer_contents b' = drop (unat n) (buffer_contents b)"
proof -
  have "\<not> n > b_end b - b_offset b"
    using unat_buffer_len [OF assms(1)] assms(2) by (simp add: buffer_len_def word_less_nat_alt)
  then show ?thesis using consumed_ok [OF assms] by (auto simp: buffer_consume_def buffer_consume_ret_def)
qed

lemma consume_end_spec:
  assumes ok: "buffer_ok b" and n: "unat n \<le> length (buffer_contents b)"
  shows "\<exists>b'. buffer_consume_end b n = Inr b' \<and> buffer_ok b' \<and>
    buffer_contents b' = take (length (buffer_contents b) - unat n) (buffer_contents b)"
proof -
  have "\<not> n > b_end b - b_offset b"
    using unat_buffer_len [OF ok] n by (simp add: buffer_len_def word_less_nat_alt)
  moreover have u: "unat (b_end b - n) = unat (b_end b) - unat n"
    using n length_contents [OF ok] by (intro unat_sub_small) simp
  moreover have "buffer_ok (b\<lparr>b_end := b_end b - n\<rparr>)"
    using ok n length_contents [OF ok] by (auto simp: buffer_ok_def u)
  moreover have "buffer_contents (b\<lparr>b_end := b_end b - n\<rparr>) =
      take (length (buffer_contents b) - unat n) (buffer_contents b)"
    using ok n length_contents [OF ok] by (auto simp: buffer_contents_def u take_drop min_def buffer_ok_def)
  ultimately show ?thesis by (auto simp: buffer_consume_end_def buffer_consume_end_ret_def)
qed

lemma ptr_nth: "buffer_ok b \<Longrightarrow> i < length (buffer_contents b) \<Longrightarrow> buffer_ptr b ! i = buffer_contents b ! i"
  using take_ptr [of b "Suc i"] by (metis Suc_leI lessI nth_take)

lemma buffer_get_spec:
  assumes "buffer_ok b" and "unat n \<le> length (buffer_contents b)"
  shows "\<exists>b'. buffer_get b n = Inr (take (unat n) (buffer_contents b), b') \<and> buffer_ok b' \<and>
    buffer_contents b' = drop (unat n) (buffer_contents b)"
  using get_ret_spec [OF assms(1), of n] consumed_ok [OF assms] assms(2) by (auto simp: buffer_get_def)

lemma append_ok:
  assumes "buffer_ok b" and "length (buffer_contents b) + length d \<le> 0x100000" and "length d = unat n"
  shows "\<exists>b'. buffer_append b d n = Inr b' \<and> buffer_ok b' \<and> buffer_contents b' = buffer_contents b @ d"
  using append_small [OF assms(1), of n d] append_spec [OF assms(1), of d n] assms(2,3) by auto

lemma store_appended:
  assumes a: "appended b len p b'" and len: "length d = unat len"
  shows "buffer_ok (b'\<lparr>b_buf := overwrite (unat p) d (b_buf b')\<rparr>)"
    and "buffer_contents (b'\<lparr>b_buf := overwrite (unat p) d (b_buf b')\<rparr>) = buffer_contents b @ d"
proof -
  have fit: "unat p + length d \<le> length (b_buf b')" using a len by (simp add: appended_def buffer_ok_def)
  show "buffer_ok (b'\<lparr>b_buf := overwrite (unat p) d (b_buf b')\<rparr>)"
    using a fit by (simp add: appended_def buffer_ok_def)
  have "take (unat (b_end b')) (overwrite (unat p) d (b_buf b')) = take (unat p) (b_buf b') @ d"
    using take_overwrite_end [of "unat p" "b_buf b'" d] a len fit by (simp add: appended_def)
  then show "buffer_contents (b'\<lparr>b_buf := overwrite (unat p) d (b_buf b')\<rparr>) = buffer_contents b @ d"
    using a fit by (simp add: appended_def buffer_contents_def)
qed

lemma append_space_appended:
  assumes "buffer_ok b" and "buffer_append_space b len = Inr (p, b')"
  shows "appended b len p b'"
proof -
  have "len \<le> BUFFER_MAX_CHUNK" using assms(2) by (auto simp: buffer_append_space_def split: if_splits)
  from append_space_spec [OF assms(1) this] assms(2) show ?thesis by auto
qed

text \<open>A successful call of the cipher appends what the EVP function returned.\<close>

lemma crypt_append_spec:
  assumes ok: "buffer_ok dst" and r: "crypt_append E cc dst src len = Inr (cc', dst')"
    and lp: "\<And>c' y. evp_cipher E (cc_evp cc) (take (unat len) src) = Some (c', y) \<Longrightarrow> length y = unat len"
  obtains c' y where "evp_cipher E (cc_evp cc) (take (unat len) src) = Some (c', y)"
    and "cc' = cc\<lparr>cc_evp := c'\<rparr>" and "buffer_ok dst'" and "buffer_contents dst' = buffer_contents dst @ y"
    and "len mod ci_block_size (cc_cipher cc) = 0"
proof -
  from r obtain p b' c' y where sp: "buffer_append_space dst len = Inr (p, b')"
    and ev: "evp_cipher E (cc_evp cc) (take (unat len) src) = Some (c', y)"
    and md: "len mod ci_block_size (cc_cipher cc) = 0"
    and cc': "cc' = cc\<lparr>cc_evp := c'\<rparr>" and dst': "dst' = b'\<lparr>b_buf := overwrite (unat p) y (b_buf b')\<rparr>"
    by (auto simp: crypt_append_def cipher_crypt_def or_fatal_def split: if_splits option.splits)
  have a: "appended dst len p b'" by (rule append_space_appended [OF ok sp])
  from store_appended [OF a lp [OF ev]] dst' have "buffer_ok dst'" "buffer_contents dst' = buffer_contents dst @ y" by simp_all
  from that [OF ev cc' this md] show ?thesis .
qed

lemma crypt_append_small:
  assumes ok: "buffer_ok dst" and small: "length (buffer_contents dst) + unat len \<le> 0x100000"
    and md: "len mod ci_block_size (cc_cipher cc) = 0"
    and ev: "evp_cipher E (cc_evp cc) (take (unat len) src) = Some (c', y)" and ly: "length y = unat len"
  shows "\<exists>dst'. crypt_append E cc dst src len = Inr (cc\<lparr>cc_evp := c'\<rparr>, dst') \<and> buffer_ok dst' \<and>
    buffer_contents dst' = buffer_contents dst @ y"
proof -
  from append_space_small [OF ok small] obtain p b' where
    sp: "buffer_append_space dst len = Inr (p, b')" "appended dst len p b'" by blast
  with store_appended [OF sp(2) ly] md ev show ?thesis
    by (auto simp: crypt_append_def cipher_crypt_def or_fatal_def)
qed

section \<open>Random padding\<close>

lemma random_bytes_frame:
  "\<exists>bs k. random_bytes n i r w = (bs, w\<lparr>rnd_pos := k\<rparr>) \<and> length bs = n"
proof (induction n arbitrary: i r w)
  case 0
  show ?case by (rule exI [of _ "[]"], rule exI [of _ "rnd_pos w"]) simp
next
  case (Suc n)
  obtain r' k where a: "(if i mod 4 = 0 then arc4random w else (r, w)) = (r', w\<lparr>rnd_pos := k\<rparr>)"
    by (cases "i mod 4 = 0") (auto simp: arc4random_def intro: that [of r "rnd_pos w"])
  from Suc [of "Suc i" "drop_bit 8 r'" "w\<lparr>rnd_pos := k\<rparr>"] a show ?case by (auto simp: Let_def)
qed

lemma padding_frame:
  "\<exists>bs k. send2_padding p w = (bs, w\<lparr>rnd_pos := k\<rparr>) \<and> length bs = unat p"
  using random_bytes_frame [of "unat p" 0 0 w]
  by (auto simp: send2_padding_def intro: exI [of _ "rnd_pos w"])

section \<open>The length of the padding\<close>

definition block_ok :: "u32 \<Rightarrow> bool" where
  "block_ok bs \<longleftrightarrow> bs = 8 \<or> bs = 16"

lemma next_multiple:
  assumes "0 < (e :: nat)"
  shows "e dvd n + (e - n mod e)"
proof -
  have "n + (e - n mod e) = n div e * e + e"
    using div_mult_mod_eq [of n e] mod_less_divisor [OF assms, of n] by linarith
  then show ?thesis by simp
qed

lemma base_padlen_bounds:
  assumes "block_ok bs"
  shows "4 \<le> unat (base_padlen len bs)" and "unat (base_padlen len bs) < unat bs + 4"
    and "unat bs dvd unat len + unat (base_padlen len bs)"
proof -
  let ?m = "unat len mod unat bs"
  have bs: "unat bs = 8 \<or> unat bs = 16" using assms by (auto simp: block_ok_def)
  have m: "?m < unat bs" using bs by auto
  have s: "unat (bs - len mod bs) = unat bs - ?m" using m by (simp add: unat_sub_small unat_mod)
  have c: "unat (ucast (bs - len mod bs) :: byte) = unat bs - ?m"
    using bs s by (auto simp: unsigned_ucast_eq take_bit_nat_eq_self)
  have cb: "unat (ucast bs :: byte) = unat bs" using assms by (auto simp: block_ok_def)
  have e: "unat (base_padlen len bs) = (if unat bs - ?m < 4 then unat bs - ?m + unat bs else unat bs - ?m)"
    using bs c cb by (auto simp: base_padlen_def Let_def word_less_nat_alt unat_add_small)
  show "4 \<le> unat (base_padlen len bs)" "unat (base_padlen len bs) < unat bs + 4" using bs m e by auto
  have "unat bs dvd unat len + (unat bs - ?m)" using bs by (intro next_multiple) auto
  then have "unat bs dvd unat len + (unat bs - ?m)" "unat bs dvd unat len + (unat bs - ?m) + unat bs" by simp_all
  then show "unat bs dvd unat len + unat (base_padlen len bs)"
    unfolding e by (auto simp only: add.assoc split: if_split)
qed

lemma unat_byte_u32 [simp]: "unat (ucast (x :: byte) :: u32) = unat x"
  using unsigned_less [of x, where 'a = nat] by (simp add: unsigned_ucast_eq take_bit_nat_eq_self)

lemma unat_roundup_byte:
  assumes "block_ok bs" and "unat (x :: byte) \<le> 224"
  shows "unat (ucast (roundup (ucast x) bs) :: byte) = (unat x + (unat bs - 1)) div unat bs * unat bs"
proof -
  note ux = unat_byte_u32 [of x]
  have bs: "unat bs = 8 \<or> unat bs = 16" using assms(1) by (auto simp: block_ok_def)
  have s: "unat (ucast x + (bs - 1)) = unat x + (unat bs - 1)"
    using assms ux by (auto simp: block_ok_def unat_add_small)
  have b: "(unat x + (unat bs - 1)) div unat bs * unat bs \<le> 224"
    using assms(2) bs by auto
  then have "unat (roundup (ucast x) bs) = (unat x + (unat bs - 1)) div unat bs * unat bs"
    using s unat_mult_lem [of "(ucast x + (bs - 1)) div bs" bs] by (simp add: roundup_def unat_div)
  then show ?thesis using b by (simp add: unsigned_ucast_eq take_bit_nat_eq_self)
qed

lemma send2_padlen_bounds:
  assumes bs: "block_ok bs" and extra: "unat extra \<le> 224" and len: "unat len < 0x80000000"
  shows "\<exists>p. send2_padlen len bs extra = Inr p \<and> 4 \<le> unat p \<and> unat bs dvd unat len + unat p \<and>
    (extra = 0 \<or> (unat extra + (unat bs - 1)) div unat bs * unat bs dvd unat len + unat p)"
proof -
  note bp = base_padlen_bounds [OF bs, of len]
  have b: "unat bs = 8 \<or> unat bs = 16" "bs \<noteq> 0" using bs by (auto simp: block_ok_def)
  show ?thesis
  proof (cases "extra = 0")
    case True
    then show ?thesis using bp b by (simp add: send2_padlen_def)
  next
    case False
    let ?p = "base_padlen len bs"
    define x where "x = (ucast (roundup (ucast extra) bs) :: byte)"
    define e where "e = (unat extra + (unat bs - 1)) div unat bs * unat bs"
    have ex: "unat x = e" using unat_roundup_byte [OF bs extra] by (simp add: e_def x_def)
    have "0 < unat extra" using False by (simp add: unat_gt_0)
    then have e0: "0 < e" "e \<le> 224" "unat bs dvd e"
      using extra b(1) by (auto simp: e_def div_greater_zero_iff)
    have nz: "x \<noteq> 0" using ex e0 by auto
    have lp: "unat (len + ucast ?p) = unat len + unat ?p"
      using len bp(2) b by (subst unat_add_small) (auto simp: unsigned_ucast_eq take_bit_nat_eq_self)
    have ux: "unat (ucast x :: u32) = e" using ex by simp
    define m where "m = (unat len + unat ?p) mod e"
    have m: "m < e" using e0 by (simp add: m_def)
    have um: "unat (ucast ((len + ucast ?p) mod ucast x) :: byte) = m"
      using m e0 by (simp add: unsigned_ucast_eq unat_mod lp ex m_def [symmetric] take_bit_nat_eq_self)
    have pad: "unat (x - ucast ((len + ucast ?p) mod ucast x)) = e - m"
      using m by (subst unat_sub_small) (simp_all add: ex um)
    have "unat (?p + (x - ucast ((len + ucast ?p) mod ucast x))) = unat ?p + (e - m)"
      using pad bp(2) b e0 by (subst unat_add_small) auto
    moreover have "unat bs dvd e - m"
      using bp(3) e0(3) by (simp add: m_def dvd_mod)
    moreover have "e dvd unat len + unat ?p + (e - m)"
      using next_multiple [OF e0(1)] by (simp add: m_def)
    ultimately show ?thesis unfolding e_def [symmetric]
      using False b bp nz by (auto simp: send2_padlen_def Let_def x_def [symmetric] simp flip: add.assoc)
  qed
qed

section \<open>The sealed packet\<close>

text \<open>Length, length of the padding, payload, padding.\<close>

definition plain_packet :: "byte list \<Rightarrow> byte list \<Rightarrow> byte list" where
  "plain_packet payload pad =
     put_u32 (of_nat (1 + length payload + length pad)) @ [of_nat (length pad)] @ payload @ pad"

lemma length_plain_packet [simp]: "length (plain_packet payload pad) = 5 + length payload + length pad"
  by (simp add: plain_packet_def)

text \<open>The bytes that authenticate a packet.\<close>

definition mac_of :: "('c, 'z) libs \<Rightarrow> mac option \<Rightarrow> u32 \<Rightarrow> byte list \<Rightarrow> byte list \<Rightarrow> bool" where
  "mac_of L am sq plain mb =
     (case am of
        None \<Rightarrow> mb = []
      | Some m \<Rightarrow> length mb = unat (mac_len m) \<and>
          (\<exists>d. mac_compute (l_mac L) m sq plain = Inr d \<and> mb = take (unat (mac_len m)) d))"

definition macs_ready :: "('c, 'z) libs \<Rightarrow> mac option \<Rightarrow> bool" where
  "macs_ready L am \<longleftrightarrow> (case am of None \<Rightarrow> True | Some m \<Rightarrow> mac_ready (l_mac L) m)"

lemma word_of_unat: "unat x = n \<Longrightarrow> (x :: u32) = of_nat n"
  by auto

lemma header_written:
  assumes "length hdr = 5"
  shows "overwrite 4 [p] (overwrite 0 (put_u32 v) (hdr @ r)) = put_u32 v @ [p] @ r"
proof -
  have "overwrite 0 (put_u32 v) (hdr @ r) = put_u32 v @ drop 4 hdr @ r"
    using assms by (simp add: overwrite_def)
  moreover have "drop (Suc 4) (put_u32 v @ drop 4 hdr @ r) = r" using assms by simp
  ultimately show ?thesis by (simp add: overwrite_def)
qed

lemma seal_spec:
  fixes w :: "('c, 'z) world"
  assumes oko: "buffer_ok (outgoing_packet w)" and okw: "buffer_ok (s_output w)"
    and co: "buffer_contents (outgoing_packet w) = hdr @ payload @ pad" and lh: "length hdr = 5"
    and pl: "length pad = unat padlen" and tot: "length payload + length pad < 0x80000000"
    and lp: "\<And>c' y. evp_cipher (l_evp L) (cc_evp (send_context w)) (plain_packet payload pad) = Some (c', y) \<Longrightarrow>
       length y = length (plain_packet payload pad)"
    and mr: "macs_ready L am"
    and r: "send2_seal L am padlen w = Inr (plen, w')"
  obtains c' ct mb op out where
    "evp_cipher (l_evp L) (cc_evp (send_context w)) (plain_packet payload pad) = Some (c', ct)"
    and "w' = w\<lparr>outgoing_packet := op, send_context := (send_context w)\<lparr>cc_evp := c'\<rparr>, s_output := out\<rparr>"
    and "buffer_ok op" and "buffer_ok out" and "buffer_contents out = buffer_contents (s_output w) @ ct @ mb"
    and "mac_of L am (seqnr (p_send w)) (plain_packet payload pad) mb"
    and "unat plen = 1 + length payload + length pad"
    and "length (plain_packet payload pad) mod unat (ci_block_size (cc_cipher (send_context w))) = 0"
proof -
  let ?op0 = "outgoing_packet w" and ?plain = "plain_packet payload pad"
  have len0: "unat (buffer_len ?op0) = 5 + length payload + length pad"
    using unat_buffer_len [OF oko] co lh by simp
  have upl: "unat (buffer_len ?op0 - 4) = 1 + length payload + length pad"
    using len0 by (subst unat_sub_small) auto
  then have bl: "buffer_len ?op0 - 4 = of_nat (1 + length payload + length pad)"
    by (rule word_of_unat)
  define op where "op = buffer_poke (buffer_poke ?op0 0 (put_u32 (buffer_len ?op0 - 4))) 4 [padlen]"
  note p1 = poke_contents [OF oko, of 0 "put_u32 (buffer_len ?op0 - 4)"]
  have p1': "buffer_ok (buffer_poke ?op0 0 (put_u32 (buffer_len ?op0 - 4)))"
    "buffer_contents (buffer_poke ?op0 0 (put_u32 (buffer_len ?op0 - 4))) =
      overwrite 0 (put_u32 (buffer_len ?op0 - 4)) (hdr @ payload @ pad)"
    using p1 co lh by simp_all
  have okop: "buffer_ok op" and cop: "buffer_contents op = ?plain"
    using poke_contents [OF p1'(1), of 4 "[padlen]"] p1'(2) lh pl header_written [OF lh, of padlen]
    by (simp_all add: op_def plain_packet_def bl)
  have ulen: "unat (buffer_len op) = length ?plain" using unat_buffer_len [OF okop] cop by simp
  have tk: "take (unat (buffer_len op)) (buffer_ptr op) = ?plain" using take_len_ptr [OF okop] cop by simp
  from r obtain mb cc out1 out where
      mb: "(case am of None \<Rightarrow> Inr [] | Some m \<Rightarrow>
             rbind (mac_compute (l_mac L) m (seqnr (p_send w)) (take (unat (buffer_len op)) (buffer_ptr op)))
               (\<lambda>d. Inr (take (unat (mac_len m)) d))) = Inr mb"
    and cr: "crypt_append (l_evp L) (send_context w) (s_output w) (buffer_ptr op) (buffer_len op) = Inr (cc, out1)"
    and ap: "(case am of None \<Rightarrow> Inr out1 | Some m \<Rightarrow> buffer_append out1 mb (mac_len m)) = Inr out"
    and w': "w' = w\<lparr>outgoing_packet := op, send_context := cc, s_output := out\<rparr>" "plen = buffer_len ?op0 - 4"
    unfolding send2_seal_def Let_def op_def [symmetric] by auto
  from crypt_append_spec [OF okw cr] lp tk ulen obtain c' ct where
      ev: "evp_cipher (l_evp L) (cc_evp (send_context w)) ?plain = Some (c', ct)"
    and cc: "cc = (send_context w)\<lparr>cc_evp := c'\<rparr>" and ok1: "buffer_ok out1"
    and c1: "buffer_contents out1 = buffer_contents (s_output w) @ ct"
    and md: "buffer_len op mod ci_block_size (cc_cipher (send_context w)) = 0"
    by metis
  have mo: "mac_of L am (seqnr (p_send w)) ?plain mb"
  proof (cases am)
    case None
    then show ?thesis using mb by (simp add: mac_of_def)
  next
    case (Some m)
    with mb tk obtain d where d: "mac_compute (l_mac L) m (seqnr (p_send w)) ?plain = Inr d"
      "mb = take (unat (mac_len m)) d" by auto
    moreover have "unat (mac_len m) \<le> length d"
    proof -
      have "mac_ready (l_mac L) m" using mr Some by (simp add: macs_ready_def)
      then obtain d' where "mac_compute (l_mac L) m (seqnr (p_send w)) ?plain = Inr d'" "unat (mac_len m) \<le> length d'"
        unfolding mac_ready_def by blast
      then show ?thesis using d(1) by simp
    qed
    ultimately show ?thesis using Some by (simp add: mac_of_def)
  qed
  have "buffer_ok out \<and> buffer_contents out = buffer_contents (s_output w) @ ct @ mb"
  proof (cases am)
    case None
    then show ?thesis using ap mo ok1 c1 by (simp add: mac_of_def)
  next
    case (Some m)
    then show ?thesis using append_spec [OF ok1, of mb "mac_len m" out] ap mo c1 by (simp add: mac_of_def)
  qed
  moreover have "length ?plain mod unat (ci_block_size (cc_cipher (send_context w))) = 0"
    using arg_cong [OF md, of unat] ulen by (simp add: unat_mod)
  ultimately show ?thesis using that [OF ev _ okop _ _ mo, of out] w' cc upl by simp
qed

section \<open>Sending one packet\<close>

definition out_block :: "('c, 'z) world \<Rightarrow> u32" where
  "out_block w = (case newkeys_out w of None \<Rightarrow> 8 | Some nk \<Rightarrow> enc_block_size (nk_enc nk))"

definition compressing :: "newkeys option \<Rightarrow> bool" where
  "compressing keys = (case keys of None \<Rightarrow> False | Some nk \<Rightarrow> comp_enabled (nk_comp nk))"

text \<open>A finished packet: five bytes for the header, then a payload that starts with the type.\<close>

definition holds_payload :: "buffer \<Rightarrow> byte list \<Rightarrow> bool" where
  "holds_payload b payload \<longleftrightarrow> buffer_ok b \<and> payload \<noteq> [] \<and>
     (\<exists>hdr. length hdr = 5 \<and> buffer_contents b = hdr @ payload)"

text \<open>The sender can seal packets without compression.\<close>

definition can_send :: "('c, 'z) libs \<Rightarrow> ('c \<Rightarrow> 'c \<Rightarrow> bool) \<Rightarrow> ('c, 'z) world \<Rightarrow> bool" where
  "can_send L R w \<longleftrightarrow> buffer_ok (s_output w) \<and> block_ok (out_block w) \<and> unat (extra_pad w) \<le> 224 \<and>
     \<not> compressing (newkeys_out w) \<and> macs_ready L (active_mac (newkeys_out w)) \<and>
     evp_ok (l_evp L) R (unat (out_block w)) \<and> (\<exists>d. R (cc_evp (send_context w)) d)"

text \<open>The state after a packet, before new keys are taken into use.\<close>

definition sealed :: "('c, 'z) libs \<Rightarrow> ('c, 'z) world \<Rightarrow> byte list \<Rightarrow> byte list \<Rightarrow> 'c \<Rightarrow> byte list \<Rightarrow> byte list \<Rightarrow>
    ('c, 'z) world \<Rightarrow> bool" where
  "sealed L w payload pad c' ct mb w' \<longleftrightarrow>
     4 \<le> length pad \<and> length pad < 256 \<and> unat (out_block w) dvd length (plain_packet payload pad) \<and>
     evp_cipher (l_evp L) (cc_evp (send_context w)) (plain_packet payload pad) = Some (c', ct) \<and>
     length ct = length (plain_packet payload pad) \<and>
     mac_of L (active_mac (newkeys_out w)) (seqnr (p_send w)) (plain_packet payload pad) mb \<and>
     (\<exists>op out k ps. buffer_ok op \<and> buffer_contents op = [] \<and> buffer_ok out \<and>
        buffer_contents out = buffer_contents (s_output w) @ ct @ mb \<and> seqnr ps = seqnr (p_send w) + 1 \<and>
        packets ps = packets (p_send w) + 1 \<and>
        w' = w\<lparr>extra_pad := 0, rnd_pos := k, outgoing_packet := op, p_send := ps,
               send_context := (send_context w)\<lparr>cc_evp := c'\<rparr>, s_output := out\<rparr>)"

lemma account_spec:
  assumes "send2_account plen bs w = Inr w'"
  shows "\<exists>ps. seqnr ps = seqnr (p_send w) + 1 \<and> packets ps = packets (p_send w) + 1 \<and>
    w' = w\<lparr>p_send := ps, outgoing_packet := buffer_clear (outgoing_packet w)\<rparr>"
  using assms by (intro exI [of _ "p_send w'"]) (auto simp: send2_account_def Let_def split: if_splits)

lemma send2_wrapped_spec:
  fixes w :: "('c, 'z) world"
  assumes hp: "holds_payload (outgoing_packet w) payload" and cs: "can_send L R w"
    and small: "length payload < 0x40000000"
    and r: "packet_send2_wrapped L w = Inr w'"
  obtains pad c' ct mb w1 where "sealed L w payload pad c' ct mb w1"
    and "(if hd payload = SSH2_MSG_NEWKEYS then set_newkeys L MODE_OUT w1
          else if hd payload = SSH2_MSG_USERAUTH_SUCCESS \<and> server_side w1 then packet_enable_delayed_compress L w1
          else Inr w1) = Inr w'"
proof -
  let ?op = "outgoing_packet w" and ?bs = "out_block w"
  from hp obtain hdr where oko: "buffer_ok ?op" and pne: "payload \<noteq> []" and lh: "length hdr = 5"
    and co: "buffer_contents ?op = hdr @ payload" by (auto simp: holds_payload_def)
  from cs have okw: "buffer_ok (s_output w)" and bs: "block_ok ?bs" and ex: "unat (extra_pad w) \<le> 224"
    and nc: "\<not> compressing (newkeys_out w)" and mr: "macs_ready L (active_mac (newkeys_out w))"
    and ev: "evp_ok (l_evp L) R (unat ?bs)" and sy: "\<exists>d. R (cc_evp (send_context w)) d"
    by (auto simp: can_send_def)
  have pk: "buffer_peek ?op 5 = Inr (hd payload)"
    using peek_contents [OF oko, of 5] co lh pne by (simp add: nth_append hd_conv_nth)
  have ul: "unat (buffer_len ?op) = 5 + length payload" using unat_buffer_len [OF oko] co lh by simp
  from send2_padlen_bounds [OF bs ex, of "buffer_len ?op"] small ul obtain p where
    p: "send2_padlen (buffer_len ?op) ?bs (extra_pad w) = Inr p" "4 \<le> unat p"
    "unat ?bs dvd unat (buffer_len ?op) + unat p" by auto
  obtain pad k where pad: "send2_padding p (w\<lparr>extra_pad := 0\<rparr>) = (pad, w\<lparr>extra_pad := 0, rnd_pos := k\<rparr>)"
    and lpad: "length pad = unat p" using padding_frame [of p "w\<lparr>extra_pad := 0\<rparr>"] by auto
  have nc': "(case newkeys_out w of None \<Rightarrow> False | Some nk \<Rightarrow> comp_enabled (nk_comp nk)) = False"
    using nc by (simp add: compressing_def)
  from r obtain op plen w0 w1 where
      ap: "buffer_append ?op pad (ucast p) = Inr op"
    and se: "send2_seal L (active_mac (newkeys_out w)) p (w\<lparr>extra_pad := 0, rnd_pos := k, outgoing_packet := op\<rparr>) = Inr (plen, w0)"
    and ac: "send2_account plen ?bs w0 = Inr w1"
    and fin: "(if hd payload = SSH2_MSG_NEWKEYS then set_newkeys L MODE_OUT w1
          else if hd payload = SSH2_MSG_USERAUTH_SUCCESS \<and> server_side w1 then packet_enable_delayed_compress L w1
          else Inr w1) = Inr w'"
    unfolding packet_send2_wrapped_def Let_def nc' out_block_def [symmetric]
    by (auto simp: pk p(1) pad)
  have a: "buffer_ok op" "buffer_contents op = hdr @ payload @ pad"
    using append_spec [OF oko ap] co lpad by simp_all
  have dv: "unat ?bs dvd length (plain_packet payload pad)" using p(3) ul lpad by simp
  have lp: "length y = length (plain_packet payload pad)"
    if "evp_cipher (l_evp L) (cc_evp (send_context w)) (plain_packet payload pad) = Some (c', y)" for c' y
    using sy evp_roundtrip [OF ev _ dv that] by metis
  let ?w = "w\<lparr>extra_pad := 0, rnd_pos := k, outgoing_packet := op\<rparr>"
  have lt: "length pad < 256" "length payload + length pad < 0x80000000"
    using lpad small unsigned_less [of p, where 'a = nat] by auto
  obtain c' ct mb op' out where
      e: "evp_cipher (l_evp L) (cc_evp (send_context w)) (plain_packet payload pad) = Some (c', ct)"
    and w0: "w0 = ?w\<lparr>outgoing_packet := op', send_context := (send_context w)\<lparr>cc_evp := c'\<rparr>, s_output := out\<rparr>"
    and o: "buffer_ok op'" "buffer_ok out" "buffer_contents out = buffer_contents (s_output w) @ ct @ mb"
    and m: "mac_of L (active_mac (newkeys_out w)) (seqnr (p_send w)) (plain_packet payload pad) mb"
    by (rule seal_spec [where w = ?w, OF _ _ _ lh lpad lt(2) _ mr se]) (use a okw lp in auto)
  from account_spec [OF ac] w0 obtain ps where ps: "seqnr ps = seqnr (p_send w) + 1"
    "w1 = w0\<lparr>p_send := ps, outgoing_packet := buffer_clear op'\<rparr>" and pn: "packets ps = packets (p_send w) + 1"
    by auto
  have "sealed L w payload pad c' ct mb w1"
    unfolding sealed_def
  proof (intro conjI exI)
    show "w1 = w\<lparr>extra_pad := 0, rnd_pos := k, outgoing_packet := buffer_clear op', p_send := ps,
               send_context := (send_context w)\<lparr>cc_evp := c'\<rparr>, s_output := out\<rparr>"
      using ps(2) w0 by simp
  qed (use p(2) lpad lt dv e lp [OF e] m o ps(1) pn buffer_clear_ok in auto)
  then show ?thesis using that fin by blast
qed

section \<open>Receiving one packet\<close>

definition in_block :: "('c, 'z) world \<Rightarrow> u32" where
  "in_block r = (case newkeys_in r of None \<Rightarrow> 8 | Some nk \<Rightarrow> enc_block_size (nk_enc nk))"

text \<open>The receiving side \<open>r\<close> is in step with the sending side \<open>w\<close>: same algorithms, same sequence
  number, contexts of the two ends of one stream, and between packets.\<close>

definition in_step :: "('c \<Rightarrow> 'c \<Rightarrow> bool) \<Rightarrow> ('c, 'z) world \<Rightarrow> ('c, 'z) world \<Rightarrow> bool" where
  "in_step R w r \<longleftrightarrow> in_block r = out_block w \<and> ci_block_size (cc_cipher (receive_context r)) = out_block w \<and>
     R (cc_evp (send_context w)) (cc_evp (receive_context r)) \<and>
     active_mac (newkeys_in r) = active_mac (newkeys_out w) \<and> \<not> compressing (newkeys_in r) \<and>
     seqnr (p_read r) = seqnr (p_send w) \<and> packet_discard r = 0 \<and> packlen r = 0 \<and>
     buffer_ok (s_input r) \<and> buffer_ok (incoming_packet r)"

definition may_count :: "('c, 'z) world \<Rightarrow> bool" where
  "may_count r \<longleftrightarrow> packets (p_read r) + 1 \<noteq> 0 \<or> datafellows r AND SSH_BUG_NOREKEY \<noteq> 0"

lemma read_account_spec:
  assumes "may_count r"
  shows "\<exists>ps. read_account bs r = Inr (r\<lparr>p_read := ps\<rparr>) \<and> seqnr ps = seqnr (p_read r) + 1 \<and>
    packets ps = packets (p_read r) + 1"
proof -
  let ?p = "(p_read r)\<lparr>seqnr := seqnr (p_read r) + 1, packets := packets (p_read r) + 1\<rparr>"
  let ?q = "?p\<lparr>blocks := blocks ?p + ucast ((packlen r + 4) div bs), bytes := bytes ?p + ucast (packlen r + 4)\<rparr>"
  have "\<not> (packets ?p = 0 \<and> datafellows r AND SSH_BUG_NOREKEY = 0)" using assms by (auto simp: may_count_def)
  then have "read_account bs r = Inr (r\<lparr>p_read := ?q\<rparr>)" unfolding read_account_def Let_def by (simp only: if_False)
  moreover have "seqnr ?q = seqnr (p_read r) + 1 \<and> packets ?q = packets (p_read r) + 1" by simp
  ultimately show ?thesis by blast
qed

lemma first_block:
  assumes r: "packlen r = 0" "buffer_ok (s_input r)" "buffer_ok (incoming_packet r)"
    and bs: "block_ok bs" "ci_block_size (cc_cipher (receive_context r)) = bs"
    and inp: "buffer_contents (s_input r) = y @ z" "length y = unat bs"
    and ev: "evp_cipher (l_evp L) (cc_evp (receive_context r)) y = Some (d, x)" "length x = unat bs"
    and pk: "get_u32 x = pk" "5 \<le> pk" "pk \<le> PACKET_MAX_SIZE"
  shows "\<exists>ip inp'. poll2_first L e m bs r = Inr (True, r\<lparr>receive_context := (receive_context r)\<lparr>cc_evp := d\<rparr>,
      incoming_packet := ip, packlen := pk, s_input := inp'\<rparr>) \<and>
    buffer_ok ip \<and> buffer_contents ip = x \<and> buffer_ok inp' \<and> buffer_contents inp' = z"
proof -
  have b: "unat bs = 8 \<or> unat bs = 16" "bs mod bs = 0" using bs(1) by (auto simp: block_ok_def)
  have ln: "\<not> buffer_len (s_input r) < bs"
    using unat_buffer_len [OF r(2)] inp by (simp add: word_less_nat_alt)
  have tk: "take (unat bs) (buffer_ptr (s_input r)) = y"
    using take_ptr [OF r(2), of "unat bs"] inp by simp
  have ok: "buffer_ok (buffer_clear (incoming_packet r))" using r(3) by (rule buffer_clear_ok)
  have sm: "length (buffer_contents (buffer_clear (incoming_packet r))) + unat bs \<le> 0x100000" using b by auto
  have md: "bs mod ci_block_size (cc_cipher (receive_context r)) = 0" using bs(2) b(2) by simp
  have ev': "evp_cipher (l_evp L) (cc_evp (receive_context r)) (take (unat bs) (buffer_ptr (s_input r))) = Some (d, x)"
    using ev(1) tk by simp
  from crypt_append_small [OF ok sm md ev' ev(2)] obtain ip where
    ip: "crypt_append (l_evp L) (receive_context r) (buffer_clear (incoming_packet r)) (buffer_ptr (s_input r)) bs =
        Inr ((receive_context r)\<lparr>cc_evp := d\<rparr>, ip)" "buffer_ok ip" "buffer_contents ip = x" by auto
  have "get_u32 (buffer_ptr ip) = get_u32 (take (unat bs) (buffer_ptr ip))" using b by auto
  then have g: "get_u32 (buffer_ptr ip) = pk" using take_ptr [OF ip(2), of "unat bs"] ip(3) ev(2) pk(1) by simp
  from consume_spec [OF r(2), of bs] inp obtain inp' where
    "buffer_consume (s_input r) bs = Inr inp'" "buffer_ok inp'" "buffer_contents inp' = z" by auto
  moreover have "\<not> (pk < 1 + 4 \<or> pk > PACKET_MAX_SIZE)" using pk(2,3) by auto
  ultimately show ?thesis using r(1) ln ip g by (auto simp: poll2_first_def Let_def)
qed

lemma mac_matches:
  assumes m: "mac_of L (active_mac keys) (seqnr (p_read r)) plain mb"
    and ok: "buffer_ok (incoming_packet r)" "buffer_ok (s_input r)"
    and c: "buffer_contents (incoming_packet r) = plain" "buffer_contents (s_input r) = mb @ rest"
  shows "\<exists>inp. poll2_mac L e (map_option nk_mac keys) need r = Inr (True, r\<lparr>s_input := inp\<rparr>) \<and>
    buffer_ok inp \<and> buffer_contents inp = rest"
proof (cases "active_mac keys")
  case None
  then have "poll2_mac L e (map_option nk_mac keys) need r = Inr (True, r)" "mb = []"
    using m by (auto simp: poll2_mac_def active_mac_def mac_of_def split: option.splits if_splits)
  then show ?thesis using ok(2) c(2) by (intro exI [of _ "s_input r"]) simp
next
  case (Some mc)
  then obtain nk where nk: "keys = Some nk" "nk_mac nk = mc" "mac_enabled mc"
    by (auto simp: active_mac_def split: option.splits if_splits)
  from m Some obtain d where d: "length mb = unat (mac_len mc)" "mac_compute (l_mac L) mc (seqnr (p_read r)) plain = Inr d"
    "mb = take (unat (mac_len mc)) d" by (auto simp: mac_of_def)
  have "take (unat (mac_len mc)) (buffer_ptr (s_input r)) = mb"
    using take_ptr [OF ok(2), of "unat (mac_len mc)"] c(2) d(1) by simp
  moreover have "take (unat (buffer_len (incoming_packet r))) (buffer_ptr (incoming_packet r)) = plain"
    using take_len_ptr [OF ok(1)] c(1) by simp
  moreover obtain inp where "buffer_consume (s_input r) (mac_len mc) = Inr inp" "buffer_ok inp" "buffer_contents inp = rest"
    using consume_spec [OF ok(2), of "mac_len mc"] c(2) d(1) by auto
  ultimately show ?thesis using nk d by (auto simp: poll2_mac_def)
qed

definition valid_type :: "byte \<Rightarrow> bool" where
  "valid_type t \<longleftrightarrow> 1 \<le> t \<and> t < SSH2_MSG_LOCAL_MIN \<or> notify_msg t"

lemma open_plain:
  assumes ok: "buffer_ok (incoming_packet r)" and c: "buffer_contents (incoming_packet r) = plain_packet payload pad"
    and pad: "4 \<le> length pad" "length pad < 256" and ne: "payload \<noteq> []" and v: "valid_type (hd payload)"
  shows "\<exists>ip. buffer_ok ip \<and> buffer_contents ip = tl payload \<and>
    poll2_open L False r =
      rbind (if hd payload = SSH2_MSG_NEWKEYS then set_newkeys L MODE_IN (r\<lparr>incoming_packet := ip\<rparr>)
             else if hd payload = SSH2_MSG_USERAUTH_SUCCESS \<and> \<not> server_side r
             then packet_enable_delayed_compress L (r\<lparr>incoming_packet := ip\<rparr>)
             else Inr (r\<lparr>incoming_packet := ip\<rparr>)) (\<lambda>r. Inr (hd payload, r\<lparr>packlen := 0\<rparr>))"
proof -
  have up: "unat (of_nat (length pad) :: byte) = length pad" using pad(2) by (simp add: unat_of_nat)
  have pk: "buffer_peek (incoming_packet r) 4 = Inr (of_nat (length pad))"
    using peek_contents [OF ok, of 4] c by (simp add: plain_packet_def nth_append)
  have g: "\<not> (of_nat (length pad) :: byte) < 4" using up pad(1) by (simp add: word_less_nat_alt)
  from consume_spec [OF ok, of "4 + 1"] c obtain ip1 where
    ip1: "buffer_consume (incoming_packet r) (4 + 1) = Inr ip1" "buffer_ok ip1" "buffer_contents ip1 = payload @ pad"
    by (auto simp: plain_packet_def)
  have uu: "unat (ucast (of_nat (length pad) :: byte) :: u32) = length pad" using up by simp
  from consume_end_spec [OF ip1(2), of "ucast (of_nat (length pad) :: byte)"] ip1(3) uu obtain ip2 where
    ip2: "buffer_consume_end ip1 (ucast (of_nat (length pad) :: byte)) = Inr ip2" "buffer_ok ip2" "buffer_contents ip2 = payload"
    by auto
  from octet.get_law [OF ip2(2), of "hd payload" "tl payload"] ip2(3) ne obtain ip where
    ip: "buffer_get_char ip2 = Inr (hd payload, ip)" "buffer_ok ip" "buffer_contents ip = tl payload" by auto
  have "\<not> ((hd payload < 1 \<or> hd payload \<ge> SSH2_MSG_LOCAL_MIN) \<and> \<not> notify_msg (hd payload))"
    using v by (auto simp: valid_type_def)
  then show ?thesis using pk g ip1(1) ip2(1) ip by (intro exI [of _ ip]) (simp add: poll2_open_def Let_def)
qed

text \<open>The state of the receiver after a packet, before new keys are taken into use.\<close>

definition opened :: "('c, 'z) world \<Rightarrow> byte list \<Rightarrow> 'c \<Rightarrow> byte list \<Rightarrow> ('c, 'z) world \<Rightarrow> bool" where
  "opened r payload d' rest r' \<longleftrightarrow>
     (\<exists>ip inp ps pk. buffer_ok ip \<and> buffer_contents ip = tl payload \<and> buffer_ok inp \<and> buffer_contents inp = rest \<and>
        seqnr ps = seqnr (p_read r) + 1 \<and> packets ps = packets (p_read r) + 1 \<and>
        r' = r\<lparr>incoming_packet := ip, s_input := inp, p_read := ps, packlen := pk,
               receive_context := (receive_context r)\<lparr>cc_evp := d'\<rparr>\<rparr>)"

lemma mac_length:
  assumes "mac_of L (active_mac keys) sq plain mb"
  shows "unat (case map_option nk_mac keys of Some mc \<Rightarrow> if mac_enabled mc then mac_len mc else 0 | None \<Rightarrow> 0) = length mb"
    and "length mb \<le> 64"
  using assms
  by (auto simp: mac_of_def active_mac_def mac_compute_def word_le_nat_alt not_less split: option.splits if_splits)

lemma poll2_receives:
  fixes w r :: "('c, 'z) world"
  assumes se: "sealed L w payload pad c' ct mb w1" and st: "in_step R w r"
    and ev: "evp_ok (l_evp L) R (unat (out_block w))" and bs: "block_ok (out_block w)"
    and len: "length payload \<le> 0x3fe00" and ne: "payload \<noteq> []" and v: "valid_type (hd payload)"
    and inp: "buffer_contents (s_input r) = ct @ mb @ rest" and mc: "may_count r"
  obtains d' r1 where "R c' d'" and "opened r payload d' rest r1"
    and "packet_read_poll2 L r =
      rbind (if hd payload = SSH2_MSG_NEWKEYS then set_newkeys L MODE_IN r1
             else if hd payload = SSH2_MSG_USERAUTH_SUCCESS \<and> \<not> server_side r1 then packet_enable_delayed_compress L r1
             else Inr r1) (\<lambda>r2. Inr (hd payload, Some (seqnr (p_read r)), r2\<lparr>packlen := 0\<rparr>))"
proof -
  let ?bs = "out_block w" and ?plain = "plain_packet payload pad"
  let ?keys = "newkeys_in r"
  from se have pad: "4 \<le> length pad" "length pad < 256" and dv: "unat ?bs dvd length ?plain"
    and ec: "evp_cipher (l_evp L) (cc_evp (send_context w)) ?plain = Some (c', ct)" and lct: "length ct = length ?plain"
    and mo: "mac_of L (active_mac (newkeys_out w)) (seqnr (p_send w)) ?plain mb"
    by (simp_all add: sealed_def)
  from st have bl: "in_block r = ?bs" "ci_block_size (cc_cipher (receive_context r)) = ?bs"
    and sy: "R (cc_evp (send_context w)) (cc_evp (receive_context r))"
    and am: "active_mac ?keys = active_mac (newkeys_out w)" and nc: "\<not> compressing ?keys"
    and sq: "seqnr (p_read r) = seqnr (p_send w)" and pd: "packet_discard r = 0" and pl: "packlen r = 0"
    and oki: "buffer_ok (s_input r)" "buffer_ok (incoming_packet r)" by (auto simp: in_step_def)
  have b: "unat ?bs = 8 \<or> unat ?bs = 16" "?bs \<noteq> 0" using bs by (auto simp: block_ok_def)
  obtain d' where d': "evp_cipher (l_evp L) (cc_evp (receive_context r)) ct = Some (d', ?plain)" "R c' d'"
    by (rule evp_roundtrip [OF ev sy dv ec]) blast
  have lp: "10 \<le> length ?plain" "length ?plain \<le> 0x40000" using pad len ne by (cases payload; auto)+
  then have lb: "unat ?bs \<le> length ct" using lct dv by (auto dest: dvd_imp_le)
  have dvs: "unat ?bs dvd length (take (unat ?bs) ct)" "unat ?bs dvd length (drop (unat ?bs) ct)"
    using lb dv lct by (auto simp: min_def intro: dvd_diff_nat)
  obtain d1 where d1: "evp_cipher (l_evp L) (cc_evp (receive_context r)) (take (unat ?bs) ct) = Some (d1, take (unat ?bs) ?plain)"
    "evp_cipher (l_evp L) d1 (drop (unat ?bs) ct) = Some (d', drop (unat ?bs) ?plain)"
    by (rule evp_pieces [OF ev dvs, of _ d' ?plain]) (use d'(1) lb in \<open>auto simp: min_def\<close>)
  define pk :: u32 where "pk = of_nat (1 + length payload + length pad)"
  have upk: "unat pk = 1 + length payload + length pad" using pad len unfolding pk_def by (subst unat_of_nat) simp
  have g: "get_u32 (take (unat ?bs) ?plain) = pk"
    using b by (auto simp: plain_packet_def wire_simps pk_def)
  have pkb: "5 \<le> pk" "pk \<le> PACKET_MAX_SIZE" using upk lp pad by (auto simp: word_le_nat_alt)
  have split: "buffer_contents (s_input r) = take (unat ?bs) ct @ drop (unat ?bs) ct @ mb @ rest" using inp by simp
  from first_block [OF pl oki bs bl(2) split _ d1(1) _ g pkb, of "map_option nk_enc ?keys" "map_option nk_mac ?keys"]
  obtain ip inp1 where
      f: "poll2_first L (map_option nk_enc ?keys) (map_option nk_mac ?keys) ?bs r = Inr (True,
          r\<lparr>receive_context := (receive_context r)\<lparr>cc_evp := d1\<rparr>, incoming_packet := ip, packlen := pk, s_input := inp1\<rparr>)"
    and ip: "buffer_ok ip" "buffer_contents ip = take (unat ?bs) ?plain"
    and inp1: "buffer_ok inp1" "buffer_contents inp1 = drop (unat ?bs) ct @ mb @ rest"
    using lb lct by auto
  define need where "need = 4 + pk - ?bs"
  have un: "unat need = length ?plain - unat ?bs"
  proof -
    have "unat (4 + pk) = length ?plain" using upk lp by (subst unat_add_small) auto
    then show ?thesis using lb lct by (simp add: need_def unat_sub_small)
  qed
  have nm: "need mod ?bs = 0"
    using dvs(2) lct un by (simp add: word_arith_nat_mod dvd_eq_mod_eq_0)
  define ml where "ml = (case map_option nk_mac ?keys of Some mc \<Rightarrow> if mac_enabled mc then mac_len mc else 0 | None \<Rightarrow> 0)"
  have ml: "unat ml = length mb" "unat ml \<le> 64" using mac_length [OF mo [folded am]] by (simp_all add: ml_def)
  have "unat (need + ml) = unat need + length mb" using un lp ml by (subst unat_add_small) auto
  then have enough: "\<not> buffer_len inp1 < need + ml"
    using unat_buffer_len [OF inp1(1)] inp1(2) un lct by (simp add: word_less_nat_alt)
  define r1 where "r1 = r\<lparr>receive_context := (receive_context r)\<lparr>cc_evp := d1\<rparr>, incoming_packet := ip, packlen := pk, s_input := inp1\<rparr>"
  have r1: "packlen r1 = pk" "s_input r1 = inp1" "incoming_packet r1 = ip" "cc_evp (receive_context r1) = d1"
    "ci_block_size (cc_cipher (receive_context r1)) = ?bs" "(receive_context r1)\<lparr>cc_evp := x\<rparr> = (receive_context r)\<lparr>cc_evp := x\<rparr>" for x
    using bl(2) by (simp_all add: r1_def)
  have tk: "take (unat need) (buffer_ptr inp1) = drop (unat ?bs) ct"
    using take_ptr [OF inp1(1), of "unat need"] inp1(2) un lct by simp
  have e2: "evp_cipher (l_evp L) (cc_evp (receive_context r1)) (take (unat need) (buffer_ptr inp1)) =
      Some (d', drop (unat ?bs) ?plain)" using d1(2) tk r1(4) by simp
  have "\<exists>ip2. crypt_append (l_evp L) (receive_context r1) ip (buffer_ptr inp1) need =
      Inr ((receive_context r1)\<lparr>cc_evp := d'\<rparr>, ip2) \<and> buffer_ok ip2 \<and>
      buffer_contents ip2 = buffer_contents ip @ drop (unat ?bs) ?plain"
    by (rule crypt_append_small [OF ip(1) _ _ e2]) (use ip(2) un lp nm r1(5) in auto)
  then obtain ip2 where c2: "crypt_append (l_evp L) (receive_context r1) ip (buffer_ptr inp1) need =
      Inr ((receive_context r)\<lparr>cc_evp := d'\<rparr>, ip2)" and ip2: "buffer_ok ip2" "buffer_contents ip2 = ?plain"
    using ip(2) r1(6) by auto
  from consume_spec [OF inp1(1), of need] inp1(2) un lct obtain inp2 where
    i2: "buffer_consume inp1 need = Inr inp2" "buffer_ok inp2" "buffer_contents inp2 = mb @ rest" by auto
  define r2 where "r2 = r1\<lparr>receive_context := (receive_context r)\<lparr>cc_evp := d'\<rparr>, incoming_packet := ip2, s_input := inp2\<rparr>"
  have mo': "mac_of L (active_mac ?keys) (seqnr (p_read r2)) ?plain mb" using mo am sq by (simp add: r2_def r1_def)
  have "\<exists>inp. poll2_mac L (map_option nk_enc ?keys) (map_option nk_mac ?keys) need r2 = Inr (True, r2\<lparr>s_input := inp\<rparr>) \<and>
      buffer_ok inp \<and> buffer_contents inp = rest"
    by (rule mac_matches [OF mo']) (use ip2 i2 in \<open>auto simp: r2_def\<close>)
  then obtain inp3 where m3: "poll2_mac L (map_option nk_enc ?keys) (map_option nk_mac ?keys) need r2 =
      Inr (True, r2\<lparr>s_input := inp3\<rparr>)" and i3: "buffer_ok inp3" "buffer_contents inp3 = rest" by auto
  define r3 where "r3 = r2\<lparr>s_input := inp3\<rparr>"
  have "may_count r3" using mc by (simp add: may_count_def r1_def r2_def r3_def)
  from read_account_spec [OF this, of ?bs] obtain ps where ps: "read_account ?bs r3 = Inr (r3\<lparr>p_read := ps\<rparr>)"
    "seqnr ps = seqnr (p_read r) + 1" "packets ps = packets (p_read r) + 1" by (auto simp: r1_def r2_def r3_def)
  define r4 where "r4 = r3\<lparr>p_read := ps\<rparr>"
  have "\<exists>ip. buffer_ok ip \<and> buffer_contents ip = tl payload \<and> poll2_open L False r4 =
      rbind (if hd payload = SSH2_MSG_NEWKEYS then set_newkeys L MODE_IN (r4\<lparr>incoming_packet := ip\<rparr>)
             else if hd payload = SSH2_MSG_USERAUTH_SUCCESS \<and> \<not> server_side r4
             then packet_enable_delayed_compress L (r4\<lparr>incoming_packet := ip\<rparr>)
             else Inr (r4\<lparr>incoming_packet := ip\<rparr>)) (\<lambda>r. Inr (hd payload, r\<lparr>packlen := 0\<rparr>))"
    by (rule open_plain [OF _ _ pad ne v]) (use ip2 in \<open>auto simp: r2_def r3_def r4_def\<close>)
  then obtain ip4 where ip4: "buffer_ok ip4" "buffer_contents ip4 = tl payload" and op: "poll2_open L False r4 =
      rbind (if hd payload = SSH2_MSG_NEWKEYS then set_newkeys L MODE_IN (r4\<lparr>incoming_packet := ip4\<rparr>)
             else if hd payload = SSH2_MSG_USERAUTH_SUCCESS \<and> \<not> server_side r4
             then packet_enable_delayed_compress L (r4\<lparr>incoming_packet := ip4\<rparr>)
             else Inr (r4\<lparr>incoming_packet := ip4\<rparr>)) (\<lambda>r. Inr (hd payload, r\<lparr>packlen := 0\<rparr>))" by blast
  have opd: "opened r payload d' rest (r4\<lparr>incoming_packet := ip4\<rparr>)"
    unfolding opened_def by (intro exI [of _ ip4] exI [of _ inp3] exI [of _ ps] exI [of _ pk])
      (use ip4 i3 ps(2,3) in \<open>simp add: r1_def r2_def r3_def r4_def\<close>)
  have bsz: "(case map_option nk_enc ?keys of None \<Rightarrow> 8 | Some e \<Rightarrow> enc_block_size e) = ?bs"
    using bl(1) by (auto simp: in_block_def split: option.splits)
  have nc': "(case ?keys of None \<Rightarrow> False | Some nk \<Rightarrow> comp_enabled (nk_comp nk)) = False"
    using nc by (simp add: compressing_def)
  have sq2: "seqnr (p_read r3) = seqnr (p_read r)" by (simp add: r1_def r2_def r3_def)
  have "packet_read_poll2 L r =
      rbind (poll2_open L False r4) (\<lambda>(type, w). Inr (type, Some (seqnr (p_read r)), w))"
    unfolding packet_read_poll2_def Let_def bsz nc' ml_def [symmetric]
    using enough nm b(2) m3 ps(1) [folded r4_def]
    by (simp add: pd f r1_def [symmetric] r1 need_def [symmetric] c2 i2(1) r2_def [symmetric] r3_def [symmetric] sq2)
  then show ?thesis using that [OF d'(2) opd] by (simp add: op rbind_assoc)
qed

section \<open>Streams of packets\<close>

text \<open>Packets of any type but those that change keys or compression.\<close>

definition ordinary :: "byte list \<Rightarrow> bool" where
  "ordinary p \<longleftrightarrow> p \<noteq> [] \<and> length p \<le> 0x3fe00 \<and> valid_type (hd p) \<and>
     hd p \<notin> {SSH2_MSG_KEXINIT, SSH2_MSG_NEWKEYS, SSH2_MSG_USERAUTH_SUCCESS}"

lemma sealed_frame:
  assumes "sealed L w payload pad c' ct mb w'" and "can_send L R w" and "R c' d"
  shows "can_send L R w'" and "buffer_contents (s_output w') = buffer_contents (s_output w) @ ct @ mb"
    and "out_block w' = out_block w" and "newkeys_out w' = newkeys_out w" and "cc_evp (send_context w') = c'"
    and "seqnr (p_send w') = seqnr (p_send w) + 1" and "rekeying w' = rekeying w" and "compat20 w' = compat20 w"
    and "buffer_ok (outgoing_packet w')"
  using assms by (auto simp: sealed_def can_send_def out_block_def)

lemma opened_frame:
  assumes "opened r payload d' rest r'" and "in_step R w r" and "out_block w' = out_block w"
    and "newkeys_out w' = newkeys_out w" and "R (cc_evp (send_context w')) d'"
    and "seqnr (p_send w') = seqnr (p_send w) + 1"
  shows "in_step R w' (r'\<lparr>packlen := 0\<rparr>)" and "buffer_contents (incoming_packet r') = tl payload"
    and "buffer_contents (s_input r') = rest" and "packets (p_read r') = packets (p_read r) + 1"
  using assms by (auto simp: opened_def in_step_def in_block_def)

lemma packet_crosses:
  assumes hp: "holds_payload (outgoing_packet w) p" and cs: "can_send L R w" and o: "ordinary p"
    and r: "packet_send2_wrapped L w = Inr w'" and st: "in_step R w r" and mc: "may_count r"
  obtains wire where "buffer_contents (s_output w') = buffer_contents (s_output w) @ wire"
    and "can_send L R w'" and "rekeying w' = rekeying w" and "compat20 w' = compat20 w" and "buffer_ok (outgoing_packet w')"
    and "\<And>rest. buffer_contents (s_input r) = wire @ rest \<Longrightarrow>
      \<exists>r'. packet_read_poll2 L r = Inr (hd p, Some (seqnr (p_read r)), r') \<and>
        buffer_contents (incoming_packet r') = tl p \<and> buffer_contents (s_input r') = rest \<and> in_step R w' r' \<and>
        packets (p_read r') = packets (p_read r) + 1"
proof -
  have small: "length p < 0x40000000" and len: "length p \<le> 0x3fe00" and ne: "p \<noteq> []" and v: "valid_type (hd p)"
    and nt: "hd p \<noteq> SSH2_MSG_NEWKEYS" "hd p \<noteq> SSH2_MSG_USERAUTH_SUCCESS"
    using o by (auto simp: ordinary_def)
  obtain pad c' ct mb where se: "sealed L w p pad c' ct mb w'"
    by (rule send2_wrapped_spec [OF hp cs small r]) (use nt in auto)
  have ev: "evp_ok (l_evp L) R (unat (out_block w))" and bs: "block_ok (out_block w)"
    using cs by (auto simp: can_send_def)
  have sy: "R (cc_evp (send_context w)) (cc_evp (receive_context r))" using st by (simp add: in_step_def)
  have dv: "unat (out_block w) dvd length (plain_packet p pad)"
    and ec: "evp_cipher (l_evp L) (cc_evp (send_context w)) (plain_packet p pad) = Some (c', ct)"
    using se by (auto simp: sealed_def)
  obtain d where d: "R c' d" by (rule evp_roundtrip [OF ev sy dv ec])
  note sf = sealed_frame [OF se cs d]
  show ?thesis
  proof (rule that [OF sf(2,1) sf(7,8,9)])
    fix rest assume i: "buffer_contents (s_input r) = (ct @ mb) @ rest"
    then have i': "buffer_contents (s_input r) = ct @ mb @ rest" by simp
    obtain d' r1 where "R c' d'" and op: "opened r p d' rest r1"
      and rp: "packet_read_poll2 L r = Inr (hd p, Some (seqnr (p_read r)), r1\<lparr>packlen := 0\<rparr>)"
      by (rule poll2_receives [OF se st ev bs len ne v i' mc]) (use nt in auto)
    with sf(5) have "R (cc_evp (send_context w')) d'" by simp
    from opened_frame [OF op st sf(3,4) this sf(6)] rp show "\<exists>r'. packet_read_poll2 L r = Inr (hd p, Some (seqnr (p_read r)), r') \<and>
        buffer_contents (incoming_packet r') = tl p \<and> buffer_contents (s_input r') = rest \<and> in_step R w' r' \<and>
        packets (p_read r') = packets (p_read r) + 1" by auto
  qed
qed

text \<open>Building and sending a list of packets, and reading as many.\<close>

fun send_packets :: "('c, 'z) libs \<Rightarrow> byte list list \<Rightarrow> ('c, 'z) world \<Rightarrow> ('c, 'z) world result" where
  "send_packets L [] w = Inr w"
| "send_packets L (p # ps) w =
     rbind (packet_start (hd p) w) (\<lambda>w.
     rbind (packet_put_raw (tl p) (of_nat (length (tl p))) w) (\<lambda>w.
     rbind (packet_send L w) (send_packets L ps)))"

fun read_packets :: "('c, 'z) libs \<Rightarrow> nat \<Rightarrow> ('c, 'z) world \<Rightarrow> (byte list list \<times> ('c, 'z) world) result" where
  "read_packets L 0 r = Inr ([], r)"
| "read_packets L (Suc n) r =
     rbind (packet_read_poll2 L r) (\<lambda>(type, _, r).
     rbind (read_packets L n r) (\<lambda>(ps, r'). Inr ((type # buffer_contents (incoming_packet r)) # ps, r')))"

lemma built_packet:
  assumes c: "compat20 w" and ok: "buffer_ok (outgoing_packet w)" and p: "ordinary p"
    and s: "packet_start (hd p) w = Inr w1" and q: "packet_put_raw (tl p) (of_nat (length (tl p))) w1 = Inr w2"
  shows "holds_payload (outgoing_packet w2) p" and "\<exists>b. w2 = w\<lparr>outgoing_packet := b\<rparr>"
proof -
  have ne: "p \<noteq> []" and len: "length p \<le> 0x3fe00" using p by (auto simp: ordinary_def)
  from s c obtain b1 where b1: "buffer_append (buffer_clear (outgoing_packet w)) (replicate 5 0 @ [hd p]) 6 = Inr b1"
    and w1: "w1 = w\<lparr>outgoing_packet := b1\<rparr>"
    by (auto simp: packet_start_def upd_outgoing_def Let_def)
  from append_spec [OF buffer_clear_ok [OF ok] b1] have c1: "buffer_ok b1" "buffer_contents b1 = replicate 5 0 @ [hd p]"
    by simp_all
  from q w1 obtain b2 where b2: "buffer_append b1 (tl p) (of_nat (length (tl p))) = Inr b2"
    and w2: "w2 = w\<lparr>outgoing_packet := b2\<rparr>"
    by (auto simp: packet_put_raw_def upd_outgoing_def)
  have "unat (of_nat (length (tl p)) :: u32) = length (tl p)" using len by (subst unat_of_nat) simp
  with append_spec [OF c1(1) b2] c1(2) have "buffer_ok b2" "buffer_contents b2 = replicate 5 0 @ p"
    using ne by simp_all
  then show "holds_payload (outgoing_packet w2) p" using ne w2
    by (auto simp: holds_payload_def intro!: exI [of _ "replicate 5 0"])
  show "\<exists>b. w2 = w\<lparr>outgoing_packet := b\<rparr>" using w2 by blast
qed

lemma packet_extends:
  assumes hp: "holds_payload (outgoing_packet w) p" and cs: "can_send L R w" and o: "ordinary p"
    and r: "packet_send2_wrapped L w = Inr w'"
  shows "\<exists>wire. buffer_contents (s_output w') = buffer_contents (s_output w) @ wire" and "can_send L R w'"
    and "rekeying w' = rekeying w" and "compat20 w' = compat20 w" and "buffer_ok (outgoing_packet w')"
proof -
  have small: "length p < 0x40000000" and nt: "hd p \<noteq> SSH2_MSG_NEWKEYS" "hd p \<noteq> SSH2_MSG_USERAUTH_SUCCESS"
    using o by (auto simp: ordinary_def)
  obtain pad c' ct mb where se: "sealed L w p pad c' ct mb w'"
    by (rule send2_wrapped_spec [OF hp cs small r]) (use nt in auto)
  from cs obtain d0 where ev: "evp_ok (l_evp L) R (unat (out_block w))" and sy: "R (cc_evp (send_context w)) d0"
    by (auto simp: can_send_def)
  have dv: "unat (out_block w) dvd length (plain_packet p pad)"
    and ec: "evp_cipher (l_evp L) (cc_evp (send_context w)) (plain_packet p pad) = Some (c', ct)"
    using se by (auto simp: sealed_def)
  obtain d where d: "R c' d" by (rule evp_roundtrip [OF ev sy dv ec])
  note sf = sealed_frame [OF se cs d]
  show "\<exists>wire. buffer_contents (s_output w') = buffer_contents (s_output w) @ wire" "can_send L R w'"
    "rekeying w' = rekeying w" "compat20 w' = compat20 w" "buffer_ok (outgoing_packet w')"
    using sf by auto
qed

text \<open>The state between two packets of a stream.\<close>

definition streaming :: "('c, 'z) libs \<Rightarrow> ('c \<Rightarrow> 'c \<Rightarrow> bool) \<Rightarrow> ('c, 'z) world \<Rightarrow> bool" where
  "streaming L R w \<longleftrightarrow> compat20 w \<and> \<not> rekeying w \<and> buffer_ok (outgoing_packet w) \<and> can_send L R w"

lemma send_one:
  assumes st: "streaming L R w" and p: "ordinary p" and s: "send_packets L (p # ps) w = Inr w'"
  obtains w2 w3 b where "w2 = w\<lparr>outgoing_packet := b\<rparr>" and "holds_payload (outgoing_packet w2) p"
    and "packet_send2_wrapped L w2 = Inr w3" and "can_send L R w2" and "streaming L R w3" and "send_packets L ps w3 = Inr w'"
proof -
  from st have c: "compat20 w" "\<not> rekeying w" "buffer_ok (outgoing_packet w)" "can_send L R w"
    by (auto simp: streaming_def)
  from s obtain w1 w2 w3 where a: "packet_start (hd p) w = Inr w1"
    and q: "packet_put_raw (tl p) (of_nat (length (tl p))) w1 = Inr w2"
    and d: "packet_send L w2 = Inr w3" and rest: "send_packets L ps w3 = Inr w'" by auto
  note b = built_packet [OF c(1,3) p a q]
  from b(2) obtain b2 where w2: "w2 = w\<lparr>outgoing_packet := b2\<rparr>" by blast
  have cs2: "can_send L R w2" using c(4) w2 by (auto simp: can_send_def out_block_def)
  have hd5: "buffer_peek (outgoing_packet w2) 5 = Inr (hd p)"
    using b(1) peek_contents [of "outgoing_packet w2" 5] by (auto simp: holds_payload_def nth_append hd_conv_nth)
  have wr: "packet_send2_wrapped L w2 = Inr w3"
    using d c(1,2) w2 hd5 p by (auto simp: packet_send_def packet_send2_def ordinary_def)
  from packet_extends [OF b(1) cs2 p wr] have "streaming L R w3" using c(1,2) w2 by (simp add: streaming_def)
  from that [OF w2 b(1) wr cs2 this rest] show ?thesis .
qed

lemma stream_extends:
  assumes "streaming L R w" and "\<forall>p\<in>set ps. ordinary p" and "send_packets L ps w = Inr w'"
  shows "streaming L R w' \<and> (\<exists>wire. buffer_contents (s_output w') = buffer_contents (s_output w) @ wire)"
  using assms
proof (induction ps arbitrary: w)
  case Nil
  then show ?case by simp
next
  case (Cons p ps)
  from Cons.prems(2) have p: "ordinary p" by simp
  obtain w2 w3 b where w2: "w2 = w\<lparr>outgoing_packet := b\<rparr>" and hp: "holds_payload (outgoing_packet w2) p"
    and wr: "packet_send2_wrapped L w2 = Inr w3" and cs: "can_send L R w2" and st: "streaming L R w3"
    and re: "send_packets L ps w3 = Inr w'" by (rule send_one [OF Cons.prems(1) p Cons.prems(3)])
  from Cons.IH [OF st _ re] Cons.prems(2) packet_extends(1) [OF hp cs p wr] w2 show ?case by auto
qed

lemma stream_crosses:
  assumes "streaming L R w" and "\<forall>p\<in>set ps. ordinary p" and "send_packets L ps w = Inr w'"
    and "in_step R w r" and "unat (packets (p_read r)) + length ps < 2 ^ 32"
    and "buffer_contents (s_output w') = buffer_contents (s_output w) @ wire"
    and "buffer_contents (s_input r) = wire @ rest"
  shows "\<exists>r'. read_packets L (length ps) r = Inr (ps, r') \<and> buffer_contents (s_input r') = rest \<and> in_step R w' r'"
  using assms
proof (induction ps arbitrary: w r wire)
  case Nil
  then show ?case by simp
next
  case (Cons p ps)
  from Cons.prems(2) have p: "ordinary p" by simp
  obtain w2 w3 b where w2: "w2 = w\<lparr>outgoing_packet := b\<rparr>" and hp: "holds_payload (outgoing_packet w2) p"
    and wr: "packet_send2_wrapped L w2 = Inr w3" and cs: "can_send L R w2" and st: "streaming L R w3"
    and re: "send_packets L ps w3 = Inr w'" by (rule send_one [OF Cons.prems(1) p Cons.prems(3)])
  have st2: "in_step R w2 r" using Cons.prems(4) w2 by (auto simp: in_step_def out_block_def)
  have "unat (packets (p_read r) + 1) = unat (packets (p_read r)) + 1"
    using Cons.prems(5) by (subst unat_add_small) auto
  then have cnt: "may_count r" "unat (packets (p_read r) + 1) + length ps < 2 ^ 32"
    using Cons.prems(5) by (auto simp: may_count_def)
  obtain wire1 where o1: "buffer_contents (s_output w3) = buffer_contents (s_output w2) @ wire1"
    and rc: "\<And>rest. buffer_contents (s_input r) = wire1 @ rest \<Longrightarrow>
      \<exists>r'. packet_read_poll2 L r = Inr (hd p, Some (seqnr (p_read r)), r') \<and>
        buffer_contents (incoming_packet r') = tl p \<and> buffer_contents (s_input r') = rest \<and> in_step R w3 r' \<and>
        packets (p_read r') = packets (p_read r) + 1"
    by (rule packet_crosses [OF hp cs p wr st2 cnt(1)]) blast
  from stream_extends [OF st _ re] Cons.prems(2) obtain wire2 where
    o2: "buffer_contents (s_output w') = buffer_contents (s_output w3) @ wire2" by auto
  have "wire = wire1 @ wire2" using Cons.prems(6) o1 o2 w2 by simp
  with rc [of "wire2 @ rest"] Cons.prems(7) obtain r1 where
      r1: "packet_read_poll2 L r = Inr (hd p, Some (seqnr (p_read r)), r1)" "buffer_contents (incoming_packet r1) = tl p"
    and i1: "buffer_contents (s_input r1) = wire2 @ rest" and s1: "in_step R w3 r1"
    and k1: "packets (p_read r1) = packets (p_read r) + 1" by auto
  have "unat (packets (p_read r1)) + length ps < 2 ^ 32" using cnt(2) k1 by simp
  from Cons.IH [OF st _ re s1 this o2 i1] Cons.prems(2) obtain r' where
    "read_packets L (length ps) r1 = Inr (ps, r')" "buffer_contents (s_input r') = rest" "in_step R w' r'" by auto
  moreover have "p \<noteq> []" using p by (auto simp: ordinary_def)
  ultimately show ?case using r1 by simp
qed

section \<open>Sending succeeds\<close>

text \<open>A cipher of OpenSSL does not fail on whole blocks.\<close>

definition evp_total :: "'c evp \<Rightarrow> nat \<Rightarrow> bool" where
  "evp_total E bs \<longleftrightarrow> (\<forall>c x. bs dvd length x \<longrightarrow> evp_cipher E c x \<noteq> None)"

lemma seal_succeeds:
  fixes w :: "('c, 'z) world"
  assumes oko: "buffer_ok (outgoing_packet w)" and okw: "buffer_ok (s_output w)"
    and co: "buffer_contents (outgoing_packet w) = hdr @ payload @ pad" and lh: "length hdr = 5"
    and lo: "length (buffer_contents (s_output w)) + 0x50000 \<le> 0x100000" and lpp: "length payload + length pad \<le> 0x40000"
    and pl: "length pad = unat padlen"
    and ev: "evp_cipher (l_evp L) (cc_evp (send_context w)) (plain_packet payload pad) = Some (c', ct)"
    and lct: "length ct = length (plain_packet payload pad)"
    and md: "length (plain_packet payload pad) mod unat (ci_block_size (cc_cipher (send_context w))) = 0"
    and mr: "macs_ready L am"
  shows "\<exists>plen w'. send2_seal L am padlen w = Inr (plen, w') \<and> p_send w' = p_send w \<and> datafellows w' = datafellows w"
proof -
  let ?op0 = "outgoing_packet w" and ?plain = "plain_packet payload pad"
  have "unat (buffer_len ?op0 - 4) = 1 + length payload + length pad"
    using unat_buffer_len [OF oko] co lh by (subst unat_sub_small) auto
  then have bl: "buffer_len ?op0 - 4 = of_nat (1 + length payload + length pad)" by (rule word_of_unat)
  define op where "op = buffer_poke (buffer_poke ?op0 0 (put_u32 (buffer_len ?op0 - 4))) 4 [padlen]"
  have p1: "buffer_ok (buffer_poke ?op0 0 (put_u32 (buffer_len ?op0 - 4)))"
    "buffer_contents (buffer_poke ?op0 0 (put_u32 (buffer_len ?op0 - 4))) =
      overwrite 0 (put_u32 (buffer_len ?op0 - 4)) (hdr @ payload @ pad)"
    using poke_contents [OF oko, of 0 "put_u32 (buffer_len ?op0 - 4)"] co lh by simp_all
  have okop: "buffer_ok op" and cop: "buffer_contents op = ?plain"
    using poke_contents [OF p1(1), of 4 "[padlen]"] p1(2) lh pl header_written [OF lh, of padlen]
    by (simp_all add: op_def plain_packet_def bl)
  have ulen: "unat (buffer_len op) = length ?plain" using unat_buffer_len [OF okop] cop by simp
  have tk: "take (unat (buffer_len op)) (buffer_ptr op) = ?plain" using take_len_ptr [OF okop] cop by simp
  have bm: "buffer_len op mod ci_block_size (cc_cipher (send_context w)) = 0"
    using md ulen by (simp add: word_arith_nat_mod)
  have "\<exists>out. crypt_append (l_evp L) (send_context w) (s_output w) (buffer_ptr op) (buffer_len op) =
      Inr ((send_context w)\<lparr>cc_evp := c'\<rparr>, out) \<and> buffer_ok out \<and> buffer_contents out = buffer_contents (s_output w) @ ct"
    by (rule crypt_append_small [OF okw _ bm]) (use lo lpp ulen ev tk lct in auto)
  then obtain out where cr: "crypt_append (l_evp L) (send_context w) (s_output w) (buffer_ptr op) (buffer_len op) =
      Inr ((send_context w)\<lparr>cc_evp := c'\<rparr>, out)" and out: "buffer_ok out" "buffer_contents out = buffer_contents (s_output w) @ ct"
    by blast
  show ?thesis
  proof (cases am)
    case None
    then show ?thesis unfolding send2_seal_def Let_def op_def [symmetric] by (simp add: cr)
  next
    case (Some m)
    with mr obtain d where d: "mac_compute (l_mac L) m (seqnr (p_send w)) ?plain = Inr d"
      by (auto simp: macs_ready_def mac_ready_def)
    then have "unat (mac_len m) \<le> 64" by (auto simp: mac_compute_def word_le_nat_alt not_less split: if_splits)
    then have "\<exists>b. buffer_append out (take (unat (mac_len m)) d) (mac_len m) = Inr b"
      using out lo lpp lct by (intro append_small) auto
    then show ?thesis using Some d unfolding send2_seal_def Let_def op_def [symmetric] by (auto simp: cr tk)
  qed
qed

definition may_count_out :: "('c, 'z) world \<Rightarrow> bool" where
  "may_count_out w \<longleftrightarrow> packets (p_send w) + 1 \<noteq> 0 \<or> datafellows w AND SSH_BUG_NOREKEY \<noteq> 0"

lemma send2_wrapped_succeeds:
  fixes w :: "('c, 'z) world"
  assumes hp: "holds_payload (outgoing_packet w) p" and cs: "can_send L R w" and o: "ordinary p"
    and tot: "evp_total (l_evp L) (unat (out_block w))" and ci: "ci_block_size (cc_cipher (send_context w)) = out_block w"
    and lo: "length (buffer_contents (s_output w)) + 0x50000 \<le> 0x100000" and mc: "may_count_out w"
  shows "\<exists>w'. packet_send2_wrapped L w = Inr w'"
proof -
  let ?op = "outgoing_packet w" and ?bs = "out_block w"
  from hp obtain hdr where oko: "buffer_ok ?op" and pne: "p \<noteq> []" and lh: "length hdr = 5"
    and co: "buffer_contents ?op = hdr @ p" by (auto simp: holds_payload_def)
  from cs obtain d0 where okw: "buffer_ok (s_output w)" and bs: "block_ok ?bs" and ex: "unat (extra_pad w) \<le> 224"
    and nc: "\<not> compressing (newkeys_out w)" and mr: "macs_ready L (active_mac (newkeys_out w))"
    and ev: "evp_ok (l_evp L) R (unat ?bs)" and sy: "R (cc_evp (send_context w)) d0"
    by (auto simp: can_send_def)
  have len: "length p \<le> 0x3fe00" and nt: "hd p \<noteq> SSH2_MSG_NEWKEYS" "hd p \<noteq> SSH2_MSG_USERAUTH_SUCCESS"
    using o by (auto simp: ordinary_def)
  have pk: "buffer_peek ?op 5 = Inr (hd p)"
    using peek_contents [OF oko, of 5] co lh pne by (simp add: nth_append hd_conv_nth)
  have ul: "unat (buffer_len ?op) = 5 + length p" using unat_buffer_len [OF oko] co lh by simp
  from send2_padlen_bounds [OF bs ex, of "buffer_len ?op"] len ul obtain q where
    q: "send2_padlen (buffer_len ?op) ?bs (extra_pad w) = Inr q" "4 \<le> unat q"
    "unat ?bs dvd unat (buffer_len ?op) + unat q" by auto
  obtain pad k where pad: "send2_padding q (w\<lparr>extra_pad := 0\<rparr>) = (pad, w\<lparr>extra_pad := 0, rnd_pos := k\<rparr>)"
    and lpad: "length pad = unat q" using padding_frame [of q "w\<lparr>extra_pad := 0\<rparr>"] by auto
  have uq: "unat q < 256" using unsigned_less [of q, where 'a = nat] by simp
  have "\<exists>op. buffer_append ?op pad (ucast q) = Inr op" using co lh len uq by (intro append_small [OF oko]) auto
  then obtain op where ap: "buffer_append ?op pad (ucast q) = Inr op" by blast
  have a: "buffer_ok op" "buffer_contents op = hdr @ p @ pad"
    using append_spec [OF oko ap] co lpad by simp_all
  have dv: "unat ?bs dvd length (plain_packet p pad)" using q(3) ul lpad by simp
  with tot obtain c' ct where e: "evp_cipher (l_evp L) (cc_evp (send_context w)) (plain_packet p pad) = Some (c', ct)"
    unfolding evp_total_def by (metis option.exhaust surj_pair)
  have lct: "length ct = length (plain_packet p pad)" by (rule evp_roundtrip [OF ev sy dv e])
  let ?w = "w\<lparr>extra_pad := 0, rnd_pos := k, outgoing_packet := op\<rparr>"
  have "\<exists>plen w'. send2_seal L (active_mac (newkeys_out w)) q ?w = Inr (plen, w') \<and> p_send w' = p_send ?w \<and>
      datafellows w' = datafellows ?w"
    by (rule seal_succeeds [OF _ _ _ lh _ _ lpad _ lct _ mr]) (use a okw lo len uq lpad e ci dv in auto)
  then obtain plen w1 where s: "send2_seal L (active_mac (newkeys_out w)) q ?w = Inr (plen, w1)"
    and w1: "p_send w1 = p_send w" "datafellows w1 = datafellows w" by auto
  have "\<exists>w2. send2_account plen ?bs w1 = Inr w2"
    using mc w1 by (auto simp: send2_account_def Let_def may_count_out_def)
  then obtain w2 where ac: "send2_account plen ?bs w1 = Inr w2" by blast
  have nc': "(case newkeys_out w of None \<Rightarrow> False | Some nk \<Rightarrow> comp_enabled (nk_comp nk)) = False"
    using nc by (simp add: compressing_def)
  show ?thesis
    unfolding packet_send2_wrapped_def Let_def nc' out_block_def [symmetric]
    by (simp add: pk q(1) pad ap s ac nt)
qed

lemma packet_grows:
  assumes hp: "holds_payload (outgoing_packet w) p" and cs: "can_send L R w" and o: "ordinary p"
    and r: "packet_send2_wrapped L w = Inr w'"
  shows "length (buffer_contents (s_output w')) \<le> length (buffer_contents (s_output w)) + length p + 0x200"
    and "packets (p_send w') = packets (p_send w) + 1" and "out_block w' = out_block w"
    and "cc_cipher (send_context w') = cc_cipher (send_context w)"
proof -
  have small: "length p < 0x40000000" and nt: "hd p \<noteq> SSH2_MSG_NEWKEYS" "hd p \<noteq> SSH2_MSG_USERAUTH_SUCCESS"
    using o by (auto simp: ordinary_def)
  obtain pad c' ct mb where se: "sealed L w p pad c' ct mb w'"
    by (rule send2_wrapped_spec [OF hp cs small r]) (use nt in auto)
  have "length mb \<le> 64" using se by (intro mac_length(2)) (auto simp: sealed_def)
  then show "length (buffer_contents (s_output w')) \<le> length (buffer_contents (s_output w)) + length p + 0x200"
    and "packets (p_send w') = packets (p_send w) + 1" and "out_block w' = out_block w"
    and "cc_cipher (send_context w') = cc_cipher (send_context w)"
    using se by (auto simp: sealed_def out_block_def)
qed

text \<open>The libraries serve the stream, and it fits: the packets with their framing leave the output
  buffer below the limit of \<open>buffer.c\<close>, and the packet counter does not wrap.\<close>

definition has_room :: "('c, 'z) libs \<Rightarrow> byte list list \<Rightarrow> ('c, 'z) world \<Rightarrow> bool" where
  "has_room L ps w \<longleftrightarrow> evp_total (l_evp L) (unat (out_block w)) \<and>
     ci_block_size (cc_cipher (send_context w)) = out_block w \<and> unat (packets (p_send w)) + length ps < 2 ^ 32 \<and>
     length (buffer_contents (s_output w)) + (\<Sum>p\<leftarrow>ps. length p + 0x200) + 0x50000 \<le> 0x100000"

lemma built_succeeds:
  assumes c: "compat20 w" and ok: "buffer_ok (outgoing_packet w)" and p: "ordinary p"
  shows "\<exists>w1 w2. packet_start (hd p) w = Inr w1 \<and> packet_put_raw (tl p) (of_nat (length (tl p))) w1 = Inr w2"
proof -
  have ne: "p \<noteq> []" and len: "length p \<le> 0x3fe00" using p by (auto simp: ordinary_def)
  have "\<exists>b. buffer_append (buffer_clear (outgoing_packet w)) (replicate 5 0 @ [hd p]) 6 = Inr b"
    using ok by (intro append_small buffer_clear_ok) auto
  then obtain b1 where b1: "buffer_append (buffer_clear (outgoing_packet w)) (replicate 5 0 @ [hd p]) 6 = Inr b1" by blast
  from append_spec [OF buffer_clear_ok [OF ok] b1] have c1: "buffer_ok b1" "buffer_contents b1 = replicate 5 0 @ [hd p]"
    by simp_all
  have u: "unat (of_nat (length (tl p)) :: u32) = length (tl p)" using len by (subst unat_of_nat) simp
  have "\<exists>b. buffer_append b1 (tl p) (of_nat (length (tl p))) = Inr b"
    using c1 u len by (intro append_small) auto
  then show ?thesis using c b1 by (auto simp: packet_start_def packet_put_raw_def upd_outgoing_def Let_def)
qed

lemma stream_sends:
  assumes "streaming L R w" and "\<forall>p\<in>set ps. ordinary p" and "has_room L ps w"
  shows "\<exists>w'. send_packets L ps w = Inr w'"
  using assms
proof (induction ps arbitrary: w)
  case Nil
  then show ?case by simp
next
  case (Cons p ps)
  from Cons.prems have p: "ordinary p" and c: "compat20 w" "\<not> rekeying w" "buffer_ok (outgoing_packet w)" "can_send L R w"
    by (auto simp: streaming_def)
  from built_succeeds [OF c(1,3) p] obtain w1 w2 where a: "packet_start (hd p) w = Inr w1"
    and q: "packet_put_raw (tl p) (of_nat (length (tl p))) w1 = Inr w2" by blast
  note b = built_packet [OF c(1,3) p a q]
  from b(2) obtain b2 where w2: "w2 = w\<lparr>outgoing_packet := b2\<rparr>" by blast
  have ob: "out_block w2 = out_block w" using w2 by (simp add: out_block_def)
  have cs2: "can_send L R w2" using c(4) w2 ob by (auto simp: can_send_def)
  have hr: "evp_total (l_evp L) (unat (out_block w))" "ci_block_size (cc_cipher (send_context w)) = out_block w"
    "unat (packets (p_send w)) + length ps + 1 < 2 ^ 32"
    "length (buffer_contents (s_output w)) + (length p + 0x200) + (\<Sum>p\<leftarrow>ps. length p + 0x200) + 0x50000 \<le> 0x100000"
    using Cons.prems(3) by (auto simp: has_room_def)
  have up: "unat (packets (p_send w) + 1) = unat (packets (p_send w)) + 1" using hr(3) by (subst unat_add_small) auto
  then have "packets (p_send w) + 1 \<noteq> 0" by (metis add_is_0 one_neq_zero unsigned_0)
  then have mc: "may_count_out w2" using w2 by (simp add: may_count_out_def)
  have "\<exists>w3. packet_send2_wrapped L w2 = Inr w3"
    by (rule send2_wrapped_succeeds [OF b(1) cs2 p _ _ _ mc]) (use hr ob w2 in simp_all)
  then obtain w3 where wr: "packet_send2_wrapped L w2 = Inr w3" by blast
  note g = packet_grows [OF b(1) cs2 p wr] and e = packet_extends [OF b(1) cs2 p wr]
  have s3: "streaming L R w3" using e c(1,2) w2 by (simp add: streaming_def)
  have "has_room L ps w3" using g hr up ob w2 by (simp add: has_room_def)
  from Cons.IH [OF s3 _ this] Cons.prems(2) obtain w' where "send_packets L ps w3 = Inr w'" by auto
  moreover have "buffer_peek (outgoing_packet w2) 5 = Inr (hd p)"
    using b(1) peek_contents [of "outgoing_packet w2" 5] by (auto simp: holds_payload_def nth_append hd_conv_nth)
  then have "packet_send L w2 = Inr w3"
    using wr c(1,2) w2 p by (auto simp: packet_send_def packet_send2_def ordinary_def)
  ultimately show ?case using a q by simp
qed

section \<open>Streams of packets\<close>

text \<open>C12: Packets sent over an SSH2 connection arrive. Between key exchanges, any list of ordinary
  packets that fits the output buffer is built, padded, authenticated and encrypted without an error;
  the bytes it adds to the output, given to a receiver that is in step and followed by anything,
  are read back as exactly that list of packets, no byte of what follows is consumed, and the two
  ends are in step again.\<close>

theorem packet_stream_roundtrip:
  assumes "streaming L R w" and "\<forall>p\<in>set ps. ordinary p" and "has_room L ps w"
  shows "\<exists>w' wire. send_packets L ps w = Inr w' \<and>
    buffer_contents (s_output w') = buffer_contents (s_output w) @ wire \<and>
    (\<forall>r rest. in_step R w r \<and> unat (packets (p_read r)) + length ps < 2 ^ 32 \<and>
       buffer_contents (s_input r) = wire @ rest \<longrightarrow>
       (\<exists>r'. read_packets L (length ps) r = Inr (ps, r') \<and> buffer_contents (s_input r') = rest \<and> in_step R w' r'))"
proof -
  from stream_sends [OF assms] obtain w' where s: "send_packets L ps w = Inr w'" by blast
  moreover from stream_extends [OF assms(1,2) s] obtain wire where
    e: "buffer_contents (s_output w') = buffer_contents (s_output w) @ wire" by blast
  moreover note stream_crosses [OF assms(1,2) s _ _ e]
  ultimately show ?thesis by blast
qed

text \<open>An example: a cipher that adds a keystream indexed by the position in the stream, and a MAC
  of twelve zero bytes.\<close>

definition keystream :: "nat \<Rightarrow> nat \<Rightarrow> byte list" where
  "keystream c n = map (\<lambda>i. of_nat (7 * i + 3)) [c..<c + n]"

definition xor_evp :: "nat evp" where
  "xor_evp = \<lparr>evp_init = (\<lambda>_ _ _. Some 0), evp_key_length = (\<lambda>_. 16), evp_set_key_length = (\<lambda>c _. Some c),
     evp_set_key = (\<lambda>c _. Some c), evp_cipher = (\<lambda>c x. Some (c + length x, map2 (XOR) x (keystream c (length x))))\<rparr>"

lemma keystream_append: "keystream c (m + n) = keystream c m @ keystream (c + m) n"
  using upt_add_eq_append [of c "c + m" n] by (simp add: keystream_def add.assoc flip: map_append)

lemma length_keystream [simp]: "length (keystream c n) = n"
  by (simp add: keystream_def)

lemma xor_twice: "length k = length x \<Longrightarrow> map2 (XOR) (map2 (XOR) x k) k = (x :: byte list)"
  by (rule nth_equalityI) (simp_all add: xor.assoc)

lemma xor_evp_ok: "evp_ok xor_evp (=) bs"
proof -
  have "map2 (XOR) (y @ z) (keystream d (length y + length z)) =
      map2 (XOR) y (keystream d (length y)) @ map2 (XOR) z (keystream (d + length y) (length z))" for y z :: "byte list" and d
    by (simp add: keystream_append)
  then show ?thesis by (simp add: evp_ok_def xor_evp_def xor_twice)
qed

definition demo_keys :: newkeys where
  "demo_keys = \<lparr>nk_enc = \<lparr>enc_name = ''aes128-ctr'', enc_cipher = the (cipher_by_name ''aes128-ctr''), enc_key_len = 16,
       enc_block_size = 16, enc_key = replicate 16 5, enc_iv = replicate 16 6\<rparr>,
     nk_mac = blank_mac\<lparr>mac_enabled := True, mac_type := SSH_EVP, mac_evp_md := Some EVP_sha1, mac_key_len := 20, mac_len := 12,
       mac_evp_ctx := Some (EVP_sha1, replicate 20 7)\<rparr>,
     nk_comp = \<lparr>comp_type = COMP_NONE, comp_enabled = False, comp_name = ''none''\<rparr>\<rparr>"

definition demo_libs :: "(nat, unit) libs" where
  "demo_libs = \<lparr>l_evp = xor_evp, l_mac = zero_macs, l_zlib = stored_zlib, l_junk = [],
     l_st_junk = \<lparr>st_size = 0, st_time = 0, st_sprob = 0, st_expected = 0\<rparr>, l_cluster_file = None, l_st_file = None\<rparr>"

definition demo_context :: "nat cipher_context" where
  "demo_context = \<lparr>cc_plaintext = False, cc_evp = 0, cc_cipher = the (cipher_by_name ''aes128-ctr'')\<rparr>"

text \<open>The static variables at the start of a program, given the random numbers, the clock and the
  socket.\<close>

definition start_world :: "'c cipher_context \<Rightarrow> (nat \<Rightarrow> u32) \<Rightarrow> (nat \<Rightarrow> u64) \<Rightarrow> (nat \<Rightarrow> os_answer) \<Rightarrow> ('c, 'z) world" where
  "start_world zcc rnd clk os = session_state.extend (alloc_session_state zcc)
     (world.fields cs_init 0 0 True 0 None None compress_start attack_init 0 None rnd 0 clk 0 os 0 [])"

definition demo_world :: "(nat, unit) world" where
  "demo_world = (start_world demo_context (\<lambda>n. of_nat (n * 1103515245)) (\<lambda>n. of_nat n)
       (\<lambda>n. \<lparr>os_outq = 0, os_ret = 0, os_cont = False, os_again = False\<rparr>))
     \<lparr>newkeys_in := Some demo_keys, newkeys_out := Some demo_keys, s_input := buffer_init, s_output := buffer_init,
      outgoing_packet := buffer_init, incoming_packet := buffer_init\<rparr>"

lemma demo_fields [simp]:
  "compat20 demo_world" "\<not> rekeying demo_world" "outgoing_packet demo_world = buffer_init" "s_output demo_world = buffer_init"
  "incoming_packet demo_world = buffer_init" "extra_pad demo_world = 0" "newkeys_out demo_world = Some demo_keys"
  "newkeys_in demo_world = Some demo_keys" "send_context demo_world = demo_context" "receive_context demo_world = demo_context"
  "p_send demo_world = zero_counters" "p_read demo_world = zero_counters" "packet_discard demo_world = 0" "packlen demo_world = 0"
  by (simp_all add: demo_world_def start_world_def session_state.extend_def world.fields_def alloc_session_state_def)

lemma demo_cipher: "ci_block_size (cc_cipher demo_context) = 16"
  by (simp add: demo_context_def cipher_by_name_def ciphers_def)

lemma demo_mac: "macs_ready demo_libs (active_mac (Some demo_keys))"
  by (simp add: macs_ready_def active_mac_def demo_keys_def mac_ready_def mac_compute_def blank_mac_def demo_libs_def zero_macs_def)

lemma demo_streaming: "streaming demo_libs (=) demo_world"
  using demo_mac
  by (simp add: streaming_def can_send_def out_block_def demo_keys_def block_ok_def compressing_def demo_libs_def xor_evp_ok)

theorem packet_stream_roundtrip_witness:
  "\<exists>w' r'. send_packets demo_libs [[94, 1, 2, 3], [98, 7]] demo_world = Inr w' \<and>
     read_packets demo_libs 2 (demo_world\<lparr>s_input := s_output w'\<rparr>) = Inr ([[94, 1, 2, 3], [98, 7]], r') \<and>
     buffer_contents (s_input r') = []"
proof -
  let ?ps = "[[94, 1, 2, 3], [98, 7]] :: byte list list"
  have o: "\<forall>p\<in>set ?ps. ordinary p" by (simp add: ordinary_def valid_type_def)
  have h: "has_room demo_libs ?ps demo_world"
    by (simp add: has_room_def evp_total_def demo_libs_def xor_evp_def out_block_def demo_keys_def demo_cipher zero_counters_def)
  from packet_stream_roundtrip [OF demo_streaming o h] obtain w' wire where s: "send_packets demo_libs ?ps demo_world = Inr w'"
    and c: "buffer_contents (s_output w') = wire"
    and r: "\<And>r rest. in_step (=) demo_world r \<and> unat (packets (p_read r)) + length ?ps < 2 ^ 32 \<and>
       buffer_contents (s_input r) = wire @ rest \<Longrightarrow>
       \<exists>r'. read_packets demo_libs (length ?ps) r = Inr (?ps, r') \<and> buffer_contents (s_input r') = rest \<and> in_step (=) w' r'"
    by auto
  have "buffer_ok (s_output w')" using stream_extends [OF demo_streaming o s] by (simp add: streaming_def can_send_def)
  then have "in_step (=) demo_world (demo_world\<lparr>s_input := s_output w'\<rparr>)"
    by (simp add: in_step_def in_block_def out_block_def demo_cipher compressing_def demo_keys_def)
  moreover have "unat (packets (p_read demo_world)) + length ?ps < 2 ^ 32" and two: "length ?ps = 2"
    by (simp_all add: zero_counters_def)
  ultimately obtain r' where "read_packets demo_libs (length ?ps) (demo_world\<lparr>s_input := s_output w'\<rparr>) = Inr (?ps, r')"
    "buffer_contents (s_input r') = []"
    using r [of "demo_world\<lparr>s_input := s_output w'\<rparr>" "[]"] c by auto
  then show ?thesis using s unfolding two by blast
qed

section \<open>Padding\<close>



end
