(* ===== verification/PacketShape.thy ===== *)
theory PacketShape
  imports PacketWrite PacketWire
begin

text \<open>
  The shape of the traffic. While a transcript is replayed (\<open>stmode\<close> 1), the sizes of the writes
  depend on what the padding scheme asks for and on the room in the kernel only: junk packets fill
  up what the data of the user leaves open, and the data is written in order. The loop of
  \<open>packet_write_poll\<close> ends when the kernel makes room; once the transcript is over it may not.
\<close>

section \<open>Junk packets\<close>

lemma put_chars_spec:
  assumes "buffer_ok (outgoing_packet w)" and "length (buffer_contents (outgoing_packet w)) + length cs \<le> 0x100000"
  shows "\<exists>b. put_chars cs w = Inr (w\<lparr>outgoing_packet := b\<rparr>) \<and> buffer_ok b \<and>
    buffer_contents b = buffer_contents (outgoing_packet w) @ cs"
  using assms
proof (induction cs arbitrary: w)
  case Nil
  then show ?case by (intro exI [of _ "outgoing_packet w"]) simp
next
  case (Cons c cs)
  have "\<exists>b. buffer_append (outgoing_packet w) [c] 1 = Inr b" using Cons.prems by (intro append_small) auto
  then obtain b where b: "buffer_append (outgoing_packet w) [c] 1 = Inr b" by blast
  have s: "buffer_ok b" "buffer_contents b = buffer_contents (outgoing_packet w) @ [c]"
    using append_spec [OF Cons.prems(1) b] by simp_all
  from Cons.IH [of "w\<lparr>outgoing_packet := b\<rparr>"] s Cons.prems(2) b show ?case
    by (auto simp: packet_put_char_def upd_outgoing_def)
qed

text \<open>A message of type \<open>t\<close> with a length and as many random bytes.\<close>

abbreviation random_message :: "byte \<Rightarrow> int \<Rightarrow> ('c, 'z) world \<Rightarrow> ('c, 'z) world result" where
  "random_message t n w \<equiv> rbind (packet_start t w) (\<lambda>w. rbind (packet_put_int (word_of_int n) w) (\<lambda>w.
     let (r, w) = random_bytes (nat n) 0 0 w in put_chars r w))"

lemma message_built:
  assumes c: "compat20 w" and ok: "buffer_ok (outgoing_packet w)" and n: "0 \<le> n" "n \<le> 0x20000"
  shows "\<exists>b k p. random_message t n w = Inr (w\<lparr>rnd_pos := k, outgoing_packet := b\<rparr>) \<and> holds_payload b p \<and>
    hd p = t \<and> length p = nat n + 5"
proof -
  have "\<exists>b. buffer_append (buffer_clear (outgoing_packet w)) (replicate 5 0 @ [t]) 6 = Inr b"
    using ok by (intro append_small buffer_clear_ok) auto
  then obtain b1 where b1: "buffer_append (buffer_clear (outgoing_packet w)) (replicate 5 0 @ [t]) 6 = Inr b1"
    by blast
  from append_spec [OF buffer_clear_ok [OF ok] b1] have c1: "buffer_ok b1"
    "buffer_contents b1 = replicate 5 0 @ [t]" by simp_all
  have "\<exists>b. buffer_append b1 (put_u32 (word_of_int n)) 4 = Inr b" using c1 by (intro append_small) auto
  then obtain b2 where b2: "buffer_append b1 (put_u32 (word_of_int n)) 4 = Inr b2" by blast
  from append_spec [OF c1(1) b2] have c2: "buffer_ok b2"
    "buffer_contents b2 = replicate 5 0 @ t # put_u32 (word_of_int n)" by (simp_all add: c1(2))
  obtain r k where r: "random_bytes (nat n) 0 0 (w\<lparr>outgoing_packet := b2\<rparr>) = (r, w\<lparr>outgoing_packet := b2, rnd_pos := k\<rparr>)"
    and lr: "length r = nat n" using random_bytes_frame [of "nat n" 0 0 "w\<lparr>outgoing_packet := b2\<rparr>"] by auto
  have "\<exists>b. put_chars r (w\<lparr>outgoing_packet := b2, rnd_pos := k\<rparr>) = Inr (w\<lparr>outgoing_packet := b2, rnd_pos := k, outgoing_packet := b\<rparr>) \<and>
      buffer_ok b \<and> buffer_contents b = buffer_contents b2 @ r"
    using put_chars_spec [of "w\<lparr>outgoing_packet := b2, rnd_pos := k\<rparr>" r] c2 lr n by simp
  then obtain b3 where "put_chars r (w\<lparr>outgoing_packet := b2, rnd_pos := k\<rparr>) = Inr (w\<lparr>rnd_pos := k, outgoing_packet := b3\<rparr>)"
    "buffer_ok b3" "buffer_contents b3 = buffer_contents b2 @ r" by auto
  then show ?thesis using c b1 b2 c2 r lr
    by (intro exI [of _ b3] exI [of _ k] exI [of _ "t # put_u32 (word_of_int n) @ r"])
      (auto simp: packet_start_def upd_outgoing_def packet_put_int_def buffer_put_int_def
         Let_def holds_payload_def intro!: exI [of _ "replicate 5 0"])
qed

text \<open>A sender that can pad, and what padding leaves alone.\<close>

definition shaping :: "('c, 'z) libs \<Rightarrow> ('c \<Rightarrow> 'c \<Rightarrow> bool) \<Rightarrow> ('c, 'z) world \<Rightarrow> bool" where
  "shaping L R w \<longleftrightarrow> compat20 w \<and> buffer_ok (outgoing_packet w) \<and> can_send L R w \<and>
     evp_total (l_evp L) (unat (out_block w)) \<and> ci_block_size (cc_cipher (send_context w)) = out_block w"

definition same_io :: "('c, 'z) world \<Rightarrow> ('c, 'z) world \<Rightarrow> bool" where
  "same_io w w' \<longleftrightarrow> w_cs w' = w_cs w \<and> os_src w' = os_src w \<and> os_pos w' = os_pos w \<and> wire_out w' = wire_out w"

abbreviation pending :: "('c, 'z) world \<Rightarrow> byte list" where
  "pending w \<equiv> buffer_contents (s_output w)"

abbreviation sent_packets :: "('c, 'z) world \<Rightarrow> nat" where
  "sent_packets w \<equiv> unat (packets (p_send w))"

text \<open>Junk was appended: at least a byte for each packet.\<close>

definition junk_added :: "('c, 'z) libs \<Rightarrow> ('c \<Rightarrow> 'c \<Rightarrow> bool) \<Rightarrow> ('c, 'z) world \<Rightarrow> ('c, 'z) world \<Rightarrow> bool" where
  "junk_added L R w w' \<longleftrightarrow> shaping L R w' \<and> same_io w w' \<and> (\<exists>junk. pending w' = pending w @ junk)"

lemma junk_added_trans: "junk_added L R w w1 \<Longrightarrow> junk_added L R w1 w2 \<Longrightarrow> junk_added L R w w2"
  by (auto simp: junk_added_def same_io_def)

lemma sealed_io:
  assumes "sealed L w payload pad c' ct mb w'"
  shows "same_io w w'" and "pending w' = pending w @ ct @ mb" and "length payload + 9 \<le> length ct"
  using assms by (auto simp: sealed_def same_io_def)

lemma message_sent:
  fixes w :: "('c, 'z) world"
  assumes sh: "shaping L R w" and n: "0 \<le> n" "n \<le> 0x20000"
    and v: "valid_type t" "t \<notin> {SSH2_MSG_KEXINIT, SSH2_MSG_NEWKEYS, SSH2_MSG_USERAUTH_SUCCESS}" "rekeying w \<longrightarrow> t = SSH2_MSG_IGNORE"
    and len: "length (pending w) \<le> 0x80000"
    and cnt: "sent_packets w + 1 < 2 ^ 32"
  shows "\<exists>w'. rbind (random_message t n w) (packet_send L) = Inr w' \<and> junk_added L R w w' \<and>
    length (pending w) + nat n < length (pending w') \<and> length (pending w') \<le> length (pending w) + nat n + 0x300 \<and>
    sent_packets w' = sent_packets w + 1"
proof -
  have c: "compat20 w" "buffer_ok (outgoing_packet w)" "can_send L R w" and ev: "evp_total (l_evp L) (unat (out_block w))"
    and ci: "ci_block_size (cc_cipher (send_context w)) = out_block w" using sh by (auto simp: shaping_def)
  from message_built [OF c(1,2) n] obtain b k p where
    g: "random_message t n w = Inr (w\<lparr>rnd_pos := k, outgoing_packet := b\<rparr>)"
    and hp: "holds_payload b p" and h: "hd p = t" and lp: "length p = nat n + 5" by blast
  define w1 where "w1 = w\<lparr>rnd_pos := k, outgoing_packet := b\<rparr>"
  have f: "out_block w1 = out_block w" "send_context w1 = send_context w" "s_output w1 = s_output w" "p_send w1 = p_send w"
    "compat20 w1" "same_io w w1" "outgoing_packet w1 = b" "rekeying w1 = rekeying w"
    using c by (simp_all add: w1_def out_block_def same_io_def)
  have o: "ordinary p" using h lp n v by (auto simp: ordinary_def)
  have cs: "can_send L R w1" using c(3) f by (simp add: can_send_def w1_def out_block_def)
  have up: "unat (packets (p_send w) + 1) = sent_packets w + 1" using cnt by (subst unat_add_small) auto
  then have "packets (p_send w) + 1 \<noteq> 0" by (metis add_is_0 one_neq_zero unsigned_0)
  then have mc: "may_count_out w1" using f by (simp add: may_count_out_def)
  have hp1: "holds_payload (outgoing_packet w1) p" using hp f by simp
  have "\<exists>w2. packet_send2_wrapped L w1 = Inr w2"
    by (rule send2_wrapped_succeeds [OF hp1 cs o _ _ _ mc]) (use ev ci f len in simp_all)
  then obtain w2 where w2: "packet_send2_wrapped L w1 = Inr w2" by blast
  have small: "length p < 0x40000000" using lp n by simp
  obtain pad c' ct mb where se: "sealed L w1 p pad c' ct mb w2"
    by (rule send2_wrapped_spec [OF hp1 cs small w2]) (use h v in auto)
  note g2 = packet_grows [OF hp1 cs o w2] and e = packet_extends [OF hp1 cs o w2] and io = sealed_io [OF se]
  have "buffer_peek b 5 = Inr t"
    using hp h peek_contents [of b 5] by (auto simp: holds_payload_def nth_append hd_conv_nth)
  then have "packet_send L w1 = Inr w2" using w2 f v by (auto simp: packet_send_def packet_send2_def Let_def)
  moreover have "shaping L R w2" using e g2 ev ci f by (simp add: shaping_def)
  moreover have "same_io w w2" using io(1) f(6) by (simp add: same_io_def)
  ultimately show ?thesis using g io(2,3) g2(1,2) lp f up
    by (auto simp: w1_def [symmetric] junk_added_def)
qed

lemma ignore_sent:
  fixes w :: "('c, 'z) world"
  assumes sh: "shaping L R w" and n: "0 \<le> n" "n \<le> 0x20000" and len: "length (pending w) \<le> 0x80000"
    and cnt: "sent_packets w + 1 < 2 ^ 32"
  shows "\<exists>w'. rbind (packet_send_ignore n w) (packet_send L) = Inr w' \<and> junk_added L R w w' \<and>
    length (pending w) + nat n < length (pending w') \<and> length (pending w') \<le> length (pending w) + nat n + 0x300 \<and>
    sent_packets w' = sent_packets w + 1"
proof -
  have "packet_send_ignore n w = random_message SSH2_MSG_IGNORE n w" using sh by (simp add: packet_send_ignore_def shaping_def)
  then show ?thesis using message_sent [OF sh n _ _ _ len cnt, of SSH2_MSG_IGNORE] by (simp add: valid_type_def)
qed

text \<open>The notifications are messages of the same kind, all but the URL.\<close>

lemma notify_message:
  "notify_type f = Some t \<Longrightarrow> f \<noteq> CHR ''l'' \<Longrightarrow> packet_send_notify n f w = random_message t n w"
  by (simp add: packet_send_notify_def)

lemma notify_valid: "notify_type f = Some t \<Longrightarrow> valid_type t \<and> t \<notin> {SSH2_MSG_KEXINIT, SSH2_MSG_NEWKEYS, SSH2_MSG_USERAUTH_SUCCESS}"
  by (auto simp: notify_type_def valid_type_def notify_msg_def split: if_splits)

lemma notify_sent:
  fixes w :: "('c, 'z) world"
  assumes f: "notify_type f = Some t" "f \<noteq> CHR ''l''" and sh: "shaping L R w" and n: "0 \<le> n" "n \<le> 0x20000" and "\<not> rekeying w"
    and len: "length (pending w) \<le> 0x80000" and cnt: "sent_packets w + 1 < 2 ^ 32"
  shows "\<exists>w'. rbind (packet_send_notify n f w) (packet_send L) = Inr w' \<and> junk_added L R w w' \<and>
    length (pending w) + nat n < length (pending w') \<and> length (pending w') \<le> length (pending w) + nat n + 0x300 \<and>
    sent_packets w' = sent_packets w + 1"
  unfolding notify_message [OF f]
  by (rule message_sent [OF sh n _ _ _ len cnt]) (use notify_valid [OF f(1)] \<open>\<not> rekeying w\<close> in auto)

text \<open>Enough junk for \<open>a\<close> bytes was appended, with at most a packet for each missing byte.\<close>

definition filled :: "('c, 'z) libs \<Rightarrow> ('c \<Rightarrow> 'c \<Rightarrow> bool) \<Rightarrow> int \<Rightarrow> ('c, 'z) world \<Rightarrow> ('c, 'z) world \<Rightarrow> bool" where
  "filled L R a w w' \<longleftrightarrow> junk_added L R w w' \<and> a \<le> int (length (pending w')) \<and>
     int (length (pending w')) \<le> max (int (length (pending w))) (a + 0x400) \<and>
     sent_packets w' \<le> sent_packets w + nat (a - int (length (pending w)))"

lemma unat_pending:
  assumes "shaping L R w"
  shows "unat (buffer_len (s_output w)) = length (pending w)"
  using assms unat_buffer_len [of "s_output w"] by (simp add: shaping_def can_send_def)

lemma filled_later:
  assumes "junk_added L R w w1" and "filled L R a w1 w2" and "length (pending w) < length (pending w1)"
    and "int (length (pending w)) < a" and "int (length (pending w1)) \<le> a + 0x400" and "sent_packets w1 = sent_packets w + 1"
  shows "filled L R a w w2"
proof -
  have "junk_added L R w w2" using assms(1,2) junk_added_trans unfolding filled_def by blast
  moreover have "sent_packets w2 \<le> sent_packets w + 1 + nat (a - int (length (pending w1)))"
    using assms(2,6) by (simp add: filled_def)
  moreover have "1 + nat (a - int (length (pending w1))) \<le> nat (a - int (length (pending w)))"
    using assms(3,4) by linarith
  ultimately show ?thesis using assms(2,5) by (simp add: filled_def)
qed

lemma pad_loop_fills:
  assumes "shaping L R w" and "a - int (length (pending w)) < int fuel" and "a \<le> 0x4000" and "length (pending w) \<le> 0x80000"
    and "sent_packets w + nat (a - int (length (pending w))) < 2 ^ 32" and "0 < fuel"
  shows "\<exists>w'. pad_loop fuel L a w = Inr w' \<and> filled L R a w w'"
  using assms
proof (induction fuel arbitrary: w)
  case 0
  then show ?case by simp
next
  case (Suc fuel)
  note u = unat_pending [OF Suc.prems(1)]
  show ?case
  proof (cases "int (length (pending w)) < a")
    case False
    then have "filled L R a w w" using Suc.prems(1) by (auto simp: filled_def junk_added_def same_io_def)
    then show ?thesis using False u by auto
  next
    case True
    have "\<exists>w1. rbind (packet_send_ignore 0 w) (packet_send L) = Inr w1 \<and> junk_added L R w w1 \<and>
        length (pending w) + nat 0 < length (pending w1) \<and> length (pending w1) \<le> length (pending w) + nat 0 + 0x300 \<and>
        sent_packets w1 = sent_packets w + 1"
      by (rule ignore_sent) (use Suc.prems True in auto)
    then obtain w1 where w1: "rbind (packet_send_ignore 0 w) (packet_send L) = Inr w1" "junk_added L R w w1"
      and l1: "length (pending w) < length (pending w1)" "length (pending w1) \<le> length (pending w) + 0x300"
      and s1: "sent_packets w1 = sent_packets w + 1" by auto
    have sh: "shaping L R w1" using w1(2) by (simp add: junk_added_def)
    have "\<exists>w'. pad_loop fuel L a w1 = Inr w' \<and> filled L R a w1 w'"
      by (rule Suc.IH [OF sh]) (use l1 s1 Suc.prems True in linarith)+
    then obtain w' where w': "pad_loop fuel L a w1 = Inr w'" "filled L R a w1 w'" by blast
    have "filled L R a w w'" by (rule filled_later [OF w1(2) w'(2) l1(1) True _ s1]) (use l1(2) True in simp)
    moreover have "pad_loop (Suc fuel) L a w = Inr w'"
      using True u w1(1) w'(1) by (auto simp flip: rbind_assoc)
    ultimately show ?thesis by blast
  qed
qed

lemma pad_output_fills:
  fixes w :: "('c, 'z) world"
  assumes sh: "shaping L R w" and a: "int (length (pending w)) < a" "a \<le> 0x4000"
    and cnt: "sent_packets w + nat (a - int (length (pending w))) < 2 ^ 32"
  shows "\<exists>w1 j. pad_output L a w = Inr (upd_cs (set_padded_junk j) w1) \<and> filled L R a w w1"
proof -
  let ?n = "let amount = a - int (length (pending w)) - 16 in if amount > 0 then amount + 6 else 0"
  have n: "0 \<le> ?n" "?n \<le> 0x20000" "int (length (pending w)) + ?n \<le> a" using a by (auto simp: Let_def)
  have "\<exists>w1. rbind (packet_send_ignore ?n w) (packet_send L) = Inr w1 \<and> junk_added L R w w1 \<and>
      length (pending w) + nat ?n < length (pending w1) \<and> length (pending w1) \<le> length (pending w) + nat ?n + 0x300 \<and>
      sent_packets w1 = sent_packets w + 1"
    by (rule ignore_sent [OF sh n(1,2)]) (use a cnt in linarith)+
  then obtain w1 where w1: "rbind (packet_send_ignore ?n w) (packet_send L) = Inr w1" "junk_added L R w w1"
    and l1: "length (pending w) < length (pending w1)" "int (length (pending w1)) \<le> a + 0x300"
    and s1: "sent_packets w1 = sent_packets w + 1" using n by auto
  have sh1: "shaping L R w1" using w1(2) by (simp add: junk_added_def)
  have "\<exists>w2. pad_loop (Suc (nat a)) L a w1 = Inr w2 \<and> filled L R a w1 w2"
    by (rule pad_loop_fills [OF sh1]) (use l1 a s1 cnt in linarith)+
  then obtain w2 where w2: "pad_loop (Suc (nat a)) L a w1 = Inr w2" "filled L R a w1 w2" by blast
  have "filled L R a w w2" by (rule filled_later [OF w1(2) w2(2) l1(1) a(1) _ s1]) (use l1(2) in simp)
  moreover from w1(1) obtain w0 where "packet_send_ignore ?n w = Inr w0" "packet_send L w0 = Inr w1" by auto
  then have "pad_output L a w = Inr (upd_cs (set_padded_junk (int (unat (buffer_len (s_output w2))) -
      int (length (pending w)) + padded_junk (w_cs w2))) w2)"
    using w2(1) unat_pending [OF sh] by (simp add: pad_output_def Let_def del: pad_loop.simps)
  ultimately show ?thesis by blast
qed

section \<open>One write of a replay\<close>

definition replaying :: "cs_state \<Rightarrow> bool" where
  "replaying s \<longleftrightarrow> stmode s = 1 \<and> sent_tend s \<noteq> 1"

text \<open>The kernel has room and takes at least a byte.\<close>

definition kernel_serves :: "os_answer \<Rightarrow> bool" where
  "kernel_serves a \<longleftrightarrow> 0 \<le> os_outq a \<and> os_outq a < tcp_limit \<and> 1 \<le> os_ret a"

text \<open>How many bytes go out when \<open>n\<close> are due.\<close>

definition write_size :: "os_answer \<Rightarrow> int \<Rightarrow> int" where
  "write_size a n = min (os_ret a) (min n (tcp_limit - os_outq a))"

text \<open>A write of \<open>d\<close> with \<open>n\<close> bytes due: what is pending goes first, in order.\<close>

definition wrote :: "('c, 'z) libs \<Rightarrow> ('c \<Rightarrow> 'c \<Rightarrow> bool) \<Rightarrow> int \<Rightarrow> byte list \<Rightarrow> ('c, 'z) world \<Rightarrow> ('c, 'z) world \<Rightarrow> bool" where
  "wrote L R n d w w' \<longleftrightarrow> shaping L R w' \<and> wire_out w' = wire_out w @ [d] \<and> (\<exists>junk. d @ pending w' = pending w @ junk) \<and>
     (\<exists>j. w_cs w' = set_padded_junk j (w_cs w)) \<and> os_src w' = os_src w \<and> os_pos w' = Suc (os_pos w) \<and>
     sent_packets w' + nat (n - int (length d) - int (length (pending w'))) \<le> sent_packets w + nat (n - int (length (pending w)))"

lemma shaping_update [simp]:
  "shaping L R (w\<lparr>os_pos := k\<rparr>) = shaping L R w" "shaping L R (w\<lparr>w_cs := s\<rparr>) = shaping L R w"
  "shaping L R (w\<lparr>wire_out := x\<rparr>) = shaping L R w"
  by (simp_all add: shaping_def can_send_def out_block_def)

lemma shaping_output:
  assumes "shaping L R w" and "buffer_ok b"
  shows "shaping L R (w\<lparr>s_output := b\<rparr>)"
  using assms by (simp add: shaping_def can_send_def out_block_def)

lemma flush_spec:
  assumes sh: "shaping L R w" and m: "0 \<le> m" "m \<le> int (length (pending w))"
  shows "\<exists>out. buffer_consume (s_output w) (word_of_int m) = Inr out \<and> shaping L R (w\<lparr>s_output := out\<rparr>) \<and>
    take (nat m) (buffer_ptr (s_output w)) = take (nat m) (pending w) \<and> buffer_contents out = drop (nat m) (pending w)"
proof -
  have ok: "buffer_ok (s_output w)" using sh by (simp add: shaping_def can_send_def)
  have "length (pending w) < 2 ^ 32" using unat_pending [OF sh] unsigned_less [of "buffer_len (s_output w)", where 'a = nat] by simp
  then have u: "unat (word_of_int m :: u32) = nat m"
    using m by (simp add: unat_eq_nat_uint uint_word_of_int_eq take_bit_int_eq_self)
  have "nat m \<le> length (pending w)" using m by linarith
  with consume_spec [OF ok, of "word_of_int m"] u obtain out where
    "buffer_consume (s_output w) (word_of_int m) = Inr out" "buffer_ok out" "buffer_contents out = drop (nat m) (pending w)"
    by auto
  moreover have "take (nat m) (buffer_ptr (s_output w)) = take (nat m) (pending w)"
    using take_ptr [OF ok, of "nat m"] m by simp
  ultimately show ?thesis using shaping_output [OF sh] by auto
qed

lemma filled_prefix:
  assumes "filled L R a w w'"
  obtains junk where "pending w' = pending w @ junk" and "same_io w w'" and "shaping L R w'"
    and "a \<le> int (length (pending w'))" and "int (length (pending w')) \<le> max (int (length (pending w))) (a + 0x400)"
    and "sent_packets w' \<le> sent_packets w + nat (a - int (length (pending w)))"
  using assms by (auto simp: filled_def junk_added_def)

lemma prepare_write:
  fixes w :: "('c, 'z) world"
  assumes sh: "shaping L R w" and st: "replaying (w_cs w)" and a: "0 < a" "a \<le> 0x4000"
    and cnt: "sent_packets w + nat (a - int (length (pending w))) < 2 ^ 32"
  shows "\<exists>w1 j. prepare_output L a w = Inr (a, upd_cs (set_padded_junk j) w1) \<and> filled L R a w w1"
proof (cases "a \<le> int (length (pending w))")
  case True
  then have "filled L R a w w" using sh by (auto simp: filled_def junk_added_def same_io_def)
  then show ?thesis using True unat_pending [OF sh]
    by (intro exI [of _ w] exI [of _ "padded_junk (w_cs w)"]) (simp add: prepare_output_def set_padded_junk_def)
next
  case False
  then obtain w1 j where p: "pad_output L a w = Inr (upd_cs (set_padded_junk j) w1)" "filled L R a w w1"
    using pad_output_fills [OF sh _ a(2) cnt] by auto
  moreover have "w_cs w1 = w_cs w" using p(2) by (auto simp: filled_def junk_added_def same_io_def)
  ultimately show ?thesis using False st unat_pending [OF sh]
    by (intro exI [of _ w1] exI [of _ j]) (simp add: prepare_output_def set_padded_junk_def replaying_def)
qed

lemma one_write_replaying:
  fixes w :: "('c, 'z) world"
  assumes sh: "shaping L R w" and st: "replaying (w_cs w)" and n: "0 < n" and k: "kernel_serves (os_src w (os_pos w))"
    and cnt: "sent_packets w + nat (n - int (length (pending w))) < 2 ^ 32"
  shows "\<exists>w' d. packet_write_poll_one_write L n w = Inr (n - int (length d), w') \<and>
    int (length d) = write_size (os_src w (os_pos w)) n \<and> wrote L R n d w w'"
proof -
  define a where "a = os_src w (os_pos w)"
  define w0 where "w0 = w\<lparr>os_pos := Suc (os_pos w)\<rparr>"
  define aw where "aw = min n (tcp_limit - os_outq a)"
  have aw: "0 < aw" "aw \<le> 0x4000" "aw \<le> n" using k n by (auto simp: aw_def a_def kernel_serves_def)
  have w0: "shaping L R w0" "replaying (w_cs w0)" "s_output w0 = s_output w" "p_send w0 = p_send w" "w_cs w0 = w_cs w"
    using sh st by (simp_all add: w0_def)
  have nf: "\<not> free_running (w_cs w)" "stmode (w_cs w) = 1" using st by (auto simp: free_running_def replaying_def)
  have wa: "write_amount n (os_outq a) len (w_cs w) = aw" for len
    using nf k by (auto simp: write_amount_def aw_def a_def kernel_serves_def Let_def min_def)
  have "sent_packets w0 + nat (aw - int (length (pending w0))) < 2 ^ 32" using cnt aw(3) w0(3,4) by simp
  then obtain w1 j where pr: "prepare_output L aw w0 = Inr (aw, upd_cs (set_padded_junk j) w1)" and fl: "filled L R aw w0 w1"
    using prepare_write [OF w0(1,2) aw(1,2)] by blast
  obtain junk where p1: "pending w1 = pending w0 @ junk" and io: "same_io w0 w1" and sh1: "shaping L R w1"
    and l1: "aw \<le> int (length (pending w1))" "int (length (pending w1)) \<le> max (int (length (pending w0))) (aw + 0x400)"
    and s1: "sent_packets w1 \<le> sent_packets w0 + nat (aw - int (length (pending w0)))"
    by (rule filled_prefix [OF fl])
  define m where "m = min (os_ret a) aw"
  have m: "0 < m" "m \<le> aw" using k aw by (auto simp: m_def a_def kernel_serves_def)
  from flush_spec [OF sh1, of m] m l1(1) obtain out where co: "buffer_consume (s_output w1) (word_of_int m) = Inr out"
    and sho: "shaping L R (w1\<lparr>s_output := out\<rparr>)" and tk: "take (nat m) (buffer_ptr (s_output w1)) = take (nat m) (pending w1)"
    and ro: "buffer_contents out = drop (nat m) (pending w1)" by auto
  define d where "d = take (nat m) (pending w1)"
  define w' where "w' = w1\<lparr>w_cs := set_padded_junk j (w_cs w1), wire_out := wire_out w1 @ [d], s_output := out\<rparr>"
  have ld: "int (length d) = m" using m l1(1) by (simp add: d_def)
  have cs: "\<not> free_running (set_padded_junk j (w_cs w1))" "stmode (set_padded_junk j (w_cs w1)) = 1" "w_cs w1 = w_cs w"
    using nf io w0(5) by (auto simp: same_io_def set_padded_junk_def free_running_def)
  have "packet_write_poll_one_write L n w = Inr (n - m, w')"
    unfolding packet_write_poll_one_write_def Let_def a_def [symmetric] w0_def [symmetric] w0(5) wa pr
    using aw(1) m n by (simp add: flush_output_def Let_def m_def [symmetric] co cs(1,2) tk d_def [symmetric] w'_def)
  moreover have "wrote L R n d w w'"
    unfolding wrote_def
  proof (intro conjI)
    have lw': "int (length (pending w')) = int (length (pending w1)) - m" using ro m l1(1) by (simp add: w'_def)
    have ll: "length (pending w) \<le> length (pending w1)" using p1 w0(3) by simp
    show "shaping L R w'" using sho by (simp add: w'_def shaping_def can_send_def out_block_def)
    have "d @ pending w' = pending w1" using ro by (simp add: d_def w'_def)
    then show "\<exists>junk. d @ pending w' = pending w @ junk" using p1 w0(3) by auto
    show "\<exists>j. w_cs w' = set_padded_junk j (w_cs w)" using cs(3) by (auto simp: w'_def)
    have "n - int (length d) - int (length (pending w')) = n - int (length (pending w1))" using lw' ld by simp
    then show "sent_packets w' + nat (n - int (length d) - int (length (pending w'))) \<le> sent_packets w + nat (n - int (length (pending w)))"
      using s1 w0(3,4) l1(1) aw(3) ll by (simp add: w'_def)
  qed (use io in \<open>auto simp: w'_def same_io_def w0_def\<close>)
  moreover have "m = write_size a n" by (simp add: m_def aw_def write_size_def)
  ultimately show ?thesis using ld by (intro exI [of _ w'] exI [of _ d]) (simp add: a_def)
qed

section \<open>The writes of a replay\<close>

text \<open>The sizes of the writes when \<open>n\<close> bytes are due, from the answers of the kernel alone.\<close>

fun write_sizes :: "(nat \<Rightarrow> os_answer) \<Rightarrow> nat \<Rightarrow> nat \<Rightarrow> int \<Rightarrow> int list" where
  "write_sizes src 0 k n = []"
| "write_sizes src (Suc fuel) k n =
     (if n > 0 then write_size (src k) n # write_sizes src fuel (Suc k) (n - write_size (src k) n) else [])"

lemma write_size_bounds:
  assumes "kernel_serves a" and "0 < n"
  shows "0 < write_size a n" and "write_size a n \<le> n"
  using assms by (auto simp: write_size_def kernel_serves_def)

lemma write_sizes_total:
  assumes "\<forall>i\<ge>k. kernel_serves (src i)" and "0 \<le> n" and "n \<le> int fuel"
  shows "sum_list (write_sizes src fuel k n) = n"
  using assms
proof (induction fuel arbitrary: k n)
  case (Suc fuel)
  show ?case
  proof (cases "n > 0")
    case True
    note b = write_size_bounds [OF _ True, of "src k"]
    have "sum_list (write_sizes src fuel (Suc k) (n - write_size (src k) n)) = n - write_size (src k) n"
      using Suc.prems b by (intro Suc.IH) auto
    then show ?thesis using True by simp
  qed (use Suc.prems in simp)
qed simp

lemma write_loop_replaying:
  assumes "shaping L R w" and "replaying (w_cs w)" and "\<forall>i\<ge>os_pos w. kernel_serves (os_src w i)" and "0 \<le> n" "n \<le> int fuel"
    and "sent_packets w + nat (n - int (length (pending w))) < 2 ^ 32"
  shows "\<exists>w' ds j junk. write_loop fuel L n w = Inr (0, w') \<and> wire_out w' = wire_out w @ ds \<and>
    map (\<lambda>d. int (length d)) ds = write_sizes (os_src w) fuel (os_pos w) n \<and> concat ds @ pending w' = pending w @ junk \<and>
    w_cs w' = set_padded_junk j (w_cs w)"
  using assms
proof (induction fuel arbitrary: n w)
  case 0
  then show ?case by (intro exI [of _ w] exI [of _ "[]"] exI [of _ "padded_junk (w_cs w)"]) (simp add: set_padded_junk_def)
next
  case (Suc fuel)
  show ?case
  proof (cases "n > 0")
    case False
    with Suc.prems show ?thesis
      by (intro exI [of _ w] exI [of _ "[]"] exI [of _ "padded_junk (w_cs w)"]) (simp add: set_padded_junk_def)
  next
    case True
    have k: "kernel_serves (os_src w (os_pos w))" using Suc.prems(3) by simp
    from one_write_replaying [OF Suc.prems(1,2) True k Suc.prems(6)] obtain w1 d where
      o: "packet_write_poll_one_write L n w = Inr (n - int (length d), w1)"
      and d: "int (length d) = write_size (os_src w (os_pos w)) n" and wr: "wrote L R n d w w1" by blast
    from wr obtain j1 junk1 where w1: "shaping L R w1" "wire_out w1 = wire_out w @ [d]" "d @ pending w1 = pending w @ junk1"
      "w_cs w1 = set_padded_junk j1 (w_cs w)" "os_src w1 = os_src w" "os_pos w1 = Suc (os_pos w)"
      and c1: "sent_packets w1 + nat (n - int (length d) - int (length (pending w1))) < 2 ^ 32"
      using Suc.prems(6) by (auto simp: wrote_def)
    note b = write_size_bounds [OF k True]
    have "\<exists>w' ds j junk. write_loop fuel L (n - int (length d)) w1 = Inr (0, w') \<and> wire_out w' = wire_out w1 @ ds \<and>
      map (\<lambda>d. int (length d)) ds = write_sizes (os_src w1) fuel (os_pos w1) (n - int (length d)) \<and>
      concat ds @ pending w' = pending w1 @ junk \<and> w_cs w' = set_padded_junk j (w_cs w1)"
      by (rule Suc.IH [OF w1(1)]) (use Suc.prems w1 c1 b d in \<open>auto simp: replaying_def set_padded_junk_def\<close>)
    then obtain w' ds j junk where l: "write_loop fuel L (n - int (length d)) w1 = Inr (0, w')" "wire_out w' = wire_out w1 @ ds"
      "map (\<lambda>d. int (length d)) ds = write_sizes (os_src w1) fuel (os_pos w1) (n - int (length d))"
      "concat ds @ pending w' = pending w1 @ junk" "w_cs w' = set_padded_junk j (w_cs w1)" by blast
    have "concat (d # ds) @ pending w' = pending w @ junk1 @ junk" using l(4) w1(3) by (metis append.assoc concat.simps(2))
    then show ?thesis using True o l w1 d
      by (intro exI [of _ w'] exI [of _ "d # ds"] exI [of _ j] exI [of _ "junk1 @ junk"]) (simp add: set_padded_junk_def)
  qed
qed

lemma write_due_replaying:
  fixes w :: "('c, 'z) world"
  assumes sh: "shaping L R w" and st: "replaying (w_cs w)" and k: "\<forall>i\<ge>os_pos w. kernel_serves (os_src w i)"
    and n: "0 \<le> w2w (w_cs w)" "w2w (w_cs w) \<le> int fuel" and cnt: "sent_packets w + nat (w2w (w_cs w)) < 2 ^ 32"
  shows "\<exists>w' ds junk. write_due fuel L w = Inr w' \<and> wire_out w' = wire_out w @ ds \<and>
    map (\<lambda>d. int (length d)) ds = write_sizes (os_src w) fuel (os_pos w) (w2w (w_cs w)) \<and>
    concat ds @ pending w' = pending w @ junk \<and> w2w (w_cs w') = 0 \<and> stmode (w_cs w') = 1"
proof -
  let ?w = "upd_cs (set_padded_junk 0) w"
  have "\<exists>w' ds j junk. write_loop fuel L (w2w (w_cs w)) ?w = Inr (0, w') \<and> wire_out w' = wire_out ?w @ ds \<and>
    map (\<lambda>d. int (length d)) ds = write_sizes (os_src ?w) fuel (os_pos ?w) (w2w (w_cs w)) \<and>
    concat ds @ pending w' = pending ?w @ junk \<and> w_cs w' = set_padded_junk j (w_cs ?w)"
    by (rule write_loop_replaying [of L R]) (use assms in \<open>auto simp: replaying_def set_padded_junk_def\<close>)
  then obtain w' ds j junk where "write_loop fuel L (w2w (w_cs w)) ?w = Inr (0, w')" "wire_out w' = wire_out w @ ds"
    "map (\<lambda>d. int (length d)) ds = write_sizes (os_src w) fuel (os_pos w) (w2w (w_cs w))"
    "concat ds @ pending w' = pending w @ junk" "w_cs w' = set_padded_junk j (w_cs ?w)" by auto
  moreover have "stmode (w_cs w) = 1" "sent_tend (w_cs w) \<noteq> 1" using st by (auto simp: replaying_def)
  ultimately show ?thesis
    by (intro exI [of _ "upd_cs (set_w2w 0) w'"] exI [of _ ds] exI [of _ junk])
      (simp add: write_due_def Let_def set_padded_junk_def set_w2w_def)
qed

text \<open>C11: The shape of the traffic of a replay. Before its time comes, \<open>packet_write_poll\<close> writes
  nothing. When it comes, and as long as the kernel has room and takes data, the call ends, and it
  puts exactly the number of bytes on the wire that the scheme asks for, in writes whose sizes are a
  function of that number and of the answers of the kernel: they do not depend on how much data the
  user has to send, or on any data. What was pending goes first and in order, and what is missing is
  junk.\<close>

theorem replay_traffic_shape:
  assumes "shaping L R w" and "replaying (w_cs w)" and "\<forall>i\<ge>os_pos w. kernel_serves (os_src w i)"
    and "0 \<le> w2w (w_cs w)" and "w2w (w_cs w) \<le> int fuel" and "sent_packets w + nat (w2w (w_cs w)) < 2 ^ 32"
  shows "if clk_src w (clk_pos w) < packet_time_to_write w
    then packet_write_poll fuel L w = Inr (w\<lparr>clk_pos := Suc (clk_pos w)\<rparr>)
    else \<exists>w' ds junk. packet_write_poll fuel L w = Inr w' \<and> wire_out w' = wire_out w @ ds \<and>
      map (\<lambda>d. int (length d)) ds = write_sizes (os_src w) fuel (os_pos w) (w2w (w_cs w)) \<and>
      int (length (concat ds)) = w2w (w_cs w) \<and>
      concat ds @ pending w' = pending w @ junk \<and> w2w (w_cs w') = 0"
proof (cases "clk_src w (clk_pos w) < packet_time_to_write w")
  case True
  then show ?thesis by (simp add: packet_write_poll_def read_clock_def)
next
  case False
  let ?w = "w\<lparr>clk_pos := Suc (clk_pos w)\<rparr>"
  have "\<exists>w' ds junk. write_due fuel L ?w = Inr w' \<and> wire_out w' = wire_out ?w @ ds \<and>
    map (\<lambda>d. int (length d)) ds = write_sizes (os_src ?w) fuel (os_pos ?w) (w2w (w_cs ?w)) \<and>
    concat ds @ pending w' = pending ?w @ junk \<and> w2w (w_cs w') = 0 \<and> stmode (w_cs w') = 1"
    by (rule write_due_replaying [of L R]) (use assms in \<open>auto simp: shaping_def can_send_def out_block_def\<close>)
  then obtain w' ds junk where a: "write_due fuel L ?w = Inr w'" "wire_out w' = wire_out w @ ds"
    "map (\<lambda>d. int (length d)) ds = write_sizes (os_src w) fuel (os_pos w) (w2w (w_cs w))"
    "concat ds @ pending w' = pending w @ junk" "w2w (w_cs w') = 0" "stmode (w_cs w') = 1" by auto
  have "int (length (concat ds)) = sum_list (map (\<lambda>d. int (length d)) ds)"
    by (induction ds) simp_all
  then have "int (length (concat ds)) = w2w (w_cs w)"
    using a(3) write_sizes_total [OF assms(3,4,5)] by simp
  with a show ?thesis using False
    by (intro if_not_P [THEN iffD2] exI [of _ "w'\<lparr>packet_time_to_write := clk_src w (clk_pos w) + word_of_int (packet_tau w')\<rparr>"]
          exI [of _ ds] exI [of _ junk])
      (auto simp: packet_write_poll_def read_clock_def update_time_def set_updated_time_def)
qed

section \<open>After the end of a transcript\<close>

text \<open>C15: After the end of a transcript the loop of \<open>packet_write_poll\<close> may never return: if bytes are
  still due, nothing is pending and no padding remains, each round writes nothing and leaves the
  amount as it was, whatever the kernel answers.\<close>

theorem write_poll_spins:
  assumes "stmode (w_cs w) = 1" and "sent_tend (w_cs w) = 1" and "trans_padded_remaining (w_cs w) \<le> 0"
    and "w2w (w_cs w) > 0" and "buffer_len (s_output w) = 0" and "packet_time_to_write w \<le> clk_src w (clk_pos w)"
  shows "packet_write_poll fuel L w = Inl NoReturn"
proof -
  have l: "write_loop fuel L n v = Inl NoReturn"
    if "free_running (w_cs v)" "trans_padded_remaining (w_cs v) \<le> 0" "buffer_len (s_output v) = 0" "n > 0" for n and v :: "('a, 'b) world"
    using that
  proof (induction fuel arbitrary: v)
    case (Suc fuel)
    then have "packet_write_poll_one_write L n v = Inr (n, v\<lparr>os_pos := Suc (os_pos v)\<rparr>)"
      by (simp add: packet_write_poll_one_write_def write_amount_def Let_def)
    with Suc show ?case by simp
  qed simp
  then show ?thesis using assms
    by (simp add: packet_write_poll_def read_clock_def write_due_def Let_def set_padded_junk_def free_running_def not_less)
qed

lemma write_sizes_none: "n \<le> 0 \<Longrightarrow> write_sizes src fuel k n = []"
  by (cases fuel) simp_all

definition demo_shaped :: "(nat, unit) world" where
  "demo_shaped = demo_world\<lparr>w_cs := cs_init\<lparr>stmode := 1, w2w := 100\<rparr>,
     os_src := \<lambda>_. \<lparr>os_outq = 16324, os_ret = 1000, os_cont = False, os_again = False\<rparr>\<rparr>"

lemma demo_shaped_fields:
  "clk_pos demo_shaped = 0" "packet_time_to_write demo_shaped = 0" "wire_out demo_shaped = []" "os_pos demo_shaped = 0"
  "s_output demo_shaped = buffer_init" "p_send demo_shaped = zero_counters"
  by (simp_all add: demo_shaped_def demo_world_def start_world_def session_state.extend_def world.fields_def alloc_session_state_def)

lemma demo_shaped_shaping: "shaping demo_libs (=) demo_shaped"
  using demo_streaming
  by (simp add: shaping_def demo_shaped_def streaming_def can_send_def out_block_def demo_cipher demo_keys_def
      evp_total_def demo_libs_def xor_evp_def)

theorem replay_traffic_shape_witness:
  "\<exists>w' d e. packet_write_poll 100 demo_libs demo_shaped = Inr w' \<and> wire_out w' = [d, e] \<and> length d = 60 \<and> length e = 40"
proof -
  have "write_sizes (os_src demo_shaped) (Suc (Suc n)) 0 100 = [60, 40]" for n
    by (simp add: demo_shaped_def write_size_def write_sizes_none)
  from this [of 98] have s: "write_sizes (os_src demo_shaped) 100 0 100 = [60, 40]" by simp
  have "replaying (w_cs demo_shaped)" "w2w (w_cs demo_shaped) = 100" "\<forall>i\<ge>os_pos demo_shaped. kernel_serves (os_src demo_shaped i)"
    by (simp_all add: demo_shaped_def replaying_def kernel_serves_def cs_init_def tau_state.extend_def tau_state.defs tau_state_init_def)
  with replay_traffic_shape [OF demo_shaped_shaping, of 100] s show ?thesis
    by (auto simp: demo_shaped_fields zero_counters_def map_eq_Cons_conv)
qed

theorem write_poll_spins_witness:
  "packet_write_poll 1000 demo_libs (demo_shaped\<lparr>w_cs := cs_init\<lparr>stmode := 1, sent_tend := 1, w2w := 100\<rparr>\<rparr>) = Inl NoReturn"
  by (rule write_poll_spins) (simp_all add: demo_shaped_fields buffer_len_def buffer_init_def cs_init_def tau_state.extend_def tau_state.defs)

end
