(* ===== verification/PacketQueue.thy ===== *)
theory PacketQueue
  imports PacketWire
begin

text \<open>
  The queue of a key exchange. Sending a packet neither looks at the queue nor at the flag
  \<open>rekeying\<close>, so that putting a packet off until after \<open>SSH2_MSG_NEWKEYS\<close> is the same as sending it
  then.
\<close>

section \<open>What sending does not look at\<close>

text \<open>A change \<open>u\<close> of the state that touches nothing the sending of a packet reads or writes: it may
  as well be made afterwards.\<close>

named_theorems blind \<open>operations that a hidden change passes through\<close>

locale hidden_update =
  fixes u :: "('c, 'z) world \<Rightarrow> ('c, 'z) world"
  assumes selectors [blind]:
    "newkeys_in (u w) = newkeys_in w" "newkeys_out (u w) = newkeys_out w" "p_send (u w) = p_send w"
    "p_read (u w) = p_read w" "current_keys_in (u w) = current_keys_in w"
    "current_keys_out (u w) = current_keys_out w" "after_authentication (u w) = after_authentication w"
    "zstate (u w) = zstate w" "compression_buffer (u w) = compression_buffer w"
    "compression_buffer_ready (u w) = compression_buffer_ready w" "send_context (u w) = send_context w"
    "receive_context (u w) = receive_context w" "outgoing_packet (u w) = outgoing_packet w"
    "s_output (u w) = s_output w" "extra_pad (u w) = extra_pad w" "rnd_src (u w) = rnd_src w"
    "rnd_pos (u w) = rnd_pos w" "rekey_limit (u w) = rekey_limit w" "datafellows (u w) = datafellows w"
    "server_side (u w) = server_side w" "packet_compression (u w) = packet_compression w"
  and updates [blind]:
    "(u w)\<lparr>newkeys_in := v0\<rparr> = u (w\<lparr>newkeys_in := v0\<rparr>)"
    "(u w)\<lparr>newkeys_out := v1\<rparr> = u (w\<lparr>newkeys_out := v1\<rparr>)"
    "(u w)\<lparr>p_send := v2\<rparr> = u (w\<lparr>p_send := v2\<rparr>)"
    "(u w)\<lparr>p_read := v3\<rparr> = u (w\<lparr>p_read := v3\<rparr>)"
    "(u w)\<lparr>current_keys_in := v4\<rparr> = u (w\<lparr>current_keys_in := v4\<rparr>)"
    "(u w)\<lparr>current_keys_out := v5\<rparr> = u (w\<lparr>current_keys_out := v5\<rparr>)"
    "(u w)\<lparr>after_authentication := v6\<rparr> = u (w\<lparr>after_authentication := v6\<rparr>)"
    "(u w)\<lparr>zstate := v7\<rparr> = u (w\<lparr>zstate := v7\<rparr>)"
    "(u w)\<lparr>compression_buffer := v8\<rparr> = u (w\<lparr>compression_buffer := v8\<rparr>)"
    "(u w)\<lparr>compression_buffer_ready := v9\<rparr> = u (w\<lparr>compression_buffer_ready := v9\<rparr>)"
    "(u w)\<lparr>send_context := v10\<rparr> = u (w\<lparr>send_context := v10\<rparr>)"
    "(u w)\<lparr>receive_context := v11\<rparr> = u (w\<lparr>receive_context := v11\<rparr>)"
    "(u w)\<lparr>outgoing_packet := v12\<rparr> = u (w\<lparr>outgoing_packet := v12\<rparr>)"
    "(u w)\<lparr>s_output := v13\<rparr> = u (w\<lparr>s_output := v13\<rparr>)"
    "(u w)\<lparr>extra_pad := v14\<rparr> = u (w\<lparr>extra_pad := v14\<rparr>)"
    "(u w)\<lparr>rnd_pos := v15\<rparr> = u (w\<lparr>rnd_pos := v15\<rparr>)"
    "(u w)\<lparr>max_blocks_in := v16\<rparr> = u (w\<lparr>max_blocks_in := v16\<rparr>)"
    "(u w)\<lparr>max_blocks_out := v17\<rparr> = u (w\<lparr>max_blocks_out := v17\<rparr>)"
begin

lemma enable_compression_blind [blind]:
  "enable_compression L mode (u w) = rbind (enable_compression L mode w) (\<lambda>w'. Inr (u w'))"
  by (cases mode) (auto simp: enable_compression_def Let_def packet_init_compression_def rbind_assoc blind)

lemma put_newkeys_blind [blind]: "put_newkeys mode nk (u w) = u (put_newkeys mode nk w)"
  by (cases mode) (simp_all add: put_newkeys_def blind)

lemma set_newkeys_blind [blind]: "set_newkeys L mode (u w) = rbind (set_newkeys L mode w) (\<lambda>w'. Inr (u w'))"
  by (cases mode)
    (auto simp: set_newkeys_def kex_get_newkeys_def Let_def rbind_assoc blind split: option.splits intro!: rbind_cong)

lemma delayed_one_blind [blind]:
  "delayed_one L mode keys (u w) = rbind (delayed_one L mode keys w) (\<lambda>w'. Inr (u w'))"
  by (auto simp: delayed_one_def rbind_assoc blind split: option.splits)

lemma delayed_compress_blind [blind]:
  "packet_enable_delayed_compress L (u w) = rbind (packet_enable_delayed_compress L w) (\<lambda>w'. Inr (u w'))"
  by (simp add: packet_enable_delayed_compress_def Let_def rbind_assoc blind)

lemma send2_compress_blind [blind]: "send2_compress L (u w) = rbind (send2_compress L w) (\<lambda>w'. Inr (u w'))"
  by (auto simp: send2_compress_def rbind_assoc blind intro!: rbind_cong)

lemma random_bytes_blind [blind]:
  "random_bytes n i r (u w) = (let (b, w') = random_bytes n i r w in (b, u w'))"
  by (induction n arbitrary: i r w) (auto simp: Let_def arc4random_def blind split: prod.splits)

lemma send2_padding_blind [blind]: "send2_padding p (u w) = (let (b, w') = send2_padding p w in (b, u w'))"
  by (simp add: send2_padding_def blind)

lemma send2_seal_blind [blind]:
  "send2_seal L m p (u w) = rbind (send2_seal L m p w) (\<lambda>(n, w'). Inr (n, u w'))"
  by (cases m) (auto simp: send2_seal_def Let_def rbind_assoc blind intro!: rbind_cong)

lemma send2_account_blind [blind]: "send2_account n bs (u w) = rbind (send2_account n bs w) (\<lambda>w'. Inr (u w'))"
  by (simp add: send2_account_def Let_def blind)

lemma wrapped_blind [blind]:
  "packet_send2_wrapped L (u w) = rbind (packet_send2_wrapped L w) (\<lambda>w'. Inr (u w'))"
  by (auto simp: packet_send2_wrapped_def Let_def rbind_assoc blind split: prod.splits intro!: rbind_cong)

lemma send1_compress_blind [blind]: "send1_compress L (u w) = rbind (send1_compress L w) (\<lambda>w'. Inr (u w'))"
  by (auto simp: send1_compress_def rbind_assoc blind intro!: rbind_cong)

lemma send1_blind [blind]: "packet_send1 L (u w) = rbind (packet_send1 L w) (\<lambda>w'. Inr (u w'))"
  by (auto simp: packet_send1_def Let_def rbind_assoc blind split: prod.splits intro!: rbind_cong)

end

text \<open>The queue and the flag of a key exchange are hidden in this sense, and so is the state of the
  padding scheme.\<close>

definition with_queue :: "bool \<Rightarrow> (byte \<times> buffer) list \<Rightarrow> ('c, 'z) world \<Rightarrow> ('c, 'z) world" where
  "with_queue k q w = w\<lparr>rekeying := k, outgoing := q\<rparr>"

definition with_cs :: "cs_state \<Rightarrow> ('c, 'z) world \<Rightarrow> ('c, 'z) world" where
  "with_cs s w = w\<lparr>w_cs := s\<rparr>"

interpretation queue: hidden_update "with_queue k q" for k q
  by unfold_locales (simp_all add: with_queue_def)

interpretation cs: hidden_update "with_cs s" for s
  by unfold_locales (simp_all add: with_cs_def)

lemma keeps_hidden:
  assumes blind: "\<And>s. f (with_cs s w) = rbind (f w) (\<lambda>w'. Inr (with_cs s w'))" and r: "f w = Inr w'"
  shows "w_cs w' = w_cs w"
proof -
  have "with_cs (w_cs w) w = w" by (simp add: with_cs_def)
  with blind [of "w_cs w"] r have "w' = with_cs (w_cs w) w'" by simp
  then have "w_cs w' = w_cs (with_cs (w_cs w) w')" by simp
  then show ?thesis by (simp add: with_cs_def)
qed

lemmas wrapped_cs = keeps_hidden [of "packet_send2_wrapped L" for L, OF cs.wrapped_blind]
lemmas send1_cs = keeps_hidden [of "packet_send1 L" for L, OF cs.send1_blind]

lemma send_queue_cs: "send_queue L q w = Inr w' \<Longrightarrow> w_cs w' = w_cs w"
  by (induction L q w rule: send_queue.induct) (auto dest!: wrapped_cs)

lemma send2_cs: "packet_send2 L w = Inr w' \<Longrightarrow> w_cs w' = w_cs w"
  by (auto simp: packet_send2_def Let_def split: if_splits dest!: wrapped_cs send_queue_cs)

lemma packet_send_cs: "packet_send L w = Inr w' \<Longrightarrow> w_cs w' = w_cs w"
  by (auto simp: packet_send_def split: if_splits dest: send1_cs send2_cs)

lemma upd_outgoing_cs: "upd_outgoing f w = Inr w' \<Longrightarrow> w_cs w' = w_cs w"
  by (auto simp: upd_outgoing_def)

lemma put_chars_cs: "put_chars cs w = Inr w' \<Longrightarrow> w_cs w' = w_cs w"
proof (induction cs arbitrary: w)
  case (Cons c cs)
  then show ?case by (auto simp: packet_put_char_def dest: upd_outgoing_cs)
qed simp

lemma random_chars_cs:
  "(case random_bytes n i r w of (b, w) \<Rightarrow> put_chars b w) = Inr w' \<Longrightarrow> w_cs w' = w_cs w"
  using random_bytes_frame [of n i r w] by (auto dest!: put_chars_cs)

lemma packet_start_cs: "packet_start t w = Inr w' \<Longrightarrow> w_cs w' = w_cs w"
  by (auto simp: packet_start_def Let_def dest!: upd_outgoing_cs)

lemma put_int_cs: "packet_put_int n w = Inr w' \<Longrightarrow> w_cs w' = w_cs w"
  by (auto simp: packet_put_int_def dest!: upd_outgoing_cs)

lemmas packet_put_cs = packet_start_cs put_int_cs put_chars_cs random_chars_cs

lemma send_ignore_cs: "packet_send_ignore n w = Inr w' \<Longrightarrow> w_cs w' = w_cs w"
  by (auto simp: packet_send_ignore_def Let_def dest!: packet_put_cs)

lemma send_notify_cs: "packet_send_notify n f w = Inr w' \<Longrightarrow> w_cs w' = w_cs w"
  by (cases "notify_type f") (auto simp: packet_send_notify_def Let_def dest!: packet_put_cs split: if_splits)

section \<open>Deferred packets\<close>

text \<open>A finished packet that is not one of the transport layer.\<close>

definition deferrable :: "buffer \<Rightarrow> bool" where
  "deferrable b = (case buffer_peek b 5 of Inr t \<Rightarrow> SSH2_MSG_TRANSPORT_MAX < t | Inl _ \<Rightarrow> False)"

fun send_all :: "('c, 'z) libs \<Rightarrow> buffer list \<Rightarrow> ('c, 'z) world \<Rightarrow> ('c, 'z) world result" where
  "send_all L [] w = Inr w"
| "send_all L (b # bs) w = rbind (packet_send2 L (w\<lparr>outgoing_packet := b\<rparr>)) (send_all L bs)"

abbreviation entry :: "buffer \<Rightarrow> byte \<times> buffer" where
  "entry b \<equiv> (case buffer_peek b 5 of Inr t \<Rightarrow> t | Inl _ \<Rightarrow> 0, b)"

lemma send_all_append: "send_all L (as @ bs) w = rbind (send_all L as w) (send_all L bs)"
  by (induction as arbitrary: w) (auto simp: rbind_assoc intro!: rbind_cong)

lemma deferrable_type:
  assumes "deferrable b"
  obtains t where "buffer_peek b 5 = Inr t" and "\<not> t \<le> SSH2_MSG_TRANSPORT_MAX" and "t \<noteq> SSH2_MSG_NEWKEYS" and "t \<noteq> SSH2_MSG_KEXINIT"
proof -
  from assms obtain t where t: "buffer_peek b 5 = Inr t" "\<not> t \<le> SSH2_MSG_TRANSPORT_MAX"
    by (auto simp: deferrable_def not_le split: sum.splits)
  moreover from t(2) have "t \<noteq> SSH2_MSG_NEWKEYS" "t \<noteq> SSH2_MSG_KEXINIT" by auto
  ultimately show ?thesis by (rule that)
qed

lemma send_while_rekeying:
  assumes "rekeying w" and "\<forall>b\<in>set bs. deferrable b"
  shows "send_all L bs w = Inr (if bs = [] then w else w\<lparr>outgoing := outgoing w @ map entry bs, outgoing_packet := buffer_init\<rparr>)"
  using assms
proof (induction bs arbitrary: w)
  case Nil
  then show ?case by simp
next
  case (Cons b bs)
  from Cons.prems(2) have "deferrable b" by simp
  then obtain t where "buffer_peek b 5 = Inr t" "\<not> t \<le> SSH2_MSG_TRANSPORT_MAX" by (rule deferrable_type)
  then have "packet_send2 L (w\<lparr>outgoing_packet := b\<rparr>) =
      Inr (w\<lparr>outgoing := outgoing w @ [entry b], outgoing_packet := buffer_init\<rparr>)"
    using Cons.prems(1) by (simp add: packet_send2_def)
  with Cons show ?case by simp
qed

lemma with_queue_fields [simp]: "rekeying (with_queue k q w) = k" "outgoing (with_queue k q w) = q"
  by (simp_all add: with_queue_def)

lemma send_queue_later:
  assumes "\<forall>b\<in>set bs. deferrable b" 
  shows "send_queue L (map entry bs) (with_queue False (map entry bs) w) = send_all L bs (with_queue False [] w)"
  using assms
proof (induction bs arbitrary: w)
  case Nil
  then show ?case by simp
next
  case (Cons b bs)
  from Cons.prems have "deferrable b" by simp
  then obtain t where t: "buffer_peek b 5 = Inr t" "\<not> t \<le> SSH2_MSG_TRANSPORT_MAX" "t \<noteq> SSH2_MSG_NEWKEYS" "t \<noteq> SSH2_MSG_KEXINIT"
    by (rule deferrable_type)
  let ?r = "packet_send2_wrapped L (w\<lparr>outgoing_packet := b\<rparr>)"
  have "(with_queue False (map entry (b # bs)) w)\<lparr>outgoing_packet := b, outgoing := map entry bs\<rparr> =
      with_queue False (map entry bs) (w\<lparr>outgoing_packet := b\<rparr>)"
    and "(with_queue False [] w)\<lparr>outgoing_packet := b\<rparr> = with_queue False [] (w\<lparr>outgoing_packet := b\<rparr>)"
    by (simp_all add: with_queue_def)
  moreover have "packet_send2 L (with_queue False [] (w\<lparr>outgoing_packet := b\<rparr>)) =
      packet_send2_wrapped L (with_queue False [] (w\<lparr>outgoing_packet := b\<rparr>))"
    using t by (simp add: packet_send2_def queue.selectors)
  ultimately show ?case
    using Cons by (simp add: t queue.wrapped_blind rbind_assoc)
qed

lemma send_newkeys:
  assumes "buffer_peek (outgoing_packet w) 5 = Inr SSH2_MSG_NEWKEYS"
  shows "packet_send2 L (with_queue True q w) =
    rbind (packet_send2_wrapped L w) (\<lambda>w'. send_queue L q (with_queue False q w'))"
proof -
  have f: "(with_queue True q x)\<lparr>rekeying := False\<rparr> = with_queue False q x" for x :: "('a, 'b) world"
    by (simp add: with_queue_def)
  show ?thesis using assms by (simp add: packet_send2_def blind rbind_assoc f)
qed

text \<open>C14: Packets of the connection that are sent during a key exchange wait until it is over. As
  long as the new keys are not in use, nothing of them is encrypted, counted or put into the output
  buffer; with \<open>SSH2_MSG_NEWKEYS\<close> they follow in the order in which they were sent, under the new
  keys, exactly as if the program had sent all of them after it, errors included.\<close>

theorem rekeying_defers_packets:
  assumes "rekeying w" and "outgoing w = []" and "\<forall>b\<in>set bs. deferrable b"
    and "buffer_peek nk 5 = Inr SSH2_MSG_NEWKEYS"
  shows "(\<exists>w1. send_all L bs w = Inr w1 \<and> s_output w1 = s_output w \<and> p_send w1 = p_send w \<and>
      send_context w1 = send_context w \<and> map snd (outgoing w1) = bs) \<and>
    send_all L (bs @ [nk]) w = send_all L (nk # bs) w"
proof
  let ?w = "w\<lparr>outgoing_packet := nk\<rparr>"
  show "\<exists>w1. send_all L bs w = Inr w1 \<and> s_output w1 = s_output w \<and> p_send w1 = p_send w \<and>
      send_context w1 = send_context w \<and> map snd (outgoing w1) = bs"
    using send_while_rekeying [OF assms(1,3), of L] assms(2) by (simp add: comp_def)
  have n: "send_all L [] = Inr" by (rule ext) simp
  have "with_queue True (map entry bs) ?w = (if bs = [] then w
      else w\<lparr>outgoing := outgoing w @ map entry bs, outgoing_packet := buffer_init\<rparr>)\<lparr>outgoing_packet := nk\<rparr>"
    using assms(1,2) by (simp add: with_queue_def)
  then have "send_all L (bs @ [nk]) w = packet_send2 L (with_queue True (map entry bs) ?w)"
    using send_while_rekeying [OF assms(1,3), of L] by (simp add: send_all_append n)
  also have "\<dots> = rbind (packet_send2_wrapped L ?w) (\<lambda>w'. send_all L bs (with_queue False [] w'))"
    using assms(3,4) by (simp add: send_newkeys send_queue_later)
  also have "\<dots> = rbind (packet_send2 L (with_queue True [] ?w)) (send_all L bs)"
    using assms(4) by (simp add: send_newkeys rbind_assoc)
  also have "with_queue True [] ?w = ?w" using assms(1,2) by (simp add: with_queue_def)
  finally show "send_all L (bs @ [nk]) w = send_all L (nk # bs) w" by simp
qed

definition demo_packet :: "byte \<Rightarrow> buffer" where
  "demo_packet t = \<lparr>b_buf = [0, 0, 0, 0, 0, t, 7, 8], b_alloc = 8, b_offset = 0, b_end = 8\<rparr>"

lemma demo_packet_type: "buffer_peek (demo_packet t) 5 = Inr t"
  by (simp add: buffer_peek_def buffer_ptr_def demo_packet_def)

theorem rekeying_defers_packets_witness:
  "(\<exists>w1. send_all demo_libs [demo_packet 94, demo_packet 98] (demo_world\<lparr>rekeying := True\<rparr>) = Inr w1 \<and>
      s_output w1 = buffer_init \<and> map snd (outgoing w1) = [demo_packet 94, demo_packet 98]) \<and>
   send_all demo_libs ([demo_packet 94, demo_packet 98] @ [demo_packet 21]) (demo_world\<lparr>rekeying := True\<rparr>) =
   send_all demo_libs [demo_packet 21, demo_packet 94, demo_packet 98] (demo_world\<lparr>rekeying := True\<rparr>)"
proof -
  have d: "\<forall>b\<in>set [demo_packet 94, demo_packet 98]. deferrable b" by (simp add: deferrable_def demo_packet_type)
  have o: "outgoing (demo_world\<lparr>rekeying := True\<rparr>) = []"
    by (simp add: demo_world_def start_world_def session_state.extend_def world.fields_def alloc_session_state_def)
  from rekeying_defers_packets [OF _ o d demo_packet_type, of demo_libs] show ?thesis by (auto simp del: send_all.simps)
qed

end
