(* ===== verification/Shaper.thy ===== *)
theory Shaper
  imports PacketShape PacketQueue
begin

text \<open>
  The part of the session loops that drives the padding scheme. \<open>clientloop.c\<close> and \<open>serverloop.c\<close>
  declare the same static variables and share most of their text: what the two have in common is
  here, with the lines of \<open>serverloop.c\<close>. The state of a loop is its \<open>shaper\<close> and the \<open>world\<close> of the
  packet layer.
\<close>

section \<open>State\<close>

record shaper =
  sh_tau :: int
  truly_idle :: bool
  time_to_write :: u64
  idle_start :: u64
  total_sent_bytes :: int
  target_sent_bytes :: int
  outbuf_remain :: int
  boundary :: int
  pre_rate :: int
  cur_total_realincoming_bytes :: int
  old_total_realincoming_bytes :: int
  new_total_realincoming_bytes :: int
  cur_total_realsent_bytes :: int
  old_total_realsent_bytes :: int
  new_total_realsent_bytes :: int
  old_ts :: u64
  new_ts :: u64
  cur_ts :: u64
  deadlock_start :: u64
  deadlock_now :: u64
  waiting_for_a_packet :: bool

abbreviation TARGET_QUEUE_LEN :: int where "TARGET_QUEUE_LEN \<equiv> 548"

definition shaper_init :: shaper where
  "shaper_init = \<lparr>sh_tau = 0, truly_idle = True, time_to_write = 0, idle_start = 0, total_sent_bytes = 0,
     target_sent_bytes = 0, outbuf_remain = 0, boundary = INITIAL_BOUNDARY, pre_rate = 0,
     cur_total_realincoming_bytes = 0, old_total_realincoming_bytes = 0, new_total_realincoming_bytes = 0,
     cur_total_realsent_bytes = 0, old_total_realsent_bytes = 0, new_total_realsent_bytes = 0,
     old_ts = 0, new_ts = 0, cur_ts = 0, deadlock_start = 0, deadlock_now = 0, waiting_for_a_packet = False\<rparr>"

definition output_buffer_len :: "('c, 'z) world \<Rightarrow> int" where
  "output_buffer_len w = int (unat (buffer_len (s_output w)))"

section \<open>Waking up\<close>

text \<open>An \<open>unload\<close> of the page restarts the pace, or gives a replay 2560 bytes of padding to come.\<close>

definition handle_unload :: "u64 \<Rightarrow> shaper \<times> ('c, 'z) world \<Rightarrow> shaper \<times> ('c, 'z) world" where
  "handle_unload now = (\<lambda>(sh, w).
     if unload_flag (w_cs w) = 1
     then let (sh, w) = (if stmode (w_cs w) = 0
                         then (sh\<lparr>time_to_write := now, sh_tau := INITIAL_TAU\<rparr>,
                               set_packet_tau INITIAL_TAU (set_updated_time now w))
                         else (sh, upd_cs (set_trans_padded_remaining 2560) w))
          in (sh, upd_cs unset_unload_flag w)
     else (sh, w))"

definition real_data :: "int \<Rightarrow> shaper \<Rightarrow> int" where
  "real_data outbuf_len sh = (if outbuf_len > outbuf_remain sh then outbuf_len - outbuf_remain sh else 0)"

definition should_send :: "u64 \<Rightarrow> bool \<Rightarrow> bool \<Rightarrow> shaper \<Rightarrow> cs_state \<Rightarrow> bool" where
  "should_send now writable no_item sh s =
     (if now < time_to_write sh then stmode s = 1 \<and> no_item \<and> writable else writable)"

section \<open>Waiting for the other side\<close>

text \<open>
  With fewer bytes received than the item expects, nothing is sent and the loop waits, for five
  seconds at most. Returns the amount to send. On the client a deadlock also ends the wait for the
  acknowledgement of the URL.
\<close>

definition wait_for_peer :: "bool \<Rightarrow> u64 \<Rightarrow> int \<Rightarrow> shaper \<times> ('c, 'z) world \<Rightarrow> int \<times> shaper \<times> ('c, 'z) world" where
  "wait_for_peer is_client expected cursize = (\<lambda>(sh, w).
     let cur_received = received_sofar (w_cs w) in
     if expected > cur_received
     then let (dnow, w) = read_clock w;
              start = (if deadlock_start sh = 0 then dnow else deadlock_start sh)
          in if dnow \<ge> start + 5000000
             then (cursize, sh\<lparr>waiting_for_a_packet := False, deadlock_start := 0, deadlock_now := 0\<rparr>,
                   if is_client then upd_cs unset_second_client w else w)
             else (0, sh\<lparr>waiting_for_a_packet := True, deadlock_start := start, deadlock_now := dnow\<rparr>, set_packet_tau 0 w)
     else (cursize, sh\<lparr>waiting_for_a_packet := False, deadlock_start := 0, deadlock_now := 0\<rparr>,
           if expected > 0 then upd_cs (set_received_sofar (cur_received - expected)) w else w))"

section \<open>The end of a transcript\<close>

definition reset_totals :: "u64 \<Rightarrow> shaper \<Rightarrow> shaper" where
  "reset_totals now sh = sh\<lparr>total_sent_bytes := 0, old_total_realincoming_bytes := 0, new_total_realincoming_bytes := 0,
     cur_total_realincoming_bytes := 0, old_total_realsent_bytes := 0, new_total_realsent_bytes := 0,
     cur_total_realsent_bytes := 0, old_ts := now, new_ts := now, cur_ts := now\<rparr>"

definition to_csbuflo :: "u64 \<Rightarrow> shaper \<times> ('c, 'z) world \<Rightarrow> shaper \<times> ('c, 'z) world" where
  "to_csbuflo now = (\<lambda>(sh, w).
     ((reset_totals now sh)\<lparr>sh_tau := INITIAL_TAU, boundary := INITIAL_BOUNDARY, idle_start := now\<rparr>,
      set_packet_tau INITIAL_TAU (upd_cs (set_stmode 0) w)))"

text \<open>\<open>tend\<close> is sent once everything due is out. When the other side has ended as well, the loop goes
  back to normal after the page was loaded or two idle seconds, and to constant-rate padding when
  there is data.\<close>

definition transcript_over :: "(('c, 'z) world \<Rightarrow> ('c, 'z) world result) \<Rightarrow> ('c, 'z) libs \<Rightarrow> u64 \<Rightarrow> int \<Rightarrow>
    shaper \<times> ('c, 'z) world \<Rightarrow> (shaper \<times> ('c, 'z) world) result" where
  "transcript_over to_normal L now outbuf_len = (\<lambda>(sh, w).
     let sh = sh\<lparr>waiting_for_a_packet := False\<rparr>;
         w = set_packet_tau (10 * INITIAL_TAU) w;
         local_onload_flag = onload_flag (w_cs w)
     in rbind (if sent_tend (w_cs w) = 0 \<and> w2w (w_cs w) = 0
               then rbind (packet_send_notify 4 CHR ''t'' w) (\<lambda>w.
                    rbind (packet_send L w) (\<lambda>w. Inr (upd_cs set_sent_tend w)))
               else Inr w) (\<lambda>w.
        if transcript_end (w_cs w) = 1 \<and> w2w (w_cs w) = 0
        then if local_onload_flag \<noteq> 1
             then if st_idle_start (w_cs w) = 0 then Inr (sh, upd_cs (set_st_idle_start now) w)
                  else if outbuf_len > 0 then Inr (to_csbuflo now (sh, w))
                  else if now - st_idle_start (w_cs w) \<ge> 2000000
                  then rbind (to_normal w) (\<lambda>w. Inr (sh, w))
                  else Inr (sh, w)
             else rbind (to_normal w) (\<lambda>w. Inr (sh, w))
        else Inr (sh, w)))"

text \<open>The server tells the client that it goes back to normal.\<close>

definition server_to_normal :: "('c, 'z) libs \<Rightarrow> ('c, 'z) world \<Rightarrow> ('c, 'z) world result" where
  "server_to_normal L w =
     rbind (packet_send_notify 4 CHR ''n'' w) (\<lambda>w.
     rbind (packet_send L w) (\<lambda>w. Inr (upd_cs (set_stmode (-1)) w)))"

section \<open>The amount of padding\<close>

text \<open>
  \<open>(long)pow(2, ceil(log2(x)))\<close>: for a positive \<open>x\<close> (below \<open>2 ^ 47\<close>, where \<open>log2\<close> of a \<open>double\<close> is still
  fine enough) the smallest power of two from \<open>x\<close> on, for 0 the conversion of \<open>pow(2, -inf) = 0\<close>, for a
  negative one the conversion of a NaN, which is undefined.
\<close>

definition pow_ceil_log2 :: "int \<Rightarrow> int result" where
  "pow_ceil_log2 x =
     (if x < 0 then Inl (MemFault ''conversion of NaN'') else if x = 0 then Inr 0
      else let p = int (pow2_floor (nat x)) in Inr (if p = x then p else 2 * p))"

text \<open>The next multiple of that power: the number of bytes after which the loop may stop. The quotient
  is converted to \<open>int\<close>, which is undefined for one that does not fit.\<close>

definition set_target :: "int \<Rightarrow> shaper \<times> ('c, 'z) world \<Rightarrow> (shaper \<times> ('c, 'z) world) result" where
  "set_target outbuf_len = (\<lambda>(sh, w).
     if total_sent_bytes sh = 0 then Inr (sh\<lparr>target_sent_bytes := 0\<rparr>, upd_cs (set_w2w 0) w)
     else rbind (pow_ceil_log2 (cur_total_realincoming_bytes sh)) (\<lambda>base.
       let base = (if base = 0 then 2 else base);
           q = - (- total_sent_bytes sh div base);
           target = base * q
       in if \<bar>q\<bar> > INT_MAX then Inl (MemFault ''conversion to int'')
          else Inr (sh\<lparr>target_sent_bytes := target\<rparr>,
                    if target \<ge> total_sent_bytes sh \<and> target - total_sent_bytes sh < TARGET_QUEUE_LEN
                    then upd_cs (set_w2w outbuf_len) w else w)))"

definition near_target :: "shaper \<Rightarrow> bool" where
  "near_target sh \<longleftrightarrow> target_sent_bytes sh + TARGET_QUEUE_LEN > total_sent_bytes sh \<and>
     total_sent_bytes sh + TARGET_QUEUE_LEN > target_sent_bytes sh"

definition clear_gap :: "cs_state \<Rightarrow> cs_state" where
  "clear_gap s = set_ts_end 0 (set_ts_start 0 (set_tend_set 0 (set_tstart_set 0 s)))"

text \<open>Constant-rate padding: how much is due, and when it is over; \<open>leave\<close> is the way out of the loop.\<close>

definition idle_step :: "(shaper \<times> ('c, 'z) world \<Rightarrow> (shaper \<times> ('c, 'z) world) result) \<Rightarrow> u64 \<Rightarrow> int \<Rightarrow>
    shaper \<times> ('c, 'z) world \<Rightarrow> (shaper \<times> ('c, 'z) world) result" where
  "idle_step leave now outbuf_len = (\<lambda>(sh, w).
     if stmode (w_cs w) \<noteq> 0 then Inr (sh, w)
     else let w = upd_cs (set_w2w TARGET_QUEUE_LEN) w;
              (cidle, start) = channel_idle now outbuf_len (outbuf_remain sh) (idle_start sh) (w_cs w);
              sh = sh\<lparr>idle_start := start\<rparr>
          in if cidle then rbind (leave (sh, w)) (set_target outbuf_len) else Inr (sh, w))"

definition at_rest :: "u64 \<Rightarrow> shaper \<Rightarrow> shaper" where
  "at_rest now sh = (reset_totals now sh)\<lparr>pre_rate := 0, truly_idle := True, boundary := INITIAL_BOUNDARY, sh_tau := INITIAL_TAU\<rparr>"

definition server_leave :: "('c, 'z) libs \<Rightarrow> u64 \<Rightarrow> int \<Rightarrow> shaper \<times> ('c, 'z) world \<Rightarrow> (shaper \<times> ('c, 'z) world) result" where
  "server_leave L now outbuf_len = (\<lambda>(sh, w).
     if outbuf_len \<le> 32 \<and> near_target sh
     then let w = upd_cs (set_w2w TARGET_QUEUE_LEN \<circ> unset_paddingdone_flag) w;
              w = upd_cs clear_gap (set_packet_tau INITIAL_TAU w)
          in rbind (server_to_normal L w) (\<lambda>w. Inr (at_rest now sh, w))
     else Inr (sh, w))"

definition server_idle :: "('c, 'z) libs \<Rightarrow> u64 \<Rightarrow> int \<Rightarrow> shaper \<times> ('c, 'z) world \<Rightarrow> (shaper \<times> ('c, 'z) world) result" where
  "server_idle L now outbuf_len = idle_step (server_leave L now outbuf_len) now outbuf_len"

section \<open>Writing and learning\<close>

text \<open>The gap between a packet and its answer gives samples of the interval; \<open>is_client\<close> selects the
  default of \<open>update_tau_interval\<close>.\<close>

definition note_gap :: "bool \<Rightarrow> int \<Rightarrow> int \<Rightarrow> shaper \<times> ('c, 'z) world \<Rightarrow> (shaper \<times> ('c, 'z) world) result" where
  "note_gap is_client sent junk = (\<lambda>(sh, w).
     let s = w_cs w in
     rbind (if tstart_set s \<noteq> 0 \<and> tend_set s \<noteq> 0 \<and> ts_start s < ts_end s
            then rbind (update_tau_interval (ts_start s) (ts_end s) (cur_total_realsent_bytes sh) is_client s) (\<lambda>s.
                   Inr (sh\<lparr>cur_total_realsent_bytes := 0\<rparr>, set_tend_set 0 (set_tstart_set 0 s)))
            else Inr (sh, s)) (\<lambda>(sh, s).
       let s = (if tstart_set s = 0 then set_ts_start (cur_ts sh) (set_tstart_set 1 s) else s);
           sh = (if sent > junk then sh\<lparr>cur_total_realsent_bytes := cur_total_realsent_bytes sh + (sent - junk)\<rparr> else sh);
           (sh, s) = (if cur_total_realsent_bytes sh \<ge> TARGET_QUEUE_LEN
                      then (sh\<lparr>cur_total_realsent_bytes := cur_total_realsent_bytes sh - TARGET_QUEUE_LEN\<rparr>,
                            insert_time (cur_ts sh) s)
                      else (sh, s))
       in Inr (sh, w\<lparr>w_cs := s\<rparr>)))"

definition learn :: "bool \<Rightarrow> int \<Rightarrow> int \<Rightarrow> int \<Rightarrow> shaper \<times> ('c, 'z) world \<Rightarrow> (shaper \<times> ('c, 'z) world) result" where
  "learn is_client outbuf_len sent junk = (\<lambda>(sh, w).
     rbind (if stmode (w_cs w) = 0 \<and> outbuf_len \<noteq> 0 then note_gap is_client sent junk (sh, w) else Inr (sh, w)) (\<lambda>(sh, w).
       if stmode (w_cs w) = 0
       then rbind (update_tau_median (sh_tau sh) (boundary sh) (total_sent_bytes sh) (w_cs w)) (\<lambda>(tau, bound, s).
              Inr (sh\<lparr>sh_tau := tau, boundary := bound\<rparr>, set_packet_tau tau (w\<lparr>w_cs := s\<rparr>)))
       else Inr (sh, w)))"

definition write_and_account :: "nat \<Rightarrow> ('c, 'z) libs \<Rightarrow> bool \<Rightarrow> int \<Rightarrow> int \<Rightarrow> shaper \<times> ('c, 'z) world \<Rightarrow>
    (shaper \<times> ('c, 'z) world) result" where
  "write_and_account fuel L is_client outbuf_len incoming = (\<lambda>(sh, w).
     let before = output_buffer_len w in
     rbind (packet_write_poll fuel L w) (\<lambda>w.
     let junk = padded_junk (w_cs w);
         remain = output_buffer_len w;
         sent = before + junk - remain;
         (now, w) = read_clock w
     in learn is_client outbuf_len sent junk
          (sh\<lparr>time_to_write := packet_time_to_write w, outbuf_remain := remain,
              total_sent_bytes := total_sent_bytes sh + sent,
              cur_total_realincoming_bytes := cur_total_realincoming_bytes sh + incoming, cur_ts := now\<rparr>, w)))"

section \<open>The server\<close>

text \<open>An item of the transcript; the first one also carries what is already waiting.\<close>

definition server_item :: "stpair \<Rightarrow> int \<Rightarrow> shaper \<times> ('c, 'z) world \<Rightarrow> shaper \<times> ('c, 'z) world" where
  "server_item item outbuf_len = (\<lambda>(sh, w).
     let cursize = st_size item;
         w = set_packet_tau (st_time item) w;
         (cursize, w) = (if first_client (w_cs w) = 1
                         then (if outbuf_len > cursize then outbuf_len else cursize, upd_cs unset_first_client w)
                         else (cursize, w));
         (cursize, sh, w) = wait_for_peer False (st_expected item) cursize (sh, w)
     in (sh, upd_cs (\<lambda>s. set_w2w (w2w s + cursize) s) w))"

text \<open>The item to send, if any: once the page is loaded, each item may be the last one. Returns the
  item and whether to send it.\<close>

definition pick_item :: "bool \<Rightarrow> shaper \<Rightarrow> ('c, 'z) world \<Rightarrow> (stpair option \<times> bool \<times> ('c, 'z) world) result" where
  "pick_item is_pos sh w =
     (let onload = onload_flag (w_cs w) in
      rbind (if waiting_for_a_packet sh then Inr (w_cs w) else move_to_next_st_item is_pos (w_cs w)) (\<lambda>s.
      let w = w\<lparr>w_cs := s\<rparr> in
      if cur_item s = None \<or> onload = 0 then Inr (cur_item s, cur_item s \<noteq> None, w)
      else let (r, w) = arc4random w; (jump, s') = should_jump_trans_end (r mod 100) s
           in Inr (cur_item s, \<not> jump, w\<lparr>w_cs := s'\<rparr>)))"

definition server_replay :: "('c, 'z) libs \<Rightarrow> u64 \<Rightarrow> int \<Rightarrow> shaper \<times> ('c, 'z) world \<Rightarrow> (shaper \<times> ('c, 'z) world) result" where
  "server_replay L now outbuf_len = (\<lambda>(sh, w).
     if stmode (w_cs w) \<noteq> 1 then Inr (sh, w)
     else rbind (pick_item True sh w) (\<lambda>(item, go, w).
       case (item, go) of
         (Some item, True) \<Rightarrow> Inr (server_item item outbuf_len (sh, w))
       | _ \<Rightarrow> transcript_over (server_to_normal L) L now outbuf_len (sh, w)))"

text \<open>\<open>process_output\<close> behind the data for the program. Its variable \<open>item\<close> is fresh in every call, so
  that there is never an item when the call decides whether to send.\<close>

definition server_prepare :: "('c, 'z) libs \<Rightarrow> bool \<Rightarrow> shaper \<times> ('c, 'z) world \<Rightarrow>
    (bool \<times> int \<times> int \<times> shaper \<times> ('c, 'z) world) result" where
  "server_prepare L writable = (\<lambda>(sh, w).
     let (now, w) = read_clock w;
         (sh, w) = handle_unload now (sh, w);
         outbuf_len = output_buffer_len w;
         incoming = real_data outbuf_len sh
     in if should_send now writable True sh (w_cs w)
        then rbind (server_replay L now outbuf_len (sh, w)) (\<lambda>(sh, w).
             rbind (server_idle L now outbuf_len (sh\<lparr>truly_idle := False\<rparr>, w)) (\<lambda>(sh, w).
               Inr (True, outbuf_len, incoming, sh, w)))
        else Inr (False, outbuf_len, incoming, if outbuf_len > outbuf_remain sh then sh\<lparr>truly_idle := False\<rparr> else sh, w))"

definition server_output :: "nat \<Rightarrow> ('c, 'z) libs \<Rightarrow> bool \<Rightarrow> shaper \<times> ('c, 'z) world \<Rightarrow> (shaper \<times> ('c, 'z) world) result" where
  "server_output fuel L writable st =
     rbind (server_prepare L writable st) (\<lambda>(send, outbuf_len, incoming, sh, w).
       if send then write_and_account fuel L False outbuf_len incoming (sh, w) else Inr (sh, w))"

text \<open>
  Which wait \<open>select\<close> is given: whether to poll the connection for writing, and the timeout. In normal
  mode it is polled when there is data, or padding left to send after a transcript; \<open>wait\<close> is the
  timeout of the loop itself.
\<close>

definition server_poll_write :: "(u64 \<times> u64) option \<Rightarrow> shaper \<Rightarrow> ('c, 'z) world \<Rightarrow> bool \<times> (u64 \<times> u64) option \<times> ('c, 'z) world" where
  "server_poll_write wait sh w =
     (let s = w_cs w in
      if stmode s = -1
      then (packet_have_data_to_write w \<or> sent_tend s = 1 \<and> trans_padded_remaining s > 0, wait, w)
      else let (now, w) = read_clock w; (set, t) = should_set_writefd now (truly_idle sh) (time_to_write sh) s
           in (set, t, w))"

section \<open>The client\<close>

text \<open>
  An item of the transcript of the client, whose sizes are negative. After the first item the client
  waits for the acknowledgement of the URL: until then it expects more bytes than can come.
\<close>

definition client_turn :: "stpair \<Rightarrow> int \<Rightarrow> cs_state \<Rightarrow> int \<times> u64 \<times> cs_state" where
  "client_turn item outbuf_len s =
     (let cursize = 0 - st_size item; expected = st_expected item in
      if first_client s = 1
      then (if outbuf_len > cursize then outbuf_len else cursize, expected, set_second_client (unset_first_client s))
      else if second_client s = 1
      then if urlack s = 1 then (cursize, expected, unset_second_client (unset_urlack s))
           else (cursize, word_of_int INT_MAX, s)
      else (cursize, expected, s))"

definition client_item :: "stpair \<Rightarrow> int \<Rightarrow> shaper \<times> ('c, 'z) world \<Rightarrow> shaper \<times> ('c, 'z) world" where
  "client_item item outbuf_len = (\<lambda>(sh, w).
     let w = set_packet_tau (st_time item) w;
         (cursize, expected, s) = client_turn item outbuf_len (w_cs w);
         (cursize, sh, w) = wait_for_peer True expected cursize (sh, w\<lparr>w_cs := s\<rparr>)
     in (sh, upd_cs (\<lambda>s. set_w2w (w2w s + cursize) s) w))"

text \<open>Removing the lock file is not modelled.\<close>

definition client_to_normal :: "('c, 'z) world \<Rightarrow> ('c, 'z) world" where
  "client_to_normal w =
     upd_cs (\<lambda>s. set_stmode (-1) (if server_entering_normal s = 1 then unset_server_entering_normal s else s)) w"

text \<open>The variable \<open>item\<close> of the client lives as long as its loop.\<close>

definition client_replay :: "('c, 'z) libs \<Rightarrow> u64 \<Rightarrow> int \<Rightarrow> stpair option \<times> shaper \<times> ('c, 'z) world \<Rightarrow>
    (stpair option \<times> shaper \<times> ('c, 'z) world) result" where
  "client_replay L now outbuf_len = (\<lambda>(old, sh, w).
     if stmode (w_cs w) \<noteq> 1 then Inr (old, sh, w)
     else rbind (pick_item False sh w) (\<lambda>(item, go, w).
       rbind (case (item, go) of
                (Some item, True) \<Rightarrow> Inr (client_item item outbuf_len (sh, w))
              | _ \<Rightarrow> transcript_over (\<lambda>w. Inr (client_to_normal w)) L now outbuf_len (sh, w)) (\<lambda>(sh, w).
         Inr (item, sh, w))))"

definition client_leave :: "('c, 'z) libs \<Rightarrow> u64 \<Rightarrow> int \<Rightarrow> shaper \<times> ('c, 'z) world \<Rightarrow> (shaper \<times> ('c, 'z) world) result" where
  "client_leave L now outbuf_len = (\<lambda>(sh, w).
     if outbuf_len = 0 \<and> near_target sh
     then rbind (packet_send_notify 4 CHR ''p'' w) (\<lambda>w.
          rbind (packet_send L w) (\<lambda>w.
            Inr (at_rest now sh, client_to_normal (upd_cs clear_gap (set_packet_tau INITIAL_TAU w)))))
     else Inr (sh, w))"

definition client_idle :: "('c, 'z) libs \<Rightarrow> u64 \<Rightarrow> int \<Rightarrow> shaper \<times> ('c, 'z) world \<Rightarrow> (shaper \<times> ('c, 'z) world) result" where
  "client_idle L now outbuf_len = idle_step (client_leave L now outbuf_len) now outbuf_len"

definition client_prepare :: "('c, 'z) libs \<Rightarrow> bool \<Rightarrow> stpair option \<times> shaper \<times> ('c, 'z) world \<Rightarrow>
    (bool \<times> int \<times> int \<times> stpair option \<times> shaper \<times> ('c, 'z) world) result" where
  "client_prepare L writable = (\<lambda>(item, sh, w).
     let (now, w) = read_clock w;
         (sh, w) = handle_unload now (sh, w);
         outbuf_len = output_buffer_len w;
         incoming = real_data outbuf_len sh
     in if should_send now writable (item = None) sh (w_cs w)
        then rbind (client_replay L now outbuf_len (item, sh, w)) (\<lambda>(item, sh, w).
             rbind (client_idle L now outbuf_len (sh\<lparr>truly_idle := False\<rparr>, w)) (\<lambda>(sh, w).
               Inr (True, outbuf_len, incoming, item, sh, w)))
        else Inr (False, outbuf_len, incoming, item, if outbuf_len > outbuf_remain sh then sh\<lparr>truly_idle := False\<rparr> else sh, w))"

definition client_output :: "nat \<Rightarrow> ('c, 'z) libs \<Rightarrow> bool \<Rightarrow> stpair option \<times> shaper \<times> ('c, 'z) world \<Rightarrow>
    (stpair option \<times> shaper \<times> ('c, 'z) world) result" where
  "client_output fuel L writable st =
     rbind (client_prepare L writable st) (\<lambda>(send, outbuf_len, incoming, item, sh, w).
       if send then rbind (write_and_account fuel L True outbuf_len incoming (sh, w)) (\<lambda>(sh, w). Inr (item, sh, w))
       else Inr (item, sh, w))"

section \<open>The scheme during a write\<close>

text \<open>A write counts junk and remaining padding and leaves the rest of the scheme alone.\<close>

definition same_scheme :: "cs_state \<Rightarrow> cs_state \<Rightarrow> bool" where
  "same_scheme s s' \<longleftrightarrow> s'\<lparr>padded_junk := 0, trans_padded_remaining := 0\<rparr> = s\<lparr>padded_junk := 0, trans_padded_remaining := 0\<rparr>"

lemma same_scheme_refl [simp]: "same_scheme s s"
  by (simp add: same_scheme_def)

lemma same_scheme_trans: "same_scheme s t \<Longrightarrow> same_scheme t u \<Longrightarrow> same_scheme s u"
  by (simp add: same_scheme_def)

lemma same_scheme_steps [simp]: "same_scheme s (set_padded_junk j s)" "same_scheme s (decrease_trans_padded_remaining n s)"
  by (simp_all add: same_scheme_def set_padded_junk_def decrease_trans_padded_remaining_def)

lemma same_schemeD:
  assumes "same_scheme s s'"
  shows "stmode s' = stmode s" "onload_flag s' = onload_flag s" "w2w s' = w2w s" "cluster_id s' = cluster_id s"
    "transcript_end s' = transcript_end s" "sent_tend s' = sent_tend s" "st_index s' = st_index s" "cur_item s' = cur_item s"
    "clusters s' = clusters s"
  using assms unfolding same_scheme_def by (cases s, cases s', simp)+

lemma pad_loop_cs: "pad_loop fuel L a w = Inr w' \<Longrightarrow> w_cs w' = w_cs w"
proof (induction fuel arbitrary: w)
  case (Suc fuel)
  then show ?case by (auto split: if_splits dest!: send_ignore_cs packet_send_cs)
qed simp

lemma pad_output_cs: "pad_output L a w = Inr w' \<Longrightarrow> same_scheme (w_cs w) (w_cs w')"
  by (auto simp: pad_output_def Let_def simp del: pad_loop.simps dest!: send_ignore_cs packet_send_cs pad_loop_cs)

lemma prepare_output_cs: "prepare_output L a w = Inr (n, w') \<Longrightarrow> same_scheme (w_cs w) (w_cs w')"
  by (auto simp: prepare_output_def split: if_splits dest!: pad_output_cs)

lemma flush_output_cs:
  assumes "flush_output a n len w = Inr (m, w')"
  shows "same_scheme (w_cs w) (w_cs w')"
proof (cases "min (os_ret a) len = -1 \<or> min (os_ret a) len = 0 \<and> \<not> os_cont a")
  case True
  then have "w' = w" using assms by (auto simp: flush_output_def split: if_splits)
  then show ?thesis by simp
next
  case False
  define v where "v out = w\<lparr>wire_out := wire_out w @ [take (nat (min (os_ret a) len)) (buffer_ptr (s_output w))], s_output := out\<rparr>" for out
  have v: "w_cs (v out) = w_cs w" for out by (simp add: v_def)
  from False assms obtain out where "w' = (if free_running (w_cs (v out)) \<and> trans_padded_remaining (w_cs (v out)) > 0
      then upd_cs (decrease_trans_padded_remaining (min (os_ret a) len)) (v out) else v out)"
    unfolding flush_output_def Let_def v_def [symmetric] by (simp only: de_Morgan_disj if_False rbind_eq_Inr sum.inject prod.inject) blast
  then show ?thesis by (cases "free_running (w_cs w) \<and> trans_padded_remaining (w_cs w) > 0") (simp_all add: v)
qed

lemma one_write_cs: "packet_write_poll_one_write L n w = Inr (m, w') \<Longrightarrow> same_scheme (w_cs w) (w_cs w')"
  by (auto simp: packet_write_poll_one_write_def Let_def split: if_splits dest!: prepare_output_cs flush_output_cs
      intro: same_scheme_trans)

lemma write_loop_cs: "write_loop fuel L n w = Inr (m, w') \<Longrightarrow> same_scheme (w_cs w) (w_cs w')"
proof (induction fuel arbitrary: n w)
  case (Suc fuel)
  then show ?case by (auto split: if_splits dest!: one_write_cs intro: same_scheme_trans)
qed (simp split: if_splits)

text \<open>In a replay the amount due is 0 after a write.\<close>

lemma junk_fields [simp]: "stmode (set_padded_junk j s) = stmode s" "sent_tend (set_padded_junk j s) = sent_tend s"
  by (simp_all add: set_padded_junk_def)

lemma write_due_cs:
  assumes "write_due fuel L w = Inr w'"
  shows "\<exists>s. same_scheme (w_cs w) s \<and> w_cs w' = (if stmode (w_cs w) = 1 then set_w2w 0 s else s)"
proof (cases "stmode (w_cs w) = 1")
  case True
  let ?w = "upd_cs (set_padded_junk 0) w"
  from True assms obtain n v m u where
    v: "(if w2w (w_cs w) = 0 \<and> sent_tend (w_cs ?w) = 1 then packet_write_poll_one_write L (w2w (w_cs w)) ?w
        else Inr (w2w (w_cs w), ?w)) = Inr (n, v)"
    and u: "write_loop fuel L n v = Inr (m, u)" and w': "w' = upd_cs (set_w2w 0) u"
    by (auto simp: write_due_def Let_def simp del: write_loop.simps)
  have "same_scheme (w_cs ?w) (w_cs v)" using v by (auto split: if_splits dest: one_write_cs)
  then have "same_scheme (w_cs w) (w_cs u)"
    using same_scheme_trans [OF same_scheme_trans [OF _ _] write_loop_cs [OF u], of "w_cs w" "w_cs ?w"] by simp
  then show ?thesis using True w' by auto
next
  case False
  then obtain n where o: "packet_write_poll_one_write L n (upd_cs (set_padded_junk 0) w) = Inr (fst (n, w'), w') \<or>
      (\<exists>m. packet_write_poll_one_write L n (upd_cs (set_padded_junk 0) w) = Inr (m, w'))"
    using assms by (auto simp: write_due_def Let_def)
  then have "same_scheme (w_cs w) (w_cs w')"
    using same_scheme_trans [OF same_scheme_steps(1) [of "w_cs w" 0]] by (auto dest!: one_write_cs)
  then show ?thesis using False by auto
qed

lemma update_time_cs: "w_cs (snd (update_time now tau w)) = w_cs w"
  by (simp add: update_time_def arc4random_def Let_def)

lemma write_poll_cs:
  assumes "packet_write_poll fuel L w = Inr w'"
  shows "\<exists>s. same_scheme (w_cs w) s \<and> (w_cs w' = s \<or> stmode (w_cs w) = 1 \<and> w_cs w' = set_w2w 0 s)"
proof (cases "clk_src w (clk_pos w) < packet_time_to_write w")
  case True
  with assms have "w_cs w' = w_cs w" by (auto simp: packet_write_poll_def read_clock_def)
  then show ?thesis by (intro exI [of _ "w_cs w"]) simp
next
  case False
  with assms obtain v where v: "write_due fuel L (w\<lparr>clk_pos := Suc (clk_pos w)\<rparr>) = Inr v" and "w' = (case update_time (clk_src w (clk_pos w)) (if stmode (w_cs v) = - 1 then 10 * INITIAL_TAU else packet_tau v) v of
      (t, u) \<Rightarrow> set_updated_time t u)"
    by (auto simp: packet_write_poll_def read_clock_def Let_def case_prod_beta)
  then have "w_cs w' = w_cs v" by (simp add: update_time_cs set_updated_time_def case_prod_beta)
  with write_due_cs [OF v] show ?thesis by auto
qed

section \<open>The end of a transcript is announced once\<close>

text \<open>
  While a transcript is replayed, the end is announced only when nothing is due and no item is left,
  and the loop waits for the other side only with an item at hand. The ids of the clusters are natural
  numbers, -1 standing for no cluster.
\<close>

definition ids_ok :: "hashmap option \<Rightarrow> bool" where
  "ids_ok m \<longleftrightarrow> (\<forall>u v. hm_lookup m (Some u) = Inr v \<longrightarrow> -1 \<le> v)"

definition tend_inv :: "shaper \<Rightarrow> cs_state \<Rightarrow> bool" where
  "tend_inv sh s \<longleftrightarrow> (waiting_for_a_packet sh \<longrightarrow> cur_item s \<noteq> None) \<and> onload_flag s \<in> {0, 1} \<and> 0 \<le> w2w s \<and>
     (stmode s = 1 \<longrightarrow> 0 \<le> cluster_id s) \<and>
     (stmode s = 1 \<and> sent_tend s = 1 \<longrightarrow> w2w s = 0 \<and> cur_item s = None \<and> st_index s = -1) \<and> ids_ok (clusters s)"

lemma tend_inv_scheme: "tend_inv sh s \<Longrightarrow> same_scheme s s' \<Longrightarrow> tend_inv sh s'"
  by (simp add: tend_inv_def same_schemeD)

lemma tend_inv_w2w: "tend_inv sh s \<Longrightarrow> tend_inv sh (set_w2w 0 s)"
  by (simp add: tend_inv_def set_w2w_def)

lemma write_poll_inv:
  assumes "packet_write_poll fuel L w = Inr w'" and "tend_inv sh (w_cs w)"
  shows "tend_inv sh (w_cs w')"
  using write_poll_cs [OF assms(1)] tend_inv_scheme [OF assms(2)] tend_inv_w2w by metis

lemma moved_item:
  assumes m: "move_to_next_st_item p s = Inr s'" and c: "0 \<le> cluster_id s"
  shows "s' = s\<lparr>cur_item := cur_item s', st_index := st_index s'\<rparr>"
    and "st_index s = -1 \<or> cur_item s' = None \<Longrightarrow> cur_item s' = None \<and> st_index s' = -1"
proof -
  obtain t where t: "current_trace s = Inr t"
    using m c unfolding move_to_next_st_item_def by (cases "current_trace s") simp_all
  let ?i = "skip_items (\<lambda>x. if p then x \<le> 0 else x \<ge> 0) t (nat (st_index s))"
  consider "st_index s < 0 \<or> st_index s \<ge> int (st_tracelen t)" | "\<not> (st_index s < 0 \<or> st_index s \<ge> int (st_tracelen t))" "?i < st_tracelen t"
    | "\<not> (st_index s < 0 \<or> st_index s \<ge> int (st_tracelen t))" "\<not> ?i < st_tracelen t" by blast
  then have "s' = s\<lparr>cur_item := cur_item s', st_index := st_index s'\<rparr> \<and>
      (st_index s = -1 \<or> cur_item s' = None \<longrightarrow> cur_item s' = None \<and> st_index s' = -1)"
    by cases (use m [symmetric] c t in \<open>simp_all add: move_to_next_st_item_def Let_def\<close>)
  then show "s' = s\<lparr>cur_item := cur_item s', st_index := st_index s'\<rparr>"
    and "st_index s = -1 \<or> cur_item s' = None \<Longrightarrow> cur_item s' = None \<and> st_index s' = -1" by blast+
qed

lemma packet_tau_cs [simp]: "w_cs (set_packet_tau t w) = w_cs w"
  by (simp add: set_packet_tau_def)

text \<open>What going back to normal does to the scheme.\<close>

definition normalises :: "(('c, 'z) world \<Rightarrow> ('c, 'z) world result) \<Rightarrow> bool" where
  "normalises f \<longleftrightarrow> (\<forall>w w'. f w = Inr w' \<longrightarrow> stmode (w_cs w') = -1 \<and> onload_flag (w_cs w') = onload_flag (w_cs w) \<and>
     w2w (w_cs w') = w2w (w_cs w) \<and> clusters (w_cs w') = clusters (w_cs w))"

lemma server_normalises: "normalises (server_to_normal L)"
  by (auto simp: normalises_def server_to_normal_def set_stmode_def dest!: send_notify_cs packet_send_cs)

lemma client_normalises: "normalises (\<lambda>w. Inr (client_to_normal w))"
  by (auto simp: normalises_def client_to_normal_def set_stmode_def unset_server_entering_normal_def)

lemma normal_inv:
  assumes "normalises f" and "f w = Inr w'" and "onload_flag (w_cs w) \<in> {0, 1}" and "0 \<le> w2w (w_cs w)" and "\<not> waiting_for_a_packet sh"
    and "ids_ok (clusters (w_cs w))"
  shows "tend_inv sh (w_cs w')"
  using assms by (auto simp: normalises_def tend_inv_def)

text \<open>The transcript may end: no item is left, or both the other side and the page are done.\<close>

definition may_end :: "cs_state \<Rightarrow> bool" where
  "may_end s \<longleftrightarrow> cur_item s = None \<and> st_index s = -1 \<or> transcript_end s = 1 \<and> onload_flag s = 1"

lemma announced:
  assumes "(if sent_tend (w_cs w) = 0 \<and> w2w (w_cs w) = 0
            then rbind (packet_send_notify 4 CHR ''t'' w) (\<lambda>w. rbind (packet_send L w) (\<lambda>w. Inr (upd_cs set_sent_tend w)))
            else Inr w) = Inr w1"
  shows "w_cs w1 = w_cs w \<or> w2w (w_cs w) = 0 \<and> w_cs w1 = set_sent_tend (w_cs w)"
  using assms by (auto split: if_splits dest!: send_notify_cs packet_send_cs)

lemma over_inv:
  fixes w :: "('c, 'z) world"
  assumes n: "normalises f" and r: "transcript_over f L now len (sh, w) = Inr (sh', w')"
    and i: "tend_inv (sh\<lparr>waiting_for_a_packet := False\<rparr>) (w_cs w)" and e: "may_end (w_cs w)"
  shows "tend_inv sh' (w_cs w')"
proof -
  let ?sh = "sh\<lparr>waiting_for_a_packet := False\<rparr>" and ?w = "set_packet_tau (10 * INITIAL_TAU) w"
  from r obtain w1 where w1: "(if sent_tend (w_cs ?w) = 0 \<and> w2w (w_cs ?w) = 0
            then rbind (packet_send_notify 4 CHR ''t'' ?w) (\<lambda>w. rbind (packet_send L w) (\<lambda>w. Inr (upd_cs set_sent_tend w)))
            else Inr ?w) = Inr w1"
    and rest: "(if transcript_end (w_cs w1) = 1 \<and> w2w (w_cs w1) = 0
        then if onload_flag (w_cs ?w) \<noteq> 1
             then if st_idle_start (w_cs w1) = 0 then Inr (?sh, upd_cs (set_st_idle_start now) w1)
                  else if len > 0 then Inr (to_csbuflo now (?sh, w1))
                  else if now - st_idle_start (w_cs w1) \<ge> 2000000 then rbind (f w1) (\<lambda>w. Inr (?sh, w))
                  else Inr (?sh, w1)
             else rbind (f w1) (\<lambda>w. Inr (?sh, w))
        else Inr (?sh, w1)) = Inr (sh', w')"
    unfolding transcript_over_def Let_def prod.case rbind_eq_Inr by blast
  note s1 = announced [OF w1]
  have base: "onload_flag (w_cs w1) \<in> {0, 1}" "0 \<le> w2w (w_cs w1)" "onload_flag (w_cs w1) = onload_flag (w_cs w)" "ids_ok (clusters (w_cs w1))"
    using s1 i by (auto simp: tend_inv_def set_sent_tend_def)
  have keep: "tend_inv ?sh (w_cs w1)" if "\<not> (transcript_end (w_cs w1) = 1 \<and> w2w (w_cs w1) = 0 \<and> onload_flag (w_cs w) = 1)"
  proof (cases "w_cs w1 = w_cs w")
    case True
    then show ?thesis using i by simp
  next
    case False
    then have d: "w2w (w_cs w) = 0" "w_cs w1 = set_sent_tend (w_cs w)" using s1 by auto
    then have "cur_item (w_cs w) = None" "st_index (w_cs w) = -1"
      using e that unfolding may_end_def by (auto simp: set_sent_tend_def)
    then show ?thesis using i d by (simp add: tend_inv_def set_sent_tend_def)
  qed
  have idle: "tend_inv ?sh (set_st_idle_start now (w_cs w1))" if "tend_inv ?sh (w_cs w1)"
    using that by (simp add: tend_inv_def set_st_idle_start_def)
  have norm: "tend_inv ?sh (w_cs v)" if "f w1 = Inr v" for v by (rule normal_inv [OF n that base(1,2)]) (use base(4) in simp_all)
  have cs: "tend_inv (fst (to_csbuflo now (?sh, w1))) (w_cs (snd (to_csbuflo now (?sh, w1))))"
    using base by (auto simp: to_csbuflo_def tend_inv_def set_stmode_def reset_totals_def)
  show ?thesis
  proof (cases "transcript_end (w_cs w1) = 1 \<and> w2w (w_cs w1) = 0")
    case False
    then show ?thesis using rest keep by auto
  next
    case True
    note t = this
    show ?thesis
    proof (cases "onload_flag (w_cs w) = 1")
      case True
      with rest t obtain v where "f w1 = Inr v" "sh' = ?sh" "w' = v" by auto
      then show ?thesis using norm by simp
    next
      case False
      then have k: "tend_inv ?sh (w_cs w1)" by (intro keep) simp
      consider "st_idle_start (w_cs w1) = 0" | "st_idle_start (w_cs w1) \<noteq> 0" "len > 0"
        | "st_idle_start (w_cs w1) \<noteq> 0" "\<not> len > 0" "now - st_idle_start (w_cs w1) \<ge> 2000000"
        | "st_idle_start (w_cs w1) \<noteq> 0" "\<not> len > 0" "\<not> now - st_idle_start (w_cs w1) \<ge> 2000000" by blast
      then show ?thesis
      proof cases
        case 1
        then have "sh' = ?sh" "w' = upd_cs (set_st_idle_start now) w1" using rest t False by auto
        then show ?thesis using idle [OF k] by simp
      next
        case 2
        then have "to_csbuflo now (?sh, w1) = (sh', w')" using rest t False by simp
        then show ?thesis using cs by simp
      next
        case 3
        with rest t False obtain v where "f w1 = Inr v" "sh' = ?sh" "w' = v" by auto
        then show ?thesis using norm by simp
      next
        case 4
        then have "sh' = ?sh" "w' = w1" using rest t False by auto
        then show ?thesis using k by simp
      qed
    qed
  qed
qed

definition scheme_core :: "cs_state \<Rightarrow> int \<times> int \<times> int \<times> int \<times> int \<times> stpair option \<times> int \<times> hashmap option" where
  "scheme_core s = (stmode s, onload_flag s, w2w s, cluster_id s, sent_tend s, cur_item s, st_index s, clusters s)"

lemma tend_inv_cong:
  assumes "scheme_core s' = scheme_core s" and "waiting_for_a_packet sh' = waiting_for_a_packet sh"
  shows "tend_inv sh' s' = tend_inv sh s"
  using assms by (simp add: scheme_core_def tend_inv_def)

lemma core_setters [simp]:
  "scheme_core (set_trans_padded_remaining n s) = scheme_core s" "scheme_core (unset_unload_flag s) = scheme_core s"
  "scheme_core (set_received_sofar b s) = scheme_core s" "scheme_core (unset_second_client s) = scheme_core s"
  "scheme_core (unset_first_client s) = scheme_core s" "scheme_core (set_second_client s) = scheme_core s"
  "scheme_core (unset_urlack s) = scheme_core s" "scheme_core (set_tstart_set n s) = scheme_core s"
  "scheme_core (set_tend_set n s) = scheme_core s" "scheme_core (set_ts_start b s) = scheme_core s"
  "scheme_core (set_ts_end b s) = scheme_core s" "scheme_core (insert_time b s) = scheme_core s"
  "scheme_core (unset_paddingdone_flag s) = scheme_core s" "scheme_core (store_tau t s) = scheme_core s"
  by (simp_all add: scheme_core_def set_trans_padded_remaining_def unset_unload_flag_def set_received_sofar_def
      unset_second_client_def unset_first_client_def set_second_client_def unset_urlack_def set_tstart_set_def
      set_tend_set_def set_ts_start_def set_ts_end_def insert_time_def unset_paddingdone_flag_def store_tau_def)

lemma fold_store_core [simp]: "scheme_core (fold (\<lambda>t. store_tau (g t)) ts s) = scheme_core s"
  by (induction ts arbitrary: s) simp_all

lemma tau_interval_core:
  assumes "update_tau_interval a b n c s = Inr s'"
  shows "scheme_core s' = scheme_core s"
proof -
  have r: "scheme_core (s\<lparr>time_index := 0, time_size := 0\<rparr>) = scheme_core s" for s by (simp add: scheme_core_def)
  show ?thesis using assms
    by (auto simp: update_tau_interval_def Let_def r split: if_splits)
qed

lemma tau_median_core: "update_tau_median a b n s = Inr (t, c, s') \<Longrightarrow> scheme_core s' = scheme_core s"
  by (auto simp: update_tau_median_def Let_def scheme_core_def split: if_splits)

lemma wait_core:
  assumes "wait_for_peer c e n (sh, w) = (n', sh', w')"
  shows "scheme_core (w_cs w') = scheme_core (w_cs w)"
proof -
  have "w_cs (snd (read_clock w)) = w_cs w" by (simp add: read_clock_def)
  then show ?thesis using assms
    by (auto simp: wait_for_peer_def Let_def split: if_splits prod.splits)
qed

lemma item_inv:
  assumes i: "tend_inv sh0 s" and c: "scheme_core s = scheme_core (w_cs w)" and it: "cur_item s \<noteq> None"
    and wt: "wait_for_peer b e n (sh, w) = (n', sh', w')"
  shows "tend_inv sh' (set_w2w (w2w (w_cs w') + n') (w_cs w'))"
proof -
  have "scheme_core (w_cs w') = scheme_core s" using wait_core [OF wt] c by simp
  then show ?thesis using i it by (auto simp: tend_inv_def scheme_core_def set_w2w_def)
qed

lemma server_item_inv:
  assumes "tend_inv sh0 (w_cs w)" and "cur_item (w_cs w) \<noteq> None" and r: "server_item item len (sh, w) = (sh', w')"
  shows "tend_inv sh' (w_cs w')"
proof -
  let ?w = "set_packet_tau (st_time item) w"
  define w1 where "w1 = (if first_client (w_cs w) = 1 then upd_cs unset_first_client ?w else ?w)"
  obtain n sh2 w2 where wt: "wait_for_peer False (st_expected item) (if first_client (w_cs w) = 1 \<and> len > st_size item then len else st_size item) (sh, w1) = (n, sh2, w2)"
    by (metis prod.exhaust)
  have "sh' = sh2" "w' = upd_cs (\<lambda>s. set_w2w (w2w s + n) s) w2"
    using r wt by (auto simp: server_item_def Let_def w1_def split: if_splits)
  moreover have "scheme_core (w_cs w) = scheme_core (w_cs w1)" by (simp add: w1_def)
  ultimately show ?thesis using item_inv [OF assms(1) _ assms(2) wt] by simp
qed

lemma client_item_inv:
  assumes "tend_inv sh0 (w_cs w)" and "cur_item (w_cs w) \<noteq> None" and r: "client_item item len (sh, w) = (sh', w')"
  shows "tend_inv sh' (w_cs w')"
proof -
  let ?w = "set_packet_tau (st_time item) w"
  obtain m e s where t: "client_turn item len (w_cs w) = (m, e, s)" by (metis prod.exhaust)
  obtain n sh2 w2 where wt: "wait_for_peer True e m (sh, ?w\<lparr>w_cs := s\<rparr>) = (n, sh2, w2)" by (metis prod.exhaust)
  have "sh' = sh2" "w' = upd_cs (\<lambda>s. set_w2w (w2w s + n) s) w2" using r t wt by (simp_all add: client_item_def)
  moreover have "scheme_core s = scheme_core (w_cs w)" using t by (auto simp: client_turn_def Let_def split: if_splits)
  ultimately show ?thesis using item_inv [OF assms(1) _ assms(2) wt] by simp
qed

section \<open>Every step keeps the invariant\<close>

lemma jump_cases:
  assumes "should_jump_trans_end r s = (j, s')" and "0 \<le> cluster_id s" and "cur_item s \<noteq> None"
  shows "s' = s \<and> (j \<longrightarrow> transcript_end s = 1) \<or> j \<and> s' = s\<lparr>cur_item := None, st_index := -1\<rparr>"
  using assms by (auto simp: should_jump_trans_end_def split: option.splits if_splits)

text \<open>The start of a step of a replay: the item at hand, if any, and what is known about the state.\<close>

lemma next_item_inv:
  assumes i: "tend_inv sh s" and st: "stmode s = 1"
    and m: "(if waiting_for_a_packet sh then Inr s else move_to_next_st_item p s) = Inr s'"
  shows "tend_inv (sh\<lparr>waiting_for_a_packet := False\<rparr>) s'" and "stmode s' = 1" and "onload_flag s' = onload_flag s"
    and "cur_item s' = None \<Longrightarrow> may_end s'" and "0 \<le> cluster_id s'"
proof -
  have c: "0 \<le> cluster_id s" using i st by (simp add: tend_inv_def)
  have "tend_inv (sh\<lparr>waiting_for_a_packet := False\<rparr>) s' \<and> stmode s' = 1 \<and> onload_flag s' = onload_flag s \<and>
    (cur_item s' = None \<longrightarrow> may_end s') \<and> 0 \<le> cluster_id s'"
  proof (cases "waiting_for_a_packet sh")
    case True
    then have "s' = s" using m by simp
    then show ?thesis using True i st c by (auto simp: tend_inv_def)
  next
    case False
    then have mv: "move_to_next_st_item p s = Inr s'" using m by simp
    note f = moved_item [OF mv c]
    have e: "stmode s' = stmode s" "onload_flag s' = onload_flag s" "cluster_id s' = cluster_id s" "w2w s' = w2w s" "sent_tend s' = sent_tend s"
      "clusters s' = clusters s" by (subst f(1), simp)+
    show ?thesis using i st e f(2) by (auto simp: tend_inv_def may_end_def)
  qed
  then show "tend_inv (sh\<lparr>waiting_for_a_packet := False\<rparr>) s'" and "stmode s' = 1" and "onload_flag s' = onload_flag s"
    and "cur_item s' = None \<Longrightarrow> may_end s'" and "0 \<le> cluster_id s'" by blast+
qed

lemma jump_inv:
  assumes i: "tend_inv (sh\<lparr>waiting_for_a_packet := False\<rparr>) s" and c: "0 \<le> cluster_id s" and it: "cur_item s \<noteq> None"
    and o: "onload_flag s \<noteq> 0" and j: "should_jump_trans_end r s = (j, s')"
  shows "if j then tend_inv (sh\<lparr>waiting_for_a_packet := False\<rparr>) s' \<and> may_end s' else s' = s"
proof -
  have "onload_flag s = 1" using i o by (auto simp: tend_inv_def)
  then show ?thesis using jump_cases [OF j c it] i by (auto simp: may_end_def tend_inv_def)
qed

lemma pick_inv:
  fixes w :: "('c, 'z) world"
  assumes i: "tend_inv sh (w_cs w)" and st: "stmode (w_cs w) = 1" and r: "pick_item p sh w = Inr (item, go, w')"
  shows "tend_inv (sh\<lparr>waiting_for_a_packet := False\<rparr>) (w_cs w')"
    and "if item \<noteq> None \<and> go then cur_item (w_cs w') \<noteq> None else may_end (w_cs w')"
proof -
  let ?sh = "sh\<lparr>waiting_for_a_packet := False\<rparr>"
  from r obtain s where m: "(if waiting_for_a_packet sh then Inr (w_cs w) else move_to_next_st_item p (w_cs w)) = Inr s"
    and rest: "(if cur_item s = None \<or> onload_flag (w_cs w) = 0 then Inr (cur_item s, cur_item s \<noteq> None, w\<lparr>w_cs := s\<rparr>)
      else case arc4random (w\<lparr>w_cs := s\<rparr>) of (r, w) \<Rightarrow> case should_jump_trans_end (r mod 100) s of (jump, s') \<Rightarrow>
        Inr (cur_item s, \<not> jump, w\<lparr>w_cs := s'\<rparr>)) = (Inr (item, go, w') :: _ result)"
    unfolding pick_item_def Let_def rbind_eq_Inr by (elim exE conjE) (rule that, assumption+)
  note n = next_item_inv [OF i st m]
  have "tend_inv ?sh (w_cs w') \<and> (if item \<noteq> None \<and> go then cur_item (w_cs w') \<noteq> None else may_end (w_cs w'))"
  proof (cases "cur_item s = None \<or> onload_flag (w_cs w) = 0")
    case True
    then have "item = cur_item s" "go = (cur_item s \<noteq> None)" "w_cs w' = s" using rest by auto
    then show ?thesis using n(1,4) by auto
  next
    case False
    obtain r v where a: "arc4random (w\<lparr>w_cs := s\<rparr>) = (r, v)" by (metis prod.exhaust)
    obtain j s2 where jp: "should_jump_trans_end (r mod 100) s = (j, s2)" by (metis prod.exhaust)
    have f: "item = cur_item s" "go = (\<not> j)" "w_cs w' = s2" using rest False a jp by auto
    have "if j then tend_inv ?sh s2 \<and> may_end s2 else s2 = s"
      by (rule jump_inv [OF n(1,5) _ _ jp]) (use False n(3) in auto)
    then show ?thesis using f False n(1) by (cases j) auto
  qed
  then show "tend_inv ?sh (w_cs w')" and "if item \<noteq> None \<and> go then cur_item (w_cs w') \<noteq> None else may_end (w_cs w')" by auto
qed

lemma server_replay_inv:
  fixes w :: "('c, 'z) world"
  assumes i: "tend_inv sh (w_cs w)" and r: "server_replay L now len (sh, w) = Inr (sh', w')"
  shows "tend_inv sh' (w_cs w')"
proof (cases "stmode (w_cs w) = 1")
  case True
  with r obtain item go v where p: "pick_item True sh w = Inr (item, go, v)"
    and rest: "(case (item, go) of (Some item, True) \<Rightarrow> Inr (server_item item len (sh, v))
       | _ \<Rightarrow> transcript_over (server_to_normal L) L now len (sh, v)) = Inr (sh', w')"
    by (auto simp: server_replay_def)
  note n = pick_inv [OF i True p]
  show ?thesis
  proof (cases "item \<noteq> None \<and> go")
    case True
    then obtain it where "server_item it len (sh, v) = (sh', w')" using rest by auto
    then show ?thesis by (rule server_item_inv [rotated 2]) (use n True in auto)
  next
    case False
    then have "transcript_over (server_to_normal L) L now len (sh, v) = Inr (sh', w')" using rest by (cases item; cases go) auto
    then show ?thesis by (rule over_inv [OF server_normalises]) (use n False in auto)
  qed
qed (use i r in \<open>simp add: server_replay_def\<close>)

lemma client_replay_inv:
  fixes w :: "('c, 'z) world"
  assumes i: "tend_inv sh (w_cs w)" and r: "client_replay L now len (old, sh, w) = Inr (item, sh', w')"
  shows "tend_inv sh' (w_cs w')"
proof (cases "stmode (w_cs w) = 1")
  case True
  let ?over = "transcript_over (\<lambda>w. Inr (client_to_normal w)) L now len"
  from True r obtain go v where p: "pick_item False sh w = Inr (item, go, v)"
    and rest: "(case (item, go) of (Some item, True) \<Rightarrow> Inr (client_item item len (sh, v)) | _ \<Rightarrow> ?over (sh, v)) = Inr (sh', w')"
    by (auto simp: client_replay_def)
  note n = pick_inv [OF i True p]
  show ?thesis
  proof (cases "item \<noteq> None \<and> go")
    case True
    then obtain it where "client_item it len (sh, v) = (sh', w')" using rest by auto
    then show ?thesis by (rule client_item_inv [rotated 2]) (use n True in auto)
  next
    case False
    then have "?over (sh, v) = Inr (sh', w')" using rest by (cases item; cases go) auto
    then show ?thesis by (rule over_inv [OF client_normalises]) (use n False in auto)
  qed
qed (use i r in \<open>simp add: client_replay_def\<close>)

lemma unload_inv:
  assumes "tend_inv sh (w_cs w)" and "handle_unload now (sh, w) = (sh', w')"
  shows "tend_inv sh' (w_cs w')"
proof -
  have "scheme_core (w_cs w') = scheme_core (w_cs w)" "waiting_for_a_packet sh' = waiting_for_a_packet sh"
    using assms(2) by (auto simp: handle_unload_def Let_def set_updated_time_def split: if_splits)
  then show ?thesis using assms(1) tend_inv_cong by blast
qed

lemma set_target_inv:
  assumes i: "tend_inv sh (w_cs w)" and st: "stmode (w_cs w) \<noteq> 1" and r: "set_target len (sh, w) = Inr (sh', w')"
  shows "tend_inv sh' (w_cs w')"
proof -
  have keep: "tend_inv (sh\<lparr>target_sent_bytes := t\<rparr>) (w_cs (if c then upd_cs (set_w2w n) w else w))" for t c n
    using i st by (simp add: tend_inv_def set_w2w_def)
  show ?thesis
  proof (cases "total_sent_bytes sh = 0")
    case True
    then show ?thesis using r keep [of 0 True 0] by (auto simp: set_target_def)
  next
    case False
    then obtain q t c where "(if \<bar>q\<bar> > INT_MAX then Inl (MemFault ''conversion to int'')
        else Inr (sh\<lparr>target_sent_bytes := t\<rparr>, if c then upd_cs (set_w2w len) w else w)) = Inr (sh', w')"
      using r unfolding set_target_def Let_def prod.case if_not_P [OF False] rbind_eq_Inr by blast
    then have "sh' = sh\<lparr>target_sent_bytes := t\<rparr>" "w' = (if c then upd_cs (set_w2w len) w else w)"
      by (auto split: if_splits)
    then show ?thesis using keep by simp
  qed
qed

lemma idle_inv:
  assumes i: "tend_inv sh (w_cs w)" and r: "idle_step leave now len (sh, w) = Inr (sh', w')"
    and leave: "\<And>sh w sh' w'. leave (sh, w) = Inr (sh', w') \<Longrightarrow> tend_inv sh (w_cs w) \<Longrightarrow> stmode (w_cs w) = 0 \<Longrightarrow>
        tend_inv sh' (w_cs w') \<and> stmode (w_cs w') \<noteq> 1"
  shows "tend_inv sh' (w_cs w')"
proof (cases "stmode (w_cs w) = 0")
  case True
  let ?w = "upd_cs (set_w2w TARGET_QUEUE_LEN) w"
  obtain c start where ch: "channel_idle now len (outbuf_remain sh) (idle_start sh) (w_cs ?w) = (c, start)" by (metis prod.exhaust)
  let ?sh = "sh\<lparr>idle_start := start\<rparr>"
  have b: "tend_inv ?sh (w_cs ?w)" "stmode (w_cs ?w) = 0" using i True by (simp_all add: tend_inv_def set_w2w_def)
  have rest: "(if c then rbind (leave (?sh, ?w)) (set_target len) else Inr (?sh, ?w)) = Inr (sh', w')"
    using r True ch by (simp add: idle_step_def Let_def)
  show ?thesis
  proof (cases c)
    case False
    then show ?thesis using b rest by auto
  next
    case True
    then obtain x where l: "leave (?sh, ?w) = Inr x" and t: "set_target len x = Inr (sh', w')" using rest by auto
    obtain sh1 w1 where x: "x = (sh1, w1)" by (metis prod.exhaust)
    show ?thesis using leave [OF l [unfolded x] b] set_target_inv [OF _ _ t [unfolded x]] by blast
  qed
qed (use i r in \<open>simp add: idle_step_def\<close>)

lemma at_rest_waiting [simp]: "waiting_for_a_packet (at_rest now sh) = waiting_for_a_packet sh"
  by (simp add: at_rest_def reset_totals_def)

lemma core_clear_gap [simp]: "scheme_core (clear_gap s) = scheme_core s"
  by (simp add: clear_gap_def)

lemma leave_keeps:
  assumes "tend_inv sh s" and "cur_item s' = cur_item s" and "onload_flag s' = onload_flag s" and "0 \<le> w2w s'" and "stmode s' = -1"
    and "clusters s' = clusters s"
  shows "tend_inv (at_rest now sh) s' \<and> stmode s' \<noteq> 1"
  using assms by (simp add: tend_inv_def)

lemma server_leave_inv:
  assumes r: "server_leave L now len (sh, w) = Inr (sh', w')" and i: "tend_inv sh (w_cs w)" and st: "stmode (w_cs w) = 0"
  shows "tend_inv sh' (w_cs w') \<and> stmode (w_cs w') \<noteq> 1"
proof (cases "len \<le> 32 \<and> near_target sh")
  case True
  let ?s = "clear_gap (set_w2w TARGET_QUEUE_LEN (unset_paddingdone_flag (w_cs w)))"
  have "w_cs w' = set_stmode (-1) ?s" "sh' = at_rest now sh"
    using r True by (auto simp: server_leave_def server_to_normal_def Let_def dest!: send_notify_cs packet_send_cs)
  moreover have "scheme_core ?s = scheme_core (set_w2w TARGET_QUEUE_LEN (unset_paddingdone_flag (w_cs w)))" by simp
  ultimately show ?thesis using leave_keeps [OF i, of "w_cs w'" now]
    by (auto simp: scheme_core_def set_stmode_def set_w2w_def unset_paddingdone_flag_def)
qed (use assms in \<open>auto simp: server_leave_def\<close>)

lemma client_leave_inv:
  assumes r: "client_leave L now len (sh, w) = Inr (sh', w')" and i: "tend_inv sh (w_cs w)" and st: "stmode (w_cs w) = 0"
  shows "tend_inv sh' (w_cs w') \<and> stmode (w_cs w') \<noteq> 1"
proof (cases "len = 0 \<and> near_target sh")
  case True
  then obtain v where "w_cs v = w_cs w" "w' = client_to_normal (upd_cs clear_gap (set_packet_tau INITIAL_TAU v))" "sh' = at_rest now sh"
    using r by (auto simp: client_leave_def dest!: send_notify_cs packet_send_cs)
  moreover have "scheme_core (clear_gap (w_cs w)) = scheme_core (w_cs w)" by simp
  ultimately show ?thesis using leave_keeps [OF i, of "w_cs w'" now] i
    by (auto simp: client_to_normal_def scheme_core_def set_stmode_def unset_server_entering_normal_def tend_inv_def)
qed (use assms in \<open>auto simp: client_leave_def\<close>)

lemma note_gap_core:
  assumes "note_gap c sent junk (sh, w) = Inr (sh', w')"
  shows "scheme_core (w_cs w') = scheme_core (w_cs w) \<and> waiting_for_a_packet sh' = waiting_for_a_packet sh"
proof -
  let ?s = "w_cs w"
  let ?first = "if tstart_set ?s \<noteq> 0 \<and> tend_set ?s \<noteq> 0 \<and> ts_start ?s < ts_end ?s
            then rbind (update_tau_interval (ts_start ?s) (ts_end ?s) (cur_total_realsent_bytes sh) c ?s) (\<lambda>s.
                   Inr (sh\<lparr>cur_total_realsent_bytes := 0\<rparr>, set_tend_set 0 (set_tstart_set 0 s)))
            else Inr (sh, ?s)"
  obtain sh1 s1 where f: "?first = Inr (sh1, s1)" using assms unfolding note_gap_def Let_def prod.case rbind_eq_Inr by auto
  have "scheme_core s1 = scheme_core ?s \<and> waiting_for_a_packet sh1 = waiting_for_a_packet sh"
    using f by (auto split: if_splits dest: tau_interval_core)
  moreover have "scheme_core (w_cs w') = scheme_core s1 \<and> waiting_for_a_packet sh' = waiting_for_a_packet sh1"
    using assms f by (auto simp: note_gap_def Let_def split: if_splits)
  ultimately show ?thesis by simp
qed

lemma tau_update_inv:
  assumes i: "tend_inv sh (w_cs w)"
    and r: "(if stmode (w_cs w) = 0
        then rbind (update_tau_median (sh_tau sh) (boundary sh) (total_sent_bytes sh) (w_cs w)) (\<lambda>(tau, bound, s).
               Inr (sh\<lparr>sh_tau := tau, boundary := bound\<rparr>, set_packet_tau tau (w\<lparr>w_cs := s\<rparr>)))
        else Inr (sh, w)) = (Inr (sh', w') :: _ result)"
  shows "tend_inv sh' (w_cs w')"
proof (cases "stmode (w_cs w) = 0")
  case True
  then obtain t b s where "update_tau_median (sh_tau sh) (boundary sh) (total_sent_bytes sh) (w_cs w) = Inr (t, b, s)"
    "sh' = sh\<lparr>sh_tau := t, boundary := b\<rparr>" "w_cs w' = s" using r by auto
  then show ?thesis using i tend_inv_cong [OF tau_median_core] by simp
qed (use i r in auto)

lemma learn_inv:
  assumes i: "tend_inv sh (w_cs w)" and r: "learn c len sent junk (sh, w) = Inr (sh', w')"
  shows "tend_inv sh' (w_cs w')"
proof -
  let ?gap = "if stmode (w_cs w) = 0 \<and> len \<noteq> 0 then note_gap c sent junk (sh, w) else Inr (sh, w)"
  from r obtain x where x: "?gap = Inr x" "(case x of (sh1, w1) \<Rightarrow> if stmode (w_cs w1) = 0
        then rbind (update_tau_median (sh_tau sh1) (boundary sh1) (total_sent_bytes sh1) (w_cs w1)) (\<lambda>(tau, bound, s).
               Inr (sh1\<lparr>sh_tau := tau, boundary := bound\<rparr>, set_packet_tau tau (w1\<lparr>w_cs := s\<rparr>)))
        else Inr (sh1, w1)) = (Inr (sh', w') :: _ result)"
    unfolding learn_def prod.case rbind_eq_Inr by (elim exE conjE) (rule that, assumption+)
  obtain sh1 w1 where p: "x = (sh1, w1)" by (metis prod.exhaust)
  note g = x(1) [unfolded p] and t = x(2) [unfolded p prod.case]
  have "tend_inv sh1 (w_cs w1)"
  proof (cases "stmode (w_cs w) = 0 \<and> len \<noteq> 0")
    case True
    then show ?thesis using g i tend_inv_cong note_gap_core by metis
  qed (use g i in auto)
  then show ?thesis using tau_update_inv t by blast
qed

lemma account_inv:
  assumes i: "tend_inv sh (w_cs w)" and r: "write_and_account fuel L c len inc (sh, w) = Inr (sh', w')"
  shows "tend_inv sh' (w_cs w')"
proof -
  from r obtain w1 where p: "packet_write_poll fuel L w = Inr w1" by (auto simp: write_and_account_def Let_def)
  obtain now w2 where clk: "read_clock w1 = (now, w2)" by (metis prod.exhaust)
  then have w2: "w_cs w2 = w_cs w1" by (auto simp: read_clock_def)
  let ?sent = "output_buffer_len w + padded_junk (w_cs w1) - output_buffer_len w1"
  have "learn c len ?sent (padded_junk (w_cs w1)) (sh\<lparr>time_to_write := packet_time_to_write w2,
      outbuf_remain := output_buffer_len w1, total_sent_bytes := total_sent_bytes sh + ?sent,
      cur_total_realincoming_bytes := cur_total_realincoming_bytes sh + inc, cur_ts := now\<rparr>, w2) = Inr (sh', w')"
    using r p clk by (simp add: write_and_account_def Let_def)
  then show ?thesis by (rule learn_inv [rotated]) (use write_poll_inv [OF p i] w2 in \<open>simp add: tend_inv_def\<close>)
qed

lemma tend_inv_idle [simp]: "tend_inv (sh\<lparr>truly_idle := b\<rparr>) s = tend_inv sh s"
  by (simp add: tend_inv_def)

section \<open>A call of the loop\<close>

lemma server_prepare_inv:
  fixes w :: "('c, 'z) world"
  assumes i: "tend_inv sh (w_cs w)" and r: "server_prepare L wr (sh, w) = Inr (send, len, inc, sh', w')"
  shows "tend_inv sh' (w_cs w')"
proof -
  obtain now v where clk: "read_clock w = (now, v)" by (metis prod.exhaust)
  obtain sh1 w1 where u: "handle_unload now (sh, v) = (sh1, w1)" by (metis prod.exhaust)
  have "w_cs v = w_cs w" using clk by (auto simp: read_clock_def)
  then have i1: "tend_inv sh1 (w_cs w1)" using unload_inv [OF _ u] i by simp
  show ?thesis
  proof (cases "should_send now wr True sh1 (w_cs w1)")
    case True
    then obtain sh2 w2 where o: "server_replay L now (output_buffer_len w1) (sh1, w1) = Inr (sh2, w2)"
      "server_idle L now (output_buffer_len w1) (sh2\<lparr>truly_idle := False\<rparr>, w2) = Inr (sh', w')"
      using r clk u by (auto simp: server_prepare_def Let_def)
    have "tend_inv sh2 (w_cs w2)" by (rule server_replay_inv [OF i1 o(1)])
    then show ?thesis using idle_inv [OF _ o(2) [unfolded server_idle_def] server_leave_inv] by simp
  next
    case False
    then show ?thesis using r clk u i1 by (auto simp: server_prepare_def Let_def split: if_splits)
  qed
qed

lemma server_output_inv:
  fixes w :: "('c, 'z) world"
  assumes i: "tend_inv sh (w_cs w)" and r: "server_output fuel L wr (sh, w) = Inr (sh', w')"
  shows "tend_inv sh' (w_cs w')"
  using r by (auto simp: server_output_def split: if_splits dest!: server_prepare_inv [OF i] intro: account_inv)

lemma client_prepare_inv:
  fixes w :: "('c, 'z) world"
  assumes i: "tend_inv sh (w_cs w)" and r: "client_prepare L wr (item, sh, w) = Inr (send, len, inc, item', sh', w')"
  shows "tend_inv sh' (w_cs w')"
proof -
  obtain now v where clk: "read_clock w = (now, v)" by (metis prod.exhaust)
  obtain sh1 w1 where u: "handle_unload now (sh, v) = (sh1, w1)" by (metis prod.exhaust)
  have "w_cs v = w_cs w" using clk by (auto simp: read_clock_def)
  then have i1: "tend_inv sh1 (w_cs w1)" using unload_inv [OF _ u] i by simp
  show ?thesis
  proof (cases "should_send now wr (item = None) sh1 (w_cs w1)")
    case True
    then obtain sh2 w2 where o: "client_replay L now (output_buffer_len w1) (item, sh1, w1) = Inr (item', sh2, w2)"
      "client_idle L now (output_buffer_len w1) (sh2\<lparr>truly_idle := False\<rparr>, w2) = Inr (sh', w')"
      using r clk u by (auto simp: client_prepare_def Let_def)
    have "tend_inv sh2 (w_cs w2)" by (rule client_replay_inv [OF i1 o(1)])
    then show ?thesis using idle_inv [OF _ o(2) [unfolded client_idle_def] client_leave_inv] by simp
  next
    case False
    then show ?thesis using r clk u i1 by (auto simp: client_prepare_def Let_def split: if_splits)
  qed
qed

lemma client_output_inv:
  fixes w :: "('c, 'z) world"
  assumes i: "tend_inv sh (w_cs w)" and r: "client_output fuel L wr (item, sh, w) = Inr (item', sh', w')"
  shows "tend_inv sh' (w_cs w')"
  using r by (auto simp: client_output_def split: if_splits dest!: client_prepare_inv [OF i] intro: account_inv)

section \<open>How much padding\<close>

lemma pow_ceil_log2_spec:
  assumes "0 < x"
  shows "\<exists>k. pow_ceil_log2 x = Inr (2 ^ k) \<and> x \<le> 2 ^ k \<and> 2 ^ k < 2 * x"
proof -
  obtain k where k: "pow2_floor (nat x) = 2 ^ k" using pow2_floor_pow by blast
  then have b: "2 ^ k \<le> x" "x < 2 * 2 ^ k" using pow2_floor_bounds [of "nat x"] assms by (auto simp: nat_less_iff le_nat_iff)
  show ?thesis
  proof (cases "2 ^ k = x")
    case True
    then show ?thesis using k assms by (intro exI [of _ k]) (auto simp: pow_ceil_log2_def Let_def)
  next
    case False
    then show ?thesis using k b assms by (intro exI [of _ "Suc k"]) (auto simp: pow_ceil_log2_def Let_def)
  qed
qed

lemma ceil_multiple:
  assumes "0 < (b :: int)" and "0 < t"
  shows "t \<le> b * - (- t div b)" and "b * - (- t div b) < t + b" and "0 \<le> - (- t div b)" and "- (- t div b) \<le> t"
proof -
  define q where "q = - (- t div b)"
  have "- t = b * (- t div b) + - t mod b" "0 \<le> - t mod b" "- t mod b < b" "b * q = - (b * (- t div b))"
    using assms by (simp_all add: q_def)
  then have q: "t \<le> b * q" "b * q < t + b" by linarith+
  then have "0 < b * q" using assms by linarith
  then have "0 < q" using assms by (simp add: zero_less_mult_iff)
  have "b * (q - 1) < t" using q by (simp add: algebra_simps)
  moreover have "q - 1 \<le> b * (q - 1)" using assms(1) \<open>0 < q\<close> mult_right_mono [of 1 b "q - 1"] by simp
  ultimately have "q \<le> t" by linarith
  then show "t \<le> b * - (- t div b)" and "b * - (- t div b) < t + b" and "0 \<le> - (- t div b)" and "- (- t div b) \<le> t"
    using q \<open>0 < q\<close> by (simp_all add: q_def)
qed



section \<open>When padding stops\<close>

lemma idle_leaves:
  assumes st: "stmode (w_cs w) = 0" and r: "idle_step leave now len (sh, w) = Inr (sh', w')" and st': "stmode (w_cs w') \<noteq> 0"
    and leave: "\<And>sh w sh' w'. leave (sh, w) = Inr (sh', w') \<Longrightarrow>
      sh' = sh \<and> w' = w \<or> P sh \<and> sh' = at_rest now sh \<and> stmode (w_cs w') = -1"
    and P: "\<And>t. P (sh\<lparr>idle_start := t\<rparr>) = P sh"
  shows "fst (channel_idle now len (outbuf_remain sh) (idle_start sh) (w_cs w)) \<and> P sh \<and> stmode (w_cs w') = -1 \<and>
    total_sent_bytes sh' = 0 \<and> target_sent_bytes sh' = 0 \<and> w2w (w_cs w') = 0"
proof -
  let ?w = "upd_cs (set_w2w TARGET_QUEUE_LEN) w"
  have same: "channel_idle now len a b (set_w2w n s) = channel_idle now len a b s" for a b n s
    by (simp add: channel_idle_def set_w2w_def)
  obtain c start where ch: "channel_idle now len (outbuf_remain sh) (idle_start sh) (w_cs w) = (c, start)" by (metis prod.exhaust)
  let ?sh = "sh\<lparr>idle_start := start\<rparr>"
  have rest: "(if c then rbind (leave (?sh, ?w)) (set_target len) else Inr (?sh, ?w)) = Inr (sh', w')"
    using r st ch by (simp add: idle_step_def Let_def same)
  have c: c using rest st st' by (auto simp: set_w2w_def split: if_splits)
  then obtain sh1 w1 where l: "leave (?sh, ?w) = Inr (sh1, w1)" and t: "set_target len (sh1, w1) = Inr (sh', w')"
    using rest by auto
  have "stmode (w_cs w') = stmode (w_cs w1)"
    using t by (auto simp: set_target_def Let_def set_w2w_def split: if_splits)
  then have d: "P ?sh" "sh1 = at_rest now ?sh" "stmode (w_cs w1) = -1"
    using leave [OF l] st st' by (auto simp: set_w2w_def)
  have "total_sent_bytes sh1 = 0" using d(2) by (simp add: at_rest_def reset_totals_def)
  then show ?thesis using c ch d t P by (auto simp: set_target_def set_w2w_def)
qed

lemma leave_cases:
  "server_leave L now len (sh, w) = Inr (sh', w') \<Longrightarrow>
    sh' = sh \<and> w' = w \<or> (len \<le> 32 \<and> near_target sh) \<and> sh' = at_rest now sh \<and> stmode (w_cs w') = -1"
  "client_leave L now len (sh, w) = Inr (sh', w') \<Longrightarrow>
    sh' = sh \<and> w' = w \<or> (len = 0 \<and> near_target sh) \<and> sh' = at_rest now sh \<and> stmode (w_cs w') = -1"
  using server_normalises [of L] client_normalises
  by (auto simp: server_leave_def client_leave_def normalises_def Let_def split: if_splits)

text \<open>C10: Constant-rate padding stops only where it may. The call that leaves it finds the channel idle,
  the bytes sent within one packet's size of the target, and at most 32 (server) or no (client) bytes
  waiting; it goes back to the normal mode with the counters at zero and nothing left to write.\<close>

theorem padding_stops_at_target:
  assumes "stmode (w_cs w) = 0" and "stmode (w_cs w') \<noteq> 0"
    and "(if server then server_idle else client_idle) L now len (sh, w) = Inr (sh', w')"
  shows "fst (channel_idle now len (outbuf_remain sh) (idle_start sh) (w_cs w)) \<and>
    (if server then len \<le> 32 else len = 0) \<and> \<bar>target_sent_bytes sh - total_sent_bytes sh\<bar> < TARGET_QUEUE_LEN \<and>
    stmode (w_cs w') = -1 \<and> total_sent_bytes sh' = 0 \<and> target_sent_bytes sh' = 0 \<and> w2w (w_cs w') = 0"
proof (cases server)
  case True
  then have s: "idle_step (server_leave L now len) now len (sh, w) = Inr (sh', w')" using assms(3) by (simp add: server_idle_def)
  have "fst (channel_idle now len (outbuf_remain sh) (idle_start sh) (w_cs w)) \<and> (len \<le> 32 \<and> near_target sh) \<and> stmode (w_cs w') = -1 \<and>
      total_sent_bytes sh' = 0 \<and> target_sent_bytes sh' = 0 \<and> w2w (w_cs w') = 0"
    by (rule idle_leaves [OF assms(1) s assms(2)], erule leave_cases(1)) (simp add: near_target_def)
  then show ?thesis using True by (auto simp: near_target_def)
next
  case False
  then have s: "idle_step (client_leave L now len) now len (sh, w) = Inr (sh', w')" using assms(3) by (simp add: client_idle_def)
  have "fst (channel_idle now len (outbuf_remain sh) (idle_start sh) (w_cs w)) \<and> (len = 0 \<and> near_target sh) \<and> stmode (w_cs w') = -1 \<and>
      total_sent_bytes sh' = 0 \<and> target_sent_bytes sh' = 0 \<and> w2w (w_cs w') = 0"
    by (rule idle_leaves [OF assms(1) s assms(2)], erule leave_cases(2)) (simp add: near_target_def)
  then show ?thesis using False by (auto simp: near_target_def)
qed

definition demo_idle :: "(nat, unit) world" where
  "demo_idle = demo_shaped\<lparr>w_cs := cs_init\<lparr>stmode := 0, onload_flag := 1\<rparr>\<rparr>"

lemma shaping_frame [simp]: "shaping L R (w\<lparr>w_cs := s\<rparr>) = shaping L R w" "shaping L R (set_packet_tau t w) = shaping L R w"
  by (simp_all add: shaping_def can_send_def out_block_def set_packet_tau_def)

lemma demo_idle_fields:
  "shaping demo_libs (=) demo_idle" "\<not> rekeying demo_idle" "s_output demo_idle = buffer_init" "p_send demo_idle = zero_counters"
  "stmode (w_cs demo_idle) = 0" "onload_flag (w_cs demo_idle) = 1"
proof -
  show "shaping demo_libs (=) demo_idle" using demo_shaped_shaping by (simp add: demo_idle_def)
qed (simp_all add: demo_idle_def demo_shaped_fields demo_shaped_def cs_init_def tau_state.extend_def tau_state.defs)

theorem padding_stops_at_target_witness:
  "\<exists>sh' w'. server_idle demo_libs 7 0 (shaper_init, demo_idle) = Inr (sh', w') \<and> stmode (w_cs w') = -1 \<and>
     total_sent_bytes sh' = 0 \<and> target_sent_bytes sh' = 0 \<and> w2w (w_cs w') = 0"
proof -
  let ?d = "upd_cs (set_w2w TARGET_QUEUE_LEN) demo_idle"
  let ?w = "upd_cs clear_gap (set_packet_tau INITIAL_TAU (upd_cs (set_w2w TARGET_QUEUE_LEN \<circ> unset_paddingdone_flag) ?d))"
  have "s_output ?w = buffer_init" "p_send ?w = zero_counters" "\<not> rekeying ?w"
    by (simp_all add: set_packet_tau_def demo_idle_fields)
  then obtain u v where v: "packet_send_notify 4 CHR ''n'' ?w = Inr u" "packet_send demo_libs u = Inr v"
    using notify_sent [of "CHR ''n''" NOTIFY_NORMAL demo_libs "(=)" ?w 4] demo_idle_fields(1)
    by (auto simp: notify_type_def zero_counters_def)
  have "near_target (shaper_init\<lparr>idle_start := t\<rparr>)" for t by (simp add: near_target_def shaper_init_def)
  then have l: "server_leave demo_libs 7 0 (shaper_init\<lparr>idle_start := t\<rparr>, ?d) = Inr (at_rest 7 (shaper_init\<lparr>idle_start := t\<rparr>), upd_cs (set_stmode (-1)) v)" for t
    using v by (simp add: server_leave_def server_to_normal_def Let_def)
  have c: "fst (channel_idle 7 0 a b (w_cs ?d))" for a b by (simp add: channel_idle_def Let_def set_w2w_def demo_idle_fields)
  have t: "set_target 0 (at_rest 7 s, u) = Inr ((at_rest 7 s)\<lparr>target_sent_bytes := 0\<rparr>, upd_cs (set_w2w 0) u)" for s u
    by (simp add: set_target_def at_rest_def reset_totals_def)
  have "\<exists>sh' w'. server_idle demo_libs 7 0 (shaper_init, demo_idle) = Inr (sh', w') \<and> stmode (w_cs w') \<noteq> 0"
    using c l by (auto simp: server_idle_def idle_step_def Let_def demo_idle_fields case_prod_beta t set_stmode_def set_w2w_def)
  then show ?thesis using padding_stops_at_target [of demo_idle _ True demo_libs 7 0 shaper_init] by (auto simp: demo_idle_fields)
qed

end
