(* ===== verification/Nchan.thy ===== *)
theory Nchan
  imports Bufaux
begin

text \<open>
  The tear-down state machine of a channel, \<open>nchan.c\<close>, for both protocol versions. A channel
  keeps the state of its input and output halves and the close flags. What it sends is
  appended to \<open>ch_sent\<close> as (type, payload) pairs and its \<open>shutdown\<close> and \<open>close\<close> calls to
  \<open>ch_os\<close>. The events are composed into the step relation \<open>chan_step\<close>.
\<close>

section \<open>Data\<close>

datatype os_call = ShutRd int | ShutWr int | CloseFd int

record channel =
  ch_type :: int
  ch_self :: int
  ch_remote_id :: u32
  ch_istate :: nat
  ch_ostate :: nat
  ch_flags :: u32
  ch_rfd :: int
  ch_wfd :: int
  ch_efd :: int
  ch_sock :: int
  ch_input :: buffer
  ch_output :: buffer
  ch_extended :: buffer
  ch_extended_usage :: nat
  ch_remote_window :: u32
  ch_remote_maxpacket :: u32
  ch_local_window :: u32
  ch_local_window_max :: u32
  ch_local_consumed :: u32
  ch_local_maxpacket :: u32
  ch_ctype :: string
  ch_isatty :: bool
  ch_force_drain :: bool
  ch_delayed :: bool
  ch_path :: "byte list option"
  ch_listening_port :: int
  ch_host_port :: int
  ch_remote_name :: "byte list"
  ch_detach_close :: bool
  ch_datagram :: bool
  ch_sent :: "(byte \<times> byte list) list"
  ch_os :: "os_call list"

text \<open>The globals of \<open>compat.c\<close> the channels read.\<close>

record proto =
  compat20 :: bool
  compat13 :: bool
  datafellows :: u32

abbreviation SSH_CHANNEL_LARVAL :: int where "SSH_CHANNEL_LARVAL \<equiv> 10"
abbreviation SSH_CHANNEL_ZOMBIE :: int where "SSH_CHANNEL_ZOMBIE \<equiv> 14"
abbreviation CHAN_EXTENDED_WRITE :: nat where "CHAN_EXTENDED_WRITE \<equiv> 2"
abbreviation CHAN_INPUT_OPEN :: nat where "CHAN_INPUT_OPEN \<equiv> 0"
abbreviation CHAN_INPUT_WAIT_DRAIN :: nat where "CHAN_INPUT_WAIT_DRAIN \<equiv> 1"
abbreviation CHAN_INPUT_WAIT_OCLOSE :: nat where "CHAN_INPUT_WAIT_OCLOSE \<equiv> 2"
abbreviation CHAN_INPUT_CLOSED :: nat where "CHAN_INPUT_CLOSED \<equiv> 3"
abbreviation CHAN_OUTPUT_OPEN :: nat where "CHAN_OUTPUT_OPEN \<equiv> 0"
abbreviation CHAN_OUTPUT_WAIT_DRAIN :: nat where "CHAN_OUTPUT_WAIT_DRAIN \<equiv> 1"
abbreviation CHAN_OUTPUT_WAIT_IEOF :: nat where "CHAN_OUTPUT_WAIT_IEOF \<equiv> 2"
abbreviation CHAN_OUTPUT_CLOSED :: nat where "CHAN_OUTPUT_CLOSED \<equiv> 3"
abbreviation CHAN_CLOSE_SENT :: u32 where "CHAN_CLOSE_SENT \<equiv> 0x01"
abbreviation CHAN_CLOSE_RCVD :: u32 where "CHAN_CLOSE_RCVD \<equiv> 0x02"
abbreviation CHAN_EOF_SENT :: u32 where "CHAN_EOF_SENT \<equiv> 0x04"
abbreviation CHAN_EOF_RCVD :: u32 where "CHAN_EOF_RCVD \<equiv> 0x08"
abbreviation CHAN_LOCAL :: u32 where "CHAN_LOCAL \<equiv> 0x10"
abbreviation SSH_BUG_EXTEOF :: u32 where "SSH_BUG_EXTEOF \<equiv> 0x00200000"
abbreviation SSH_NEW_OPENSSH :: u32 where "SSH_NEW_OPENSSH \<equiv> 0x04000000"
abbreviation SSH_MSG_CHANNEL_INPUT_EOF :: byte where "SSH_MSG_CHANNEL_INPUT_EOF \<equiv> 24"
abbreviation SSH_MSG_CHANNEL_OUTPUT_CLOSE :: byte where "SSH_MSG_CHANNEL_OUTPUT_CLOSE \<equiv> 25"
abbreviation SSH2_MSG_CHANNEL_EOF :: byte where "SSH2_MSG_CHANNEL_EOF \<equiv> 96"
abbreviation SSH2_MSG_CHANNEL_CLOSE :: byte where "SSH2_MSG_CHANNEL_CLOSE \<equiv> 97"
abbreviation SSH2_MSG_CHANNEL_REQUEST :: byte where "SSH2_MSG_CHANNEL_REQUEST \<equiv> 98"

unbundle bit_operations_syntax

definition has_flag :: "channel \<Rightarrow> u32 \<Rightarrow> bool" where
  "has_flag c f \<longleftrightarrow> ch_flags c AND f \<noteq> 0"

definition send_msg :: "byte \<Rightarrow> byte list \<Rightarrow> channel \<Rightarrow> channel" where
  "send_msg t payload c = c\<lparr>ch_sent := ch_sent c @ [(t, payload)]\<rparr>"

definition efd_output_active :: "proto \<Rightarrow> channel \<Rightarrow> bool" where
  "efd_output_active env c \<longleftrightarrow>
     compat20 env \<and> ch_extended_usage c = CHAN_EXTENDED_WRITE \<and> ch_efd c \<noteq> -1 \<and>
     (\<not> has_flag c (CHAN_EOF_RCVD OR CHAN_CLOSE_RCVD) \<or> buffer_len (ch_extended c) > 0)"

section \<open>State changes and actions\<close>

definition chan_set_istate :: "channel \<Rightarrow> nat \<Rightarrow> channel result" where
  "chan_set_istate c next =
     (if ch_istate c > CHAN_INPUT_CLOSED \<or> next > CHAN_INPUT_CLOSED
      then Inl (Fatal ''chan_set_istate: bad state'') else Inr (c\<lparr>ch_istate := next\<rparr>))"

definition chan_set_ostate :: "channel \<Rightarrow> nat \<Rightarrow> channel result" where
  "chan_set_ostate c next =
     (if ch_ostate c > CHAN_OUTPUT_CLOSED \<or> next > CHAN_OUTPUT_CLOSED
      then Inl (Fatal ''chan_set_ostate: bad state'') else Inr (c\<lparr>ch_ostate := next\<rparr>))"

text \<open>\<open>channel_close_fd\<close>: an open descriptor is closed and forgotten.\<close>

definition chan_shutdown_write :: "proto \<Rightarrow> channel \<Rightarrow> channel" where
  "chan_shutdown_write env c =
     (let c = c\<lparr>ch_output := buffer_clear (ch_output c)\<rparr> in
      if compat20 env \<and> ch_type c = SSH_CHANNEL_LARVAL then c
      else if ch_sock c \<noteq> -1 then c\<lparr>ch_os := ch_os c @ [ShutWr (ch_sock c)]\<rparr>
      else if ch_wfd c \<noteq> -1 then c\<lparr>ch_os := ch_os c @ [CloseFd (ch_wfd c)], ch_wfd := -1\<rparr>
      else c)"

definition chan_shutdown_read :: "proto \<Rightarrow> channel \<Rightarrow> channel" where
  "chan_shutdown_read env c =
     (if compat20 env \<and> ch_type c = SSH_CHANNEL_LARVAL then c
      else if ch_sock c \<noteq> -1 then c\<lparr>ch_os := ch_os c @ [ShutRd (ch_sock c)]\<rparr>
      else if ch_rfd c \<noteq> -1 then c\<lparr>ch_os := ch_os c @ [CloseFd (ch_rfd c)], ch_rfd := -1\<rparr>
      else c)"

definition chan_send_ieof1 :: "channel \<Rightarrow> channel" where
  "chan_send_ieof1 c =
     (if ch_istate c = CHAN_INPUT_OPEN \<or> ch_istate c = CHAN_INPUT_WAIT_DRAIN
      then send_msg SSH_MSG_CHANNEL_INPUT_EOF (put_u32 (ch_remote_id c)) c else c)"

definition chan_send_oclose1 :: "channel \<Rightarrow> channel" where
  "chan_send_oclose1 c =
     (if ch_ostate c = CHAN_OUTPUT_OPEN \<or> ch_ostate c = CHAN_OUTPUT_WAIT_DRAIN
      then send_msg SSH_MSG_CHANNEL_OUTPUT_CLOSE (put_u32 (ch_remote_id c))
             (c\<lparr>ch_output := buffer_clear (ch_output c)\<rparr>) else c)"

definition chan_send_eof2 :: "channel \<Rightarrow> channel" where
  "chan_send_eof2 c =
     (if ch_istate c = CHAN_INPUT_WAIT_DRAIN
      then (send_msg SSH2_MSG_CHANNEL_EOF (put_u32 (ch_remote_id c)) c)
             \<lparr>ch_flags := ch_flags c OR CHAN_EOF_SENT\<rparr> else c)"

definition chan_send_close2 :: "channel \<Rightarrow> channel" where
  "chan_send_close2 c =
     (if ch_ostate c \<noteq> CHAN_OUTPUT_CLOSED \<or> ch_istate c \<noteq> CHAN_INPUT_CLOSED then c
      else if has_flag c CHAN_CLOSE_SENT then c
      else (send_msg SSH2_MSG_CHANNEL_CLOSE (put_u32 (ch_remote_id c)) c)
             \<lparr>ch_flags := ch_flags c OR CHAN_CLOSE_SENT\<rparr>)"

definition chan_send_eow2 :: "proto \<Rightarrow> channel \<Rightarrow> channel" where
  "chan_send_eow2 env c =
     (if ch_ostate c = CHAN_OUTPUT_CLOSED then c
      else if datafellows env AND SSH_NEW_OPENSSH = 0 then c
      else send_msg SSH2_MSG_CHANNEL_REQUEST
             (put_u32 (ch_remote_id c) @ string_enc (bytes_of ''eow@openssh.com'') @ [0]) c)"

section \<open>Events\<close>

definition chan_rcvd_oclose1 :: "proto \<Rightarrow> channel \<Rightarrow> channel result" where
  "chan_rcvd_oclose1 env c =
     (if ch_istate c = CHAN_INPUT_WAIT_OCLOSE then chan_set_istate c CHAN_INPUT_CLOSED
      else if ch_istate c = CHAN_INPUT_OPEN
      then chan_set_istate (chan_send_ieof1 (chan_shutdown_read env c)) CHAN_INPUT_CLOSED
      else if ch_istate c = CHAN_INPUT_WAIT_DRAIN
      then chan_set_istate (chan_send_ieof1 c) CHAN_INPUT_CLOSED
      else Inr c)"

definition chan_read_failed :: "proto \<Rightarrow> channel \<Rightarrow> channel result" where
  "chan_read_failed env c =
     (if ch_istate c = CHAN_INPUT_OPEN
      then chan_set_istate (chan_shutdown_read env c) CHAN_INPUT_WAIT_DRAIN else Inr c)"

definition chan_ibuf_empty :: "proto \<Rightarrow> channel \<Rightarrow> channel result" where
  "chan_ibuf_empty env c =
     (if buffer_len (ch_input c) \<noteq> 0 then Inr c
      else if ch_istate c = CHAN_INPUT_WAIT_DRAIN then
        if compat20 env then
          chan_set_istate (if \<not> has_flag c (CHAN_CLOSE_SENT OR CHAN_LOCAL) then chan_send_eof2 c else c)
            CHAN_INPUT_CLOSED
        else chan_set_istate (chan_send_ieof1 c) CHAN_INPUT_WAIT_OCLOSE
      else Inr c)"

definition chan_rcvd_ieof1 :: "channel \<Rightarrow> channel result" where
  "chan_rcvd_ieof1 c =
     (if ch_ostate c = CHAN_OUTPUT_OPEN then chan_set_ostate c CHAN_OUTPUT_WAIT_DRAIN
      else if ch_ostate c = CHAN_OUTPUT_WAIT_IEOF then chan_set_ostate c CHAN_OUTPUT_CLOSED
      else Inr c)"

definition chan_write_failed1 :: "proto \<Rightarrow> channel \<Rightarrow> channel result" where
  "chan_write_failed1 env c =
     (if ch_ostate c = CHAN_OUTPUT_OPEN
      then chan_set_ostate (chan_send_oclose1 (chan_shutdown_write env c)) CHAN_OUTPUT_WAIT_IEOF
      else if ch_ostate c = CHAN_OUTPUT_WAIT_DRAIN
      then chan_set_ostate (chan_send_oclose1 (chan_shutdown_write env c)) CHAN_OUTPUT_CLOSED
      else Inr c)"

definition chan_obuf_empty :: "proto \<Rightarrow> channel \<Rightarrow> channel result" where
  "chan_obuf_empty env c =
     (if buffer_len (ch_output c) \<noteq> 0 then Inr c
      else if ch_ostate c = CHAN_OUTPUT_WAIT_DRAIN then
        let c1 = chan_shutdown_write env c;
            c2 = (if \<not> compat20 env then chan_send_oclose1 c1 else c1)
        in chan_set_ostate c2 CHAN_OUTPUT_CLOSED
      else Inr c)"

definition chan_rcvd_close2 :: "proto \<Rightarrow> channel \<Rightarrow> channel result" where
  "chan_rcvd_close2 env c =
     (let c = (if \<not> has_flag c CHAN_LOCAL then c\<lparr>ch_flags := ch_flags c OR CHAN_CLOSE_RCVD\<rparr> else c) in
      if ch_type c = SSH_CHANNEL_LARVAL then
        rbind (chan_set_ostate c CHAN_OUTPUT_CLOSED) (\<lambda>c. chan_set_istate c CHAN_INPUT_CLOSED)
      else
        rbind (if ch_ostate c = CHAN_OUTPUT_OPEN
               then chan_set_ostate c CHAN_OUTPUT_WAIT_DRAIN else Inr c)
          (\<lambda>c. if ch_istate c = CHAN_INPUT_OPEN
                then chan_set_istate (chan_shutdown_read env c) CHAN_INPUT_CLOSED
                else if ch_istate c = CHAN_INPUT_WAIT_DRAIN
                then chan_set_istate (if \<not> has_flag c CHAN_LOCAL then chan_send_eof2 c else c)
                       CHAN_INPUT_CLOSED
                else Inr c))"

definition chan_rcvd_eow :: "proto \<Rightarrow> channel \<Rightarrow> channel result" where
  "chan_rcvd_eow env c =
     (if ch_istate c = CHAN_INPUT_OPEN
      then chan_set_istate (chan_shutdown_read env c) CHAN_INPUT_CLOSED else Inr c)"

definition chan_rcvd_eof2 :: "channel \<Rightarrow> channel result" where
  "chan_rcvd_eof2 c =
     (let c = c\<lparr>ch_flags := ch_flags c OR CHAN_EOF_RCVD\<rparr> in
      if ch_ostate c = CHAN_OUTPUT_OPEN then chan_set_ostate c CHAN_OUTPUT_WAIT_DRAIN else Inr c)"

definition chan_write_failed2 :: "proto \<Rightarrow> channel \<Rightarrow> channel result" where
  "chan_write_failed2 env c =
     (if ch_ostate c = CHAN_OUTPUT_OPEN \<or> ch_ostate c = CHAN_OUTPUT_WAIT_DRAIN then
        let c1 = chan_shutdown_write env c;
            c2 = (if ch_ctype c1 = ''session'' then chan_send_eow2 env c1 else c1)
        in chan_set_ostate c2 CHAN_OUTPUT_CLOSED
      else Inr c)"

definition chan_rcvd_ieof :: "proto \<Rightarrow> channel \<Rightarrow> channel result" where
  "chan_rcvd_ieof env c =
     rbind (if compat20 env then chan_rcvd_eof2 c else chan_rcvd_ieof1 c)
       (\<lambda>c. if ch_ostate c = CHAN_OUTPUT_WAIT_DRAIN \<and> buffer_len (ch_output c) = 0 \<and>
               \<not> efd_output_active env c
             then chan_obuf_empty env c else Inr c)"

definition chan_rcvd_oclose :: "proto \<Rightarrow> channel \<Rightarrow> channel result" where
  "chan_rcvd_oclose env c = (if compat20 env then chan_rcvd_close2 env c else chan_rcvd_oclose1 env c)"

definition chan_write_failed :: "proto \<Rightarrow> channel \<Rightarrow> channel result" where
  "chan_write_failed env c = (if compat20 env then chan_write_failed2 env c else chan_write_failed1 env c)"

definition chan_mark_dead :: "channel \<Rightarrow> channel" where
  "chan_mark_dead c = c\<lparr>ch_type := SSH_CHANNEL_ZOMBIE\<rparr>"

definition chan_is_dead :: "proto \<Rightarrow> channel \<Rightarrow> bool \<Rightarrow> bool \<times> channel" where
  "chan_is_dead env c do_send =
     (if ch_type c = SSH_CHANNEL_ZOMBIE then (True, c)
      else if ch_istate c \<noteq> CHAN_INPUT_CLOSED \<or> ch_ostate c \<noteq> CHAN_OUTPUT_CLOSED then (False, c)
      else if \<not> compat20 env then (True, c)
      else if datafellows env AND SSH_BUG_EXTEOF \<noteq> 0 \<and> ch_extended_usage c = CHAN_EXTENDED_WRITE \<and>
              ch_efd c \<noteq> -1 \<and> buffer_len (ch_extended c) > 0 then (False, c)
      else if has_flag c CHAN_LOCAL then (True, c)
      else if \<not> has_flag c CHAN_CLOSE_SENT \<and> \<not> do_send \<and> has_flag c CHAN_CLOSE_RCVD then (True, c)
      else
        let c = (if \<not> has_flag c CHAN_CLOSE_SENT \<and> do_send then chan_send_close2 c else c) in
        (has_flag c CHAN_CLOSE_SENT \<and> has_flag c CHAN_CLOSE_RCVD, c))"

section \<open>The machine\<close>

text \<open>
  One step of a channel: an event of \<open>nchan.c\<close>, or input/output by the rest of the program,
  which moves data through the buffers, may close the extended descriptor and may change
  the channel's type, but never touches states, flags or what was sent. \<open>eow@openssh.com\<close> requests only exist in
  protocol 2.
\<close>

inductive chan_step :: "proto \<Rightarrow> channel \<Rightarrow> channel \<Rightarrow> bool" for env where
  read_failed: "chan_read_failed env c = Inr c' \<Longrightarrow> chan_step env c c'"
| ibuf_empty: "chan_ibuf_empty env c = Inr c' \<Longrightarrow> chan_step env c c'"
| rcvd_ieof: "chan_rcvd_ieof env c = Inr c' \<Longrightarrow> chan_step env c c'"
| rcvd_oclose: "chan_rcvd_oclose env c = Inr c' \<Longrightarrow> chan_step env c c'"
| write_failed: "chan_write_failed env c = Inr c' \<Longrightarrow> chan_step env c c'"
| obuf_empty: "chan_obuf_empty env c = Inr c' \<Longrightarrow> chan_step env c c'"
| rcvd_eow: "compat20 env \<Longrightarrow> chan_rcvd_eow env c = Inr c' \<Longrightarrow> chan_step env c c'"
| is_dead: "chan_is_dead env c do_send = (dead, c') \<Longrightarrow> chan_step env c c'"
| mark_dead: "chan_step env c (chan_mark_dead c)"
| data: "chan_step env c (c\<lparr>ch_input := i, ch_output := out, ch_extended := e, ch_efd := f, ch_type := t\<rparr>)"

definition chan_fresh :: "channel \<Rightarrow> bool" where
  "chan_fresh c \<longleftrightarrow> ch_istate c = CHAN_INPUT_OPEN \<and> ch_ostate c = CHAN_OUTPUT_OPEN \<and>
     (ch_flags c = 0 \<or> ch_flags c = CHAN_LOCAL) \<and> ch_sent c = []"

definition sent_types :: "channel \<Rightarrow> byte list" where
  "sent_types c = map fst (ch_sent c)"

section \<open>Flags\<close>

lemma and_exp_nonzero: "(x :: u32) AND 2 ^ n \<noteq> 0 \<longleftrightarrow> bit x n"
  by (simp add: and_exp_eq_0_iff_not_bit)

lemma has_flag_simps [simp]:
  "has_flag c 1 \<longleftrightarrow> bit (ch_flags c) 0"
  "has_flag c 2 \<longleftrightarrow> bit (ch_flags c) 1"
  "has_flag c 4 \<longleftrightarrow> bit (ch_flags c) 2"
  "has_flag c 8 \<longleftrightarrow> bit (ch_flags c) 3"
  "has_flag c 0x10 \<longleftrightarrow> bit (ch_flags c) 4"
  using and_exp_nonzero [of "ch_flags c" 0] and_exp_nonzero [of "ch_flags c" 1]
    and_exp_nonzero [of "ch_flags c" 2] and_exp_nonzero [of "ch_flags c" 3]
    and_exp_nonzero [of "ch_flags c" 4]
  by (simp_all add: has_flag_def)

lemma has_flag_or: "has_flag c (f OR g) \<longleftrightarrow> has_flag c f \<or> has_flag c g"
  by (auto simp: has_flag_def bit.conj_disj_distrib or_eq_0_iff)

lemma has_flag_sent_local [simp]:
  "has_flag c 0x11 \<longleftrightarrow> bit (ch_flags c) 0 \<or> bit (ch_flags c) 4"
proof -
  have "(0x11 :: u32) = 1 OR 0x10" by simp
  then show ?thesis using has_flag_or [of c 1 "0x10"] by (simp del: or_numerals)
qed

section \<open>What each operation may change\<close>

lemma send_msg_simps [simp]:
  "ch_istate (send_msg t p c) = ch_istate c" "ch_ostate (send_msg t p c) = ch_ostate c"
  "ch_flags (send_msg t p c) = ch_flags c" "ch_type (send_msg t p c) = ch_type c"
  "sent_types (send_msg t p c) = sent_types c @ [t]" "ch_ctype (send_msg t p c) = ch_ctype c"
  by (simp_all add: send_msg_def sent_types_def)

lemma shutdown_simps [simp]:
  "ch_istate (chan_shutdown_read env c) = ch_istate c"
  "ch_ostate (chan_shutdown_read env c) = ch_ostate c"
  "ch_flags (chan_shutdown_read env c) = ch_flags c"
  "sent_types (chan_shutdown_read env c) = sent_types c"
  "ch_istate (chan_shutdown_write env c) = ch_istate c"
  "ch_ostate (chan_shutdown_write env c) = ch_ostate c"
  "ch_flags (chan_shutdown_write env c) = ch_flags c"
  "sent_types (chan_shutdown_write env c) = sent_types c"
  by (simp_all add: chan_shutdown_read_def chan_shutdown_write_def sent_types_def Let_def)

lemma sent_types_update [simp]:
  "sent_types (c\<lparr>ch_istate := i\<rparr>) = sent_types c" "sent_types (c\<lparr>ch_ostate := j\<rparr>) = sent_types c"
  "sent_types (c\<lparr>ch_flags := f\<rparr>) = sent_types c" "sent_types (c\<lparr>ch_output := b\<rparr>) = sent_types c"
  "sent_types (c\<lparr>ch_input := b\<rparr>) = sent_types c" "sent_types (c\<lparr>ch_extended := b\<rparr>) = sent_types c"
  "sent_types (c\<lparr>ch_efd := fd\<rparr>) = sent_types c" "sent_types (c\<lparr>ch_type := t\<rparr>) = sent_types c"
  by (simp_all add: sent_types_def)

lemma chan_set_istate_Inr [simp]:
  "chan_set_istate c n = Inr c' \<longleftrightarrow>
     ch_istate c \<le> CHAN_INPUT_CLOSED \<and> n \<le> CHAN_INPUT_CLOSED \<and> c' = c\<lparr>ch_istate := n\<rparr>"
  by (auto simp: chan_set_istate_def)

lemma chan_set_ostate_Inr [simp]:
  "chan_set_ostate c n = Inr c' \<longleftrightarrow>
     ch_ostate c \<le> CHAN_OUTPUT_CLOSED \<and> n \<le> CHAN_OUTPUT_CLOSED \<and> c' = c\<lparr>ch_ostate := n\<rparr>"
  by (auto simp: chan_set_ostate_def)

lemmas event_defs = chan_read_failed_def chan_ibuf_empty_def
  chan_obuf_empty_def chan_rcvd_eow_def chan_mark_dead_def chan_is_dead_def

lemmas event1_defs = chan_send_ieof1_def chan_send_oclose1_def chan_rcvd_oclose1_def
  chan_rcvd_ieof1_def chan_write_failed1_def

lemmas event2_defs = chan_send_eof2_def chan_send_close2_def chan_send_eow2_def chan_rcvd_close2_def
  chan_rcvd_eof2_def chan_write_failed2_def

section \<open>Protocol 2\<close>

text \<open>
  What the flags say about the messages sent, and that nothing follows a CLOSE.
\<close>

definition chan_inv2 :: "channel \<Rightarrow> bool" where
  "chan_inv2 c \<longleftrightarrow>
     ch_istate c \<in> {CHAN_INPUT_OPEN, CHAN_INPUT_WAIT_DRAIN, CHAN_INPUT_CLOSED} \<and>
     ch_ostate c \<in> {CHAN_OUTPUT_OPEN, CHAN_OUTPUT_WAIT_DRAIN, CHAN_OUTPUT_CLOSED} \<and>
     count_list (sent_types c) SSH2_MSG_CHANNEL_EOF = of_bool (bit (ch_flags c) 2) \<and>
     count_list (sent_types c) SSH2_MSG_CHANNEL_CLOSE = of_bool (bit (ch_flags c) 0) \<and>
     (bit (ch_flags c) 2 \<longrightarrow> ch_istate c = CHAN_INPUT_CLOSED) \<and>
     (bit (ch_flags c) 0 \<longrightarrow> ch_istate c = CHAN_INPUT_CLOSED \<and> ch_ostate c = CHAN_OUTPUT_CLOSED \<and>
        last (sent_types c) = SSH2_MSG_CHANNEL_CLOSE) \<and>
     (bit (ch_flags c) 4 \<longrightarrow> \<not> bit (ch_flags c) 0 \<and> \<not> bit (ch_flags c) 2)"

lemma count_list_snoc: "count_list (xs @ [y]) x = count_list xs x + (if x = y then 1 else 0)"
  by simp

lemma inv2_fresh: "chan_fresh c \<Longrightarrow> chan_inv2 c"
  by (auto simp: chan_fresh_def chan_inv2_def sent_types_def)

lemma inv2_read_failed: "chan_inv2 c \<Longrightarrow> chan_read_failed env c = Inr c' \<Longrightarrow> chan_inv2 c'"
  by (auto simp: chan_inv2_def event_defs split: if_splits)

lemma inv2_set_rcvd:
  "chan_inv2 c \<Longrightarrow> chan_inv2 (c\<lparr>ch_flags := ch_flags c OR CHAN_CLOSE_RCVD\<rparr>)"
  "chan_inv2 c \<Longrightarrow> chan_inv2 (c\<lparr>ch_flags := ch_flags c OR CHAN_EOF_RCVD\<rparr>)"
  by (simp_all add: chan_inv2_def bit_or_iff)

lemma inv2_set_ostate:
  "chan_inv2 c \<Longrightarrow> ch_ostate c = CHAN_OUTPUT_OPEN \<Longrightarrow> chan_inv2 (c\<lparr>ch_ostate := CHAN_OUTPUT_WAIT_DRAIN\<rparr>)"
  "chan_inv2 c \<Longrightarrow> chan_inv2 (c\<lparr>ch_ostate := CHAN_OUTPUT_CLOSED\<rparr>)"
  by (simp_all add: chan_inv2_def)

lemma inv2_set_istate: "chan_inv2 c \<Longrightarrow> chan_inv2 (c\<lparr>ch_istate := CHAN_INPUT_CLOSED\<rparr>)"
  by (simp add: chan_inv2_def)

lemma inv2_shutdown:
  "chan_inv2 c \<Longrightarrow> chan_inv2 (chan_shutdown_read env c)"
  "chan_inv2 c \<Longrightarrow> chan_inv2 (chan_shutdown_write env c)"
  by (simp_all add: chan_inv2_def)

lemma inv2_drained:
  assumes "chan_inv2 c" "ch_istate c = CHAN_INPUT_WAIT_DRAIN" "\<not> bit (ch_flags c) 4"
  shows "chan_inv2 ((chan_send_eof2 c)\<lparr>ch_istate := CHAN_INPUT_CLOSED\<rparr>)"
  using assms by (simp add: chan_inv2_def chan_send_eof2_def bit_or_iff)

lemma inv2_ibuf_empty:
  "compat20 env \<Longrightarrow> chan_inv2 c \<Longrightarrow> chan_ibuf_empty env c = Inr c' \<Longrightarrow> chan_inv2 c'"
  by (simp add: chan_ibuf_empty_def inv2_drained inv2_set_istate split: if_splits)

lemma inv2_obuf_empty:
  "compat20 env \<Longrightarrow> chan_inv2 c \<Longrightarrow> chan_obuf_empty env c = Inr c' \<Longrightarrow> chan_inv2 c'"
  by (simp add: chan_obuf_empty_def Let_def inv2_set_ostate inv2_shutdown split: if_splits)

lemma inv2_rcvd_eof2:
  assumes "chan_inv2 c" and "chan_rcvd_eof2 c = Inr c'"
  shows "chan_inv2 c'"
  using assms(2) inv2_set_rcvd(2) [OF assms(1)]
    inv2_set_ostate(1) [OF inv2_set_rcvd(2) [OF assms(1)]]
  by (simp add: chan_rcvd_eof2_def Let_def split: if_splits)

lemma inv2_input_closed:
  assumes inv: "chan_inv2 c"
    and r: "(if ch_istate c = CHAN_INPUT_OPEN
        then chan_set_istate (chan_shutdown_read env c) CHAN_INPUT_CLOSED
        else if ch_istate c = CHAN_INPUT_WAIT_DRAIN
        then chan_set_istate (if \<not> has_flag c CHAN_LOCAL then chan_send_eof2 c else c) CHAN_INPUT_CLOSED
        else Inr c) = Inr c'"
  shows "chan_inv2 c'"
  using r inv inv2_drained [OF inv] inv2_set_istate [OF inv] inv2_set_istate [OF inv2_shutdown(1) [OF inv]]
  by (simp split: if_splits)

lemma inv2_rcvd_close2:
  assumes inv: "chan_inv2 c" and r: "chan_rcvd_close2 env c = Inr c'"
  shows "chan_inv2 c'"
proof -
  define d where "d = (if \<not> has_flag c CHAN_LOCAL then c\<lparr>ch_flags := ch_flags c OR CHAN_CLOSE_RCVD\<rparr> else c)"
  have d: "chan_inv2 d" using inv inv2_set_rcvd(1) [OF inv] by (simp add: d_def)
  note r' = r [unfolded chan_rcvd_close2_def Let_def, folded d_def]
  show ?thesis
  proof (cases "ch_type d = SSH_CHANNEL_LARVAL")
    case True
    then have "c' = d\<lparr>ch_ostate := CHAN_OUTPUT_CLOSED, ch_istate := CHAN_INPUT_CLOSED\<rparr>"
      using r' by simp
    then show ?thesis using inv2_set_istate [OF inv2_set_ostate(2) [OF d]] by simp
  next
    case False
    then obtain e where "(if ch_ostate d = CHAN_OUTPUT_OPEN
        then chan_set_ostate d CHAN_OUTPUT_WAIT_DRAIN else Inr d) = Inr e"
      and e: "(if ch_istate e = CHAN_INPUT_OPEN
        then chan_set_istate (chan_shutdown_read env e) CHAN_INPUT_CLOSED
        else if ch_istate e = CHAN_INPUT_WAIT_DRAIN
        then chan_set_istate (if \<not> has_flag e CHAN_LOCAL then chan_send_eof2 e else e) CHAN_INPUT_CLOSED
        else Inr e) = Inr c'"
      using r' by (auto simp only: rbind_eq_Inr if_False)
    then have "chan_inv2 e" using d inv2_set_ostate(1) [OF d] by (simp split: if_splits)
    then show ?thesis using e by (rule inv2_input_closed)
  qed
qed

lemma inv2_send_eow2: "chan_inv2 c \<Longrightarrow> chan_inv2 (chan_send_eow2 env c)"
  by (simp add: chan_inv2_def chan_send_eow2_def) auto

lemma inv2_write_failed2:
  "chan_inv2 c \<Longrightarrow> chan_write_failed2 env c = Inr c' \<Longrightarrow> chan_inv2 c'"
  by (simp add: chan_write_failed2_def Let_def inv2_set_ostate inv2_send_eow2 inv2_shutdown split: if_splits)

lemma inv2_rcvd_eow: "chan_inv2 c \<Longrightarrow> chan_rcvd_eow env c = Inr c' \<Longrightarrow> chan_inv2 c'"
  by (simp add: chan_rcvd_eow_def inv2_set_istate inv2_shutdown split: if_splits)

lemma inv2_send_close2: "chan_inv2 c \<Longrightarrow> \<not> bit (ch_flags c) 4 \<Longrightarrow> chan_inv2 (chan_send_close2 c)"
  by (simp add: chan_inv2_def chan_send_close2_def bit_or_iff)

lemma inv2_is_dead: "chan_inv2 c \<Longrightarrow> chan_is_dead env c do_send = (dead, c') \<Longrightarrow> chan_inv2 c'"
  by (simp add: chan_is_dead_def Let_def split: if_splits) (auto intro: inv2_send_close2)

lemma inv2_rcvd_ieof:
  "compat20 env \<Longrightarrow> chan_inv2 c \<Longrightarrow> chan_rcvd_ieof env c = Inr c' \<Longrightarrow> chan_inv2 c'"
  by (auto simp: chan_rcvd_ieof_def split: if_splits intro: inv2_rcvd_eof2 inv2_obuf_empty)

lemma inv2_step: "chan_step env c c' \<Longrightarrow> compat20 env \<Longrightarrow> chan_inv2 c \<Longrightarrow> chan_inv2 c'"
proof (induction rule: chan_step.induct)
  case (mark_dead c)
  then show ?case by (simp add: chan_inv2_def chan_mark_dead_def)
next
  case (data c i out e f t)
  then show ?case by (simp add: chan_inv2_def)
qed (auto simp: chan_rcvd_oclose_def chan_write_failed_def intro: inv2_read_failed inv2_ibuf_empty
      inv2_rcvd_ieof inv2_rcvd_close2 inv2_write_failed2 inv2_obuf_empty inv2_rcvd_eow inv2_is_dead)

lemma inv2_steps: "(chan_step env)\<^sup>*\<^sup>* c c' \<Longrightarrow> compat20 env \<Longrightarrow> chan_inv2 c \<Longrightarrow> chan_inv2 c'"
  by (induction rule: rtranclp_induct) (auto intro: inv2_step)

lemma once_and_last:
  assumes "count_list ts x \<le> 1" and "x \<in> set ts \<Longrightarrow> last ts = x" and "ts = pre @ x # suf"
  shows "suf = []"
proof (rule ccontr)
  assume "suf \<noteq> []"
  then have "last suf = x" using assms(2,3) by simp
  then have "x \<in> set suf" using \<open>suf \<noteq> []\<close> by (metis last_in_set)
  then have "count_list suf x \<ge> 1" by (simp add: Suc_le_eq count_list_0_iff flip: neq0_conv)
  then show False using assms(1,3) by simp
qed

section \<open>Protocol 1\<close>

text \<open>The half-close messages sent are a function of the states.\<close>

definition chan_inv1 :: "channel \<Rightarrow> bool" where
  "chan_inv1 c \<longleftrightarrow> ch_istate c \<le> CHAN_INPUT_CLOSED \<and> ch_ostate c \<le> CHAN_OUTPUT_CLOSED \<and>
     count_list (sent_types c) SSH_MSG_CHANNEL_INPUT_EOF =
       of_bool (ch_istate c = CHAN_INPUT_WAIT_OCLOSE \<or> ch_istate c = CHAN_INPUT_CLOSED) \<and>
     count_list (sent_types c) SSH_MSG_CHANNEL_OUTPUT_CLOSE =
       of_bool (ch_ostate c = CHAN_OUTPUT_WAIT_IEOF \<or> ch_ostate c = CHAN_OUTPUT_CLOSED)"

lemma inv1_fresh: "chan_fresh c \<Longrightarrow> chan_inv1 c"
  by (auto simp: chan_fresh_def chan_inv1_def sent_types_def)

lemma inv1_event:
  assumes "\<not> compat20 env" and "chan_inv1 c"
  shows "chan_read_failed env c = Inr c' \<Longrightarrow> chan_inv1 c'"
    and "chan_ibuf_empty env c = Inr c' \<Longrightarrow> chan_inv1 c'"
    and "chan_obuf_empty env c = Inr c' \<Longrightarrow> chan_inv1 c'"
    and "chan_rcvd_oclose1 env c = Inr c' \<Longrightarrow> chan_inv1 c'"
    and "chan_rcvd_ieof1 c = Inr c' \<Longrightarrow> chan_inv1 c'"
    and "chan_write_failed1 env c = Inr c' \<Longrightarrow> chan_inv1 c'"
  using assms by (simp_all add: chan_inv1_def event_defs event1_defs Let_def split: if_splits)

lemma inv1_is_dead:
  "\<not> compat20 env \<Longrightarrow> chan_is_dead env c do_send = (dead, c') \<Longrightarrow> c' = c"
  by (simp add: chan_is_dead_def split: if_splits)

lemma inv1_rcvd_ieof:
  "\<not> compat20 env \<Longrightarrow> chan_inv1 c \<Longrightarrow> chan_rcvd_ieof env c = Inr c' \<Longrightarrow> chan_inv1 c'"
  by (auto simp: chan_rcvd_ieof_def split: if_splits intro: inv1_event(3,5))

lemma inv1_step: "chan_step env c c' \<Longrightarrow> \<not> compat20 env \<Longrightarrow> chan_inv1 c \<Longrightarrow> chan_inv1 c'"
proof (induction rule: chan_step.induct)
  case (mark_dead c)
  then show ?case by (simp add: chan_inv1_def chan_mark_dead_def)
next
  case (data c i out e f t)
  then show ?case by (simp add: chan_inv1_def)
qed (auto simp: chan_rcvd_oclose_def chan_write_failed_def dest: inv1_is_dead
      intro: inv1_event inv1_rcvd_ieof)

lemma inv1_steps: "(chan_step env)\<^sup>*\<^sup>* c c' \<Longrightarrow> \<not> compat20 env \<Longrightarrow> chan_inv1 c \<Longrightarrow> chan_inv1 c'"
  by (induction rule: rtranclp_induct) (auto intro: inv1_step)

section \<open>Properties\<close>


definition demo_channel :: channel where
  "demo_channel = \<lparr>ch_type = 4, ch_self = 0, ch_remote_id = 7, ch_istate = 0, ch_ostate = 0,
     ch_flags = 0, ch_rfd = 5, ch_wfd = 6, ch_efd = -1, ch_sock = -1, ch_input = buffer_init,
     ch_output = buffer_init, ch_extended = buffer_init, ch_extended_usage = 0,
     ch_remote_window = 0, ch_remote_maxpacket = 0, ch_local_window = 0, ch_local_window_max = 0,
     ch_local_consumed = 0, ch_local_maxpacket = 0, ch_ctype = ''session'',
     ch_isatty = False, ch_force_drain = False, ch_delayed = False, ch_path = None, ch_listening_port = 0, ch_host_port = 0,
     ch_remote_name = [], ch_detach_close = False,
     ch_datagram = False, ch_sent = [], ch_os = []\<rparr>"

definition demo_closed :: channel where
  "demo_closed = demo_channel\<lparr>ch_istate := 3, ch_ostate := 3, ch_flags := 7, ch_rfd := -1, ch_wfd := -1,
     ch_output := buffer_clear buffer_init,
     ch_sent := [(96, [0, 0, 0, 7]), (97, [0, 0, 0, 7])], ch_os := [CloseFd 5, CloseFd 6]\<rparr>"

lemma demo_run:
  "(chan_step \<lparr>compat20 = True, compat13 = False, datafellows = 0\<rparr>)\<^sup>*\<^sup>* demo_channel demo_closed"
proof -
  let ?e = "\<lparr>compat20 = True, compat13 = False, datafellows = 0\<rparr>"
  let ?c1 = "demo_channel\<lparr>ch_istate := 1, ch_rfd := -1, ch_os := [CloseFd 5]\<rparr>"
  let ?c2 = "?c1\<lparr>ch_istate := 3, ch_flags := 4, ch_sent := [(96, [0, 0, 0, 7])]\<rparr>"
  let ?c3 = "?c2\<lparr>ch_ostate := 1, ch_flags := 6\<rparr>"
  let ?c4 = "?c3\<lparr>ch_ostate := 3, ch_wfd := -1, ch_output := buffer_clear buffer_init,
    ch_os := [CloseFd 5, CloseFd 6]\<rparr>"
  have l: "buffer_len buffer_init = 0" by (simp add: buffer_len_def buffer_init_def)
  have "chan_step ?e demo_channel ?c1"
    by (rule chan_step.read_failed) (simp add: demo_channel_def chan_read_failed_def chan_shutdown_read_def)
  moreover have "chan_step ?e ?c1 ?c2"
    by (rule chan_step.ibuf_empty)
      (simp add: demo_channel_def chan_ibuf_empty_def chan_send_eof2_def send_msg_def l put_u32_def)
  moreover have "chan_step ?e ?c2 ?c3"
    by (rule chan_step.rcvd_oclose)
      (simp add: demo_channel_def chan_rcvd_oclose_def chan_rcvd_close2_def)
  moreover have "chan_step ?e ?c3 ?c4"
    by (rule chan_step.obuf_empty)
      (simp add: demo_channel_def chan_obuf_empty_def chan_shutdown_write_def l)
  moreover have "chan_is_dead ?e ?c4 True = (True, demo_closed)"
    by (simp add: demo_closed_def demo_channel_def chan_is_dead_def chan_send_close2_def send_msg_def put_u32_def)
  then have "chan_step ?e ?c4 demo_closed" by (rule chan_step.is_dead)
  ultimately show ?thesis by (meson converse_rtranclp_into_rtranclp rtranclp.rtrancl_refl)
qed

lemma demo_fresh: "chan_fresh demo_channel"
  by (simp add: chan_fresh_def demo_channel_def)






end
