(* ===== verification/Inet.thy ===== *)
theory Inet
  imports Scan
begin

text \<open>
  Text form of internet addresses, \<open>openbsd-compat/inet_ntop.c\<close> and \<open>inet_ntoa.c\<close>. Addresses are lists
  of bytes in network order; the text has no NUL at its end. A null pointer is \<open>None\<close>.
\<close>

abbreviation AF_INET :: int where "AF_INET \<equiv> 2"
abbreviation AF_INET6 :: int where "AF_INET6 \<equiv> 10"
abbreviation INET6_ADDRSTRLEN :: nat where "INET6_ADDRSTRLEN \<equiv> 46"

text \<open>\<open>%x\<close>\<close>

fun print_hex :: "nat \<Rightarrow> byte list" where
  "print_hex n = (let d = n mod 16; c = of_nat (if d < 10 then 48 + d else 87 + d) in
     if n < 16 then [c] else print_hex (n div 16) @ [c])"

declare print_hex.simps [simp del]

definition dotted :: "byte list \<Rightarrow> byte list" where
  "dotted a = print_nat (unat (a ! 0)) @ [46] @ print_nat (unat (a ! 1)) @ [46] @ print_nat (unat (a ! 2)) @ [46] @
     print_nat (unat (a ! 3))"

definition inet_ntoa :: "byte list \<Rightarrow> byte list" where
  "inet_ntoa a = take 17 (dotted a)"

definition inet_ntop4 :: "byte list \<Rightarrow> nat \<Rightarrow> byte list option" where
  "inet_ntop4 src sz = (if length (dotted src) \<ge> sz then None else Some (dotted src))"

section \<open>Version 6\<close>

definition words6 :: "byte list \<Rightarrow> nat list" where
  "words6 src = map (\<lambda>i. unat (src ! (2 * i)) * 256 + unat (src ! (2 * i + 1))) [0..<8]"

text \<open>A run is its first word and its length.\<close>

definition better :: "int \<times> int \<Rightarrow> int \<times> int \<Rightarrow> int \<times> int" where
  "better best cur = (if fst best = -1 \<or> snd cur > snd best then cur else best)"

definition run_step :: "nat list \<Rightarrow> nat \<Rightarrow> (int \<times> int) \<times> int \<times> int \<Rightarrow> (int \<times> int) \<times> int \<times> int" where
  "run_step words i = (\<lambda>(best, cur).
     if words ! i = 0 then (best, if fst cur = -1 then (int i, 1) else (fst cur, snd cur + 1))
     else if fst cur \<noteq> -1 then (better best cur, -1, snd cur) else (best, cur))"

definition best_run :: "nat list \<Rightarrow> int \<times> int" where
  "best_run words =
     (let (best, cur) = fold (run_step words) [0..<8] ((-1, 0), -1, 0);
          best = (if fst cur \<noteq> -1 then better best cur else best)
      in if fst best \<noteq> -1 \<and> snd best < 2 then (-1, snd best) else best)"

text \<open>Text is put into an array of 46 bytes.\<close>

definition put6 :: "byte \<Rightarrow> byte list \<Rightarrow> byte list option" where
  "put6 c out = (if length out + 1 \<ge> 46 then None else Some (out @ [c]))"

fun ntop6_loop :: "int \<times> int \<Rightarrow> nat list \<Rightarrow> byte list \<Rightarrow> nat list \<Rightarrow> byte list \<Rightarrow> byte list option" where
  "ntop6_loop best words src [] out = Some out"
| "ntop6_loop best words src (i # is) out =
     (if length out \<ge> 46 then Some out
      else if fst best \<noteq> -1 \<and> int i \<ge> fst best \<and> int i < fst best + snd best
      then (if int i = fst best then Option.bind (put6 58 out) (ntop6_loop best words src is)
            else ntop6_loop best words src is out)
      else Option.bind (if i \<noteq> 0 then put6 58 out else Some out) (\<lambda>out.
        if i = 6 \<and> fst best = 0 \<and> (snd best = 6 \<or> snd best = 5 \<and> words ! 5 = 0xffff)
        then Option.bind (inet_ntop4 (drop 12 src) (46 - length out)) (\<lambda>t. Some (out @ t))
        else let t = print_hex (words ! i) in
             if length t \<ge> 46 - length out then None else ntop6_loop best words src is (out @ t)))"

definition inet_ntop6 :: "byte list \<Rightarrow> nat \<Rightarrow> byte list option" where
  "inet_ntop6 src sz =
     (let words = words6 src; best = best_run words in
      Option.bind (ntop6_loop best words src [0..<8] []) (\<lambda>out.
      Option.bind (if fst best \<noteq> -1 \<and> fst best + snd best = 8 then put6 58 out else Some out) (\<lambda>out.
        if length out + 1 \<ge> 46 then None
        else if length out + 1 > sz then None else Some out)))"

definition inet_ntop :: "int \<Rightarrow> byte list \<Rightarrow> nat \<Rightarrow> byte list option" where
  "inet_ntop af src sz =
     (if af = AF_INET then inet_ntop4 src sz else if af = AF_INET6 then inet_ntop6 src sz else None)"

section \<open>The array is large enough\<close>

lemma length_print_nat: "n < 1000 \<Longrightarrow> length (print_nat n) \<le> 3"
proof -
  assume "n < 1000"
  then have "n div 10 < 100" "n div 10 div 10 < 10" by auto
  then show ?thesis
    by (subst print_nat.simps, subst print_nat.simps, subst print_nat.simps) auto
qed

lemma length_dotted: "length (dotted a) \<le> 15"
proof -
  have "length (print_nat (unat (b :: byte))) \<le> 3" for b
    using unsigned_less [of b, where 'a = nat] by (intro length_print_nat) simp
  from this [of "a ! 0"] this [of "a ! 1"] this [of "a ! 2"] this [of "a ! 3"] show ?thesis by (simp add: dotted_def)
qed

lemma length_print_hex: "n < 65536 \<Longrightarrow> length (print_hex n) \<le> 4"
proof -
  assume "n < 65536"
  then have "n div 16 < 4096" "n div 16 div 16 < 256" "n div 16 div 16 div 16 < 16" by auto
  then show ?thesis
    by (subst print_hex.simps, subst print_hex.simps, subst print_hex.simps, subst print_hex.simps) (auto simp: Let_def)
qed

text \<open>The words of the best run before \<open>i\<close>; the text has at most one byte for each of them and five for
  the others.\<close>

definition run_before :: "int \<times> int \<Rightarrow> nat \<Rightarrow> nat" where
  "run_before best i = (if fst best = -1 then 0 else card {j. j < i \<and> fst best \<le> int j \<and> int j < fst best + snd best})"

lemma run_before_Suc:
  "run_before best (Suc i) =
    run_before best i + (if fst best \<noteq> -1 \<and> fst best \<le> int i \<and> int i < fst best + snd best then 1 else 0)"
proof -
  let ?P = "\<lambda>j. fst best \<le> int j \<and> int j < fst best + snd best"
  have "{j. j < Suc i \<and> ?P j} = {j. j < i \<and> ?P j} \<union> (if ?P i then {i} else {})" by (auto simp: less_Suc_eq)
  then show ?thesis by (auto simp: run_before_def)
qed

lemma run_before_0 [simp]: "run_before best 0 = 0"
  by (simp add: run_before_def)

lemma run_before_6:
  assumes "fst best = 0" and "snd best \<ge> 5"
  shows "run_before best 6 \<ge> 5"
proof -
  have "{0..<5} \<subseteq> {j. j < 6 \<and> fst best \<le> int j \<and> int j < fst best + snd best}" using assms by auto
  then have "card {0..<5 :: nat} \<le> card {j. j < 6 \<and> fst best \<le> int j \<and> int j < fst best + snd best}"
    by (intro card_mono) auto
  then show ?thesis using assms(1) by (simp add: run_before_def)
qed

lemma loop6_fits:
  assumes "\<forall>i < 8. words ! i < 65536" and "i \<le> 8" and "length out + 4 * run_before best i \<le> 5 * i"
  shows "\<exists>t. ntop6_loop best words src [i..<8] out = Some t \<and> length t \<le> 40"
  using assms(2,3)
proof (induction "8 - i" arbitrary: i out)
  case 0
  then show ?case by (intro exI [of _ out]) auto
next
  case (Suc n)
  then have i: "i < 8" and up: "[i..<8] = i # [Suc i..<8]" by (auto simp: upt_conv_Cons)
  have l: "length out \<le> 35" using Suc.prems i by linarith
  note IH = Suc.hyps(1) [of "Suc i"]
  have n: "n = 8 - Suc i" using Suc.hyps(2) by linarith
  show ?case
  proof (cases "fst best \<noteq> -1 \<and> int i \<ge> fst best \<and> int i < fst best + snd best")
    case True
    then have "run_before best (Suc i) = run_before best i + 1" by (simp add: run_before_Suc)
    then have "\<exists>t. ntop6_loop best words src [Suc i..<8] o1 = Some t \<and> length t \<le> 40" if "length o1 \<le> length out + 1" for o1
      using IH [OF n, of o1] Suc.prems i that by simp
    from this [of out] this [of "out @ [58]"] have "\<exists>t. ntop6_loop best words src [Suc i..<8] out = Some t \<and> length t \<le> 40"
      "\<exists>t. ntop6_loop best words src [Suc i..<8] (out @ [58]) = Some t \<and> length t \<le> 40" by simp_all
    then show ?thesis using True l by (auto simp: up put6_def)
  next
    case False
    then have r: "run_before best (Suc i) = run_before best i" by (auto simp: run_before_Suc)
    define out1 where "out1 = (if i \<noteq> 0 then out @ [58] else out)"
    have o1: "(if i \<noteq> 0 then put6 58 out else Some out) = Some out1" "length out1 \<le> length out + 1" "i = 0 \<Longrightarrow> out1 = out"
      using l by (auto simp: out1_def put6_def)
    show ?thesis
    proof (cases "i = 6 \<and> fst best = 0 \<and> (snd best = 6 \<or> snd best = 5 \<and> words ! 5 = 0xffff)")
      case True
      then have "length out \<le> 10" using Suc.prems(2) run_before_6 [of best] by auto
      then show ?thesis using True False l o1(1,2) length_dotted [of "drop 12 src"] by (auto simp: up inet_ntop4_def)
    next
      case F: False
      let ?t = "print_hex (words ! i)"
      have t: "length ?t \<le> 4" using assms(1) i by (intro length_print_hex) auto
      have "\<exists>t. ntop6_loop best words src [Suc i..<8] (out1 @ ?t) = Some t \<and> length t \<le> 40"
        by (rule IH [OF n]) (use i t o1 r Suc.prems in auto)
      moreover have "ntop6_loop best words src [i..<8] out = ntop6_loop best words src [Suc i..<8] (out1 @ ?t)"
        using False F l o1(1,2) t by (auto simp: up Let_def)
      ultimately show ?thesis by simp
    qed
  qed
qed

text \<open>Every address has a text, and the buffers of the callers can hold it.\<close>

lemma ntop6_succeeds: "\<exists>t. inet_ntop6 src INET6_ADDRSTRLEN = Some t"
proof -
  let ?words = "words6 src"
  have "unat (b :: byte) * 256 + unat (c :: byte) < 65536" for b c
    using unsigned_less [of b, where 'a = nat] unsigned_less [of c, where 'a = nat] by simp
  then have "\<forall>i < 8. ?words ! i < 65536" by (simp add: words6_def)
  then obtain t where "ntop6_loop (best_run ?words) ?words src [0..<8] [] = Some t" "length t \<le> 40"
    using loop6_fits [of ?words 0 "[]" "best_run ?words" src] by auto
  then show ?thesis by (auto simp: inet_ntop6_def Let_def put6_def)
qed

lemma ntop_succeeds: "af = AF_INET \<or> af = AF_INET6 \<Longrightarrow> \<exists>t. inet_ntop af src INET6_ADDRSTRLEN = Some t"
  using ntop6_succeeds length_dotted [of src] by (auto simp: inet_ntop_def inet_ntop4_def)

end
