(* ===== verification/Socks.thy ===== *)
theory Socks
  imports Shaper Nchan Inet
begin

text \<open>
  Dynamic forwarding, the part of \<open>channels.c\<close> that reads a SOCKS request from a local connection. The
  browser uses the same port to tell the client about a page: requests with the commands 4 to 6 report
  that it was loaded, left or asked for, and start the padding of the session.
\<close>

section \<open>SOCKS 4\<close>

abbreviation NI_MAXHOST :: nat where "NI_MAXHOST \<equiv> 1025"
abbreviation SSH_CHANNEL_OPENING :: int where "SSH_CHANNEL_OPENING \<equiv> 3"

text \<open>\<open>strlen\<close> of a string in a buffer, whose memory may end before a NUL.\<close>

definition c_strlen :: "byte list \<Rightarrow> nat result" where
  "c_strlen p = (if 0 \<in> set p then Inr (length (takeWhile (\<lambda>c. c \<noteq> 0) p)) else Inl (MemFault ''strlen''))"

text \<open>The number of strings that end in \<open>p\<close>, up to \<open>need\<close>; \<open>None\<close> when the request is too long.\<close>

fun socks4_scan :: "nat \<Rightarrow> nat \<Rightarrow> nat \<Rightarrow> byte list \<Rightarrow> nat option" where
  "socks4_scan need i found [] = Some found"
| "socks4_scan need i found (c # cs) =
     (let found = (if c = 0 then found + 1 else found) in
      if c = 0 \<and> found = need then Some found
      else if i > 1024 then None
      else socks4_scan need (i + 1) found cs)"

text \<open>Takes a string and its NUL out of the input.\<close>

definition socks4_string :: "string \<Rightarrow> buffer \<Rightarrow> (byte list \<times> buffer) result" where
  "socks4_string what b =
     rbind (c_strlen (buffer_ptr b)) (\<lambda>n.
       if n + 1 > unat (buffer_len b) then Inl (Fatal (''decode '' @ what @ '': len > have''))
       else rbind (buffer_consume b (of_nat (n + 1))) (\<lambda>b'. Inr (take n (buffer_ptr b), b')))"

text \<open>The result is that of the source: -1 for an error, 0 for more input, 1 for a request.\<close>

definition channel_decode_socks4 :: "channel \<Rightarrow> (int \<times> channel) result" where
  "channel_decode_socks4 c =
     (let have = unat (buffer_len (ch_input c)); p = buffer_ptr (ch_input c) in
      if have < 8 then Inr (0, c)
      else let need = (if p ! 4 = 0 \<and> p ! 5 = 0 \<and> p ! 6 = 0 \<and> p ! 7 \<noteq> 0 then 2 else 1) in
      case socks4_scan need 8 0 (drop 8 (take have p)) of
        None \<Rightarrow> Inr (-1, c)
      | Some found \<Rightarrow>
          if found < need then Inr (0, c)
          else
            rbind (buffer_get (ch_input c) 1) (\<lambda>(version, b).
            rbind (buffer_get b 1) (\<lambda>(command, b).
            rbind (buffer_get b 2) (\<lambda>(dest_port, b).
            rbind (buffer_get b 4) (\<lambda>(dest_addr, b).
            rbind (socks4_string ''socks4'' b) (\<lambda>(user, b).
            rbind (if need = 1 then Inr (True, inet_ntoa dest_addr, b)
                   else rbind (c_strlen (buffer_ptr b)) (\<lambda>n.
                     if n + 1 > unat (buffer_len b) then Inl (Fatal ''decode socks4a: len > have'')
                     else if n + 1 > NI_MAXHOST then Inr (False, [], b)
                     else rbind (buffer_consume b (of_nat (n + 1))) (\<lambda>b'. Inr (True, take n (buffer_ptr b), b')))) (\<lambda>(ok, host, b).
            if \<not> ok then Inr (-1, c\<lparr>ch_input := b, ch_path := None\<rparr>)
            else let c = c\<lparr>ch_input := b, ch_path := Some host, ch_host_port := uint (get_u16 dest_port)\<rparr> in
              if command ! 0 \<noteq> 1 then Inr (-1, c)
              else rbind (buffer_append (ch_output c) [0, 90, 0, 0, 0, 0, 0, 0] 8) (\<lambda>out.
                Inr (1, c\<lparr>ch_output := out\<rparr>)))))))))"

section \<open>Events of the page\<close>

text \<open>
  The commands a browser sends. A new page is only started in the normal mode; the lock file that marks
  the start is not modelled.
\<close>

definition socks5_event :: "('c, 'z) libs \<Rightarrow> byte \<Rightarrow> byte list \<Rightarrow> ('c, 'z) world \<Rightarrow> ('c, 'z) world result" where
  "socks5_event L command p w =
     (if command = 4
      then rbind (packet_send_notify 4 CHR ''o'' (upd_cs set_onload_flag w)) (packet_send L)
      else if command = 5
      then rbind (packet_send_notify 4 CHR ''u'' (upd_cs set_unload_flag w)) (packet_send L)
      else if command = 6 \<and> stmode (w_cs w) = -1
      then
        rbind (set_url p 3 (w_cs w)) (\<lambda>s.
        let s = unset_sent_tend (unset_transcript_end (unset_onload_flag s)) in
        rbind (packet_send_notify (int (urllen s)) CHR ''l'' (w\<lparr>w_cs := s\<rparr>)) (\<lambda>w.
        rbind (packet_send L w) (\<lambda>w.
        rbind (set_cluster_id (l_st_junk L) (l_cluster_file L) (l_st_file L) (url (w_cs w)) (w_cs w)) (\<lambda>s.
          Inr (w\<lparr>w_cs :=
            if cluster_id s \<noteq> -1
            then set_st_idle_start 0 (set_stmode 1 (set_trans_padded_remaining 0 (unset_trans_padded
                   (set_first_client (set_received_sofar 0 s)))))
            else set_stmode 0 (set_unload_flag (unset_paddingdone_flag s))\<rparr>)))))
      else Inr w)"

section \<open>SOCKS 5\<close>

abbreviation SSH_SOCKS5_AUTHDONE :: u32 where "SSH_SOCKS5_AUTHDONE \<equiv> 0x1000"

text \<open>The sets of descriptors to wait for, for reading and for writing.\<close>

type_synonym fd_sets = "int set \<times> int set"

definition socks5_auth :: "channel \<Rightarrow> fd_sets \<Rightarrow> (int \<times> channel \<times> fd_sets) result" where
  "socks5_auth c fds =
     (let have = unat (buffer_len (ch_input c)); p = buffer_ptr (ch_input c) in
      if have < 2 then Inr (0, c, fds)
      else let nmethods = unat (p ! 1) in
      if have < nmethods + 2 then Inr (0, c, fds)
      else if 0 \<notin> set (take nmethods (drop 2 p)) then Inr (-1, c, fds)
      else
        rbind (buffer_consume (ch_input c) (of_nat (nmethods + 2))) (\<lambda>b.
        rbind (buffer_put_char (ch_output c) 5) (\<lambda>out.
        rbind (buffer_put_char out 0) (\<lambda>out.
          Inr (0, c\<lparr>ch_input := b, ch_output := out, ch_flags := ch_flags c OR SSH_SOCKS5_AUTHDONE\<rparr>,
               (fst fds, insert (ch_sock c) (snd fds)))))))"

text \<open>The length of an address and its family; \<open>dest_addr\<close> of a name ends at its first NUL.\<close>

definition socks5_addrlen :: "byte \<Rightarrow> byte \<Rightarrow> (nat \<times> int) option" where
  "socks5_addrlen atyp next =
     (if atyp = 1 then Some (4, AF_INET) else if atyp = 3 then Some (unat next, -1)
      else if atyp = 4 then Some (16, AF_INET6) else None)"

definition socks5_connect :: "channel \<Rightarrow> (int \<times> channel) result" where
  "socks5_connect c =
     (let have = unat (buffer_len (ch_input c)); p = buffer_ptr (ch_input c); atyp = p ! 3 in
      case socks5_addrlen atyp (p ! 4) of
        None \<Rightarrow> Inr (-1, c)
      | Some (addrlen, af) \<Rightarrow>
          let need = 4 + addrlen + 2 + (if atyp = 3 then 1 else 0) in
          if have < need then Inr (0, c)
          else
            rbind (buffer_consume (ch_input c) 4) (\<lambda>b.
            rbind (if atyp = 3 then buffer_consume b 1 else Inr b) (\<lambda>b.
            rbind (buffer_get b (of_nat addrlen)) (\<lambda>(dest_addr, b).
            rbind (buffer_get b 2) (\<lambda>(dest_port, b).
            case (if atyp = 3
                  then if addrlen \<ge> NI_MAXHOST then None else Some (takeWhile (\<lambda>x. x \<noteq> 0) dest_addr)
                  else inet_ntop af dest_addr INET6_ADDRSTRLEN) of
              None \<Rightarrow> Inr (-1, c\<lparr>ch_input := b, ch_path := None\<rparr>)
            | Some path \<Rightarrow>
                let c = c\<lparr>ch_input := b, ch_path := Some path, ch_host_port := uint (get_u16 dest_port)\<rparr> in
                rbind (buffer_append (ch_output c) [5, 0, 0, 1] 4) (\<lambda>out.
                rbind (buffer_append out [0, 0, 0, 0] 4) (\<lambda>out.
                rbind (buffer_append out [0, 0] 2) (\<lambda>out.
                  Inr (1, c\<lparr>ch_output := out\<rparr>)))))))))"

definition channel_decode_socks5 :: "('c, 'z) libs \<Rightarrow> channel \<Rightarrow> fd_sets \<Rightarrow> ('c, 'z) world \<Rightarrow>
    (int \<times> channel \<times> fd_sets \<times> ('c, 'z) world) result" where
  "channel_decode_socks5 L c fds w =
     (let have = unat (buffer_len (ch_input c)); p = buffer_ptr (ch_input c) in
      if p ! 0 \<noteq> 5 then Inr (-1, c, fds, w)
      else if \<not> has_flag c SSH_SOCKS5_AUTHDONE
      then rbind (socks5_auth c fds) (\<lambda>(r, c, fds). Inr (r, c, fds, w))
      else if have < 5 then Inr (0, c, fds, w)
      else if p ! 1 \<noteq> 1 \<or> p ! 2 \<noteq> 0
      then rbind (socks5_event L (p ! 1) p w) (\<lambda>w. Inr (-1, c, fds, w))
      else rbind (socks5_connect c) (\<lambda>(r, c). Inr (r, c, fds, w)))"

section \<open>A request becomes a channel\<close>

abbreviation SSH2_MSG_CHANNEL_OPEN :: byte where "SSH2_MSG_CHANNEL_OPEN \<equiv> 90"
abbreviation SSH_MSG_PORT_OPEN :: byte where "SSH_MSG_PORT_OPEN \<equiv> 29"
abbreviation SSH_PROTOFLAG_HOST_IN_FWD_OPEN :: u32 where "SSH_PROTOFLAG_HOST_IN_FWD_OPEN \<equiv> 2"

text \<open>\<open>peer\<close> is the address and port of the local connection, the port being -1 when there is none.
  \<open>flags\<close> are the protocol flags of the session.\<close>

definition port_open_helper :: "bool \<Rightarrow> u32 \<Rightarrow> byte list \<times> int \<Rightarrow> string \<Rightarrow> channel \<Rightarrow> channel result" where
  "port_open_helper v2 flags peer rtype c =
     (case ch_path c of None \<Rightarrow> Inl (MemFault ''path'') | Some path \<Rightarrow>
      let (remote_ipaddr, remote_port) = (if snd peer = -1 then (bytes_of ''127.0.0.1'', 65535) else peer);
          direct = (rtype = ''direct-tcpip'');
          buf = bytes_of rtype @ bytes_of '': listening port '' @ print_int (ch_listening_port c) @ bytes_of '' for '' @ take 100 path @
                bytes_of '' port '' @ print_int (ch_host_port c) @ bytes_of '', connect from '' @ take 200 remote_ipaddr @
                bytes_of '' port '' @ print_int remote_port;
          c = c\<lparr>ch_remote_name := take 1023 buf\<rparr>
      in Inr (if v2
         then send_msg SSH2_MSG_CHANNEL_OPEN
                (string_enc (bytes_of rtype) @ put_u32 (word_of_int (ch_self c)) @ put_u32 (ch_local_window_max c) @
                 put_u32 (ch_local_maxpacket c) @ string_enc path @
                 put_u32 (word_of_int (if direct then ch_host_port c else ch_listening_port c)) @
                 string_enc remote_ipaddr @ put_u32 (word_of_int remote_port)) c
         else send_msg SSH_MSG_PORT_OPEN
                (put_u32 (word_of_int (ch_self c)) @ string_enc path @ put_u32 (word_of_int (ch_host_port c)) @
                 (if flags AND SSH_PROTOFLAG_HOST_IN_FWD_OPEN \<noteq> 0 then string_enc (ch_remote_name c) else [])) c))"

definition channel_pre_dynamic :: "('c, 'z) libs \<Rightarrow> byte list \<times> int \<Rightarrow> channel \<Rightarrow> fd_sets \<Rightarrow> ('c, 'z) world \<Rightarrow>
    (channel \<times> fd_sets \<times> ('c, 'z) world) result" where
  "channel_pre_dynamic L peer c fds w =
     (let have = unat (buffer_len (ch_input c)); p = buffer_ptr (ch_input c) in
      if have < 3 then Inr (c, (insert (ch_sock c) (fst fds), snd fds), w)
      else
        rbind (if p ! 0 = 4 then rbind (channel_decode_socks4 c) (\<lambda>(r, c). Inr (r, c, fds, w))
               else if p ! 0 = 5 then channel_decode_socks5 L c fds w
               else Inr (-1, c, fds, w)) (\<lambda>(ret, c, fds, w).
        if ret < 0 then Inr (chan_mark_dead c, fds, w)
        else if ret = 0 then Inr (c, (insert (ch_sock c) (fst fds), snd fds), w)
        else rbind (port_open_helper (world.compat20 w) (remote_protocol_flags w) peer ''direct-tcpip''
                      (c\<lparr>ch_type := SSH_CHANNEL_OPENING\<rparr>)) (\<lambda>c. Inr (c, fds, w))))"

section \<open>Decoding\<close>

text \<open>The requests of RFC 1928, and the text of their target.\<close>

datatype host = Domain "byte list" | IP4 "byte list" | IP6 "byte list"

fun host_ok :: "host \<Rightarrow> bool" where
  "host_ok (Domain d) \<longleftrightarrow> length d < 256 \<and> 0 \<notin> set d"
| "host_ok (IP4 a) \<longleftrightarrow> length a = 4"
| "host_ok (IP6 a) \<longleftrightarrow> length a = 16"

fun host_bytes :: "host \<Rightarrow> byte list" where
  "host_bytes (Domain d) = [3, of_nat (length d)] @ d"
| "host_bytes (IP4 a) = 1 # a"
| "host_bytes (IP6 a) = 4 # a"

fun host_text :: "host \<Rightarrow> byte list" where
  "host_text (Domain d) = d"
| "host_text (IP4 a) = dotted a"
| "host_text (IP6 a) = the (inet_ntop6 a INET6_ADDRSTRLEN)"

definition connect_request :: "host \<Rightarrow> u16 \<Rightarrow> byte list" where
  "connect_request h port = [5, 1, 0] @ host_bytes h @ put_u16 port"

lemma connect_decodes:
  fixes addr :: "byte list"
  assumes ok: "buffer_ok (ch_input c)" "buffer_ok (ch_output c)" "length (buffer_contents (ch_output c)) \<le> 0x10000"
    and cont: "buffer_contents (ch_input c) = [v, 1, 0, atyp] @ pre @ addr @ put_u16 port @ rest"
    and al: "socks5_addrlen atyp (buffer_contents (ch_input c) ! 4) = Some (length addr, af)"
    and pre: "length pre = (if atyp = 3 then 1 else 0)" and len: "length addr < 256"
    and path: "(if atyp = 3 then Some (takeWhile (\<lambda>x. x \<noteq> 0) addr) else inet_ntop af addr INET6_ADDRSTRLEN) = Some path"
  shows "\<exists>c'. socks5_connect c = Inr (1, c') \<and> ch_path c' = Some path \<and> ch_host_port c' = uint port \<and>
    buffer_contents (ch_input c') = rest \<and>
    buffer_contents (ch_output c') = buffer_contents (ch_output c) @ [5, 0, 0, 1, 0, 0, 0, 0, 0, 0]"
proof -
  let ?b = "ch_input c"
  note l = unat_buffer_len [OF ok(1)]
  have p: "buffer_ptr ?b ! 3 = atyp" "buffer_ptr ?b ! 4 = buffer_contents ?b ! 4"
    by (simp_all add: ptr_nth [OF ok(1)] cont)
  have "unat (4 :: u32) \<le> length (buffer_contents ?b)" by (simp add: cont)
  from consume_spec [OF ok(1) this] obtain b1 where b1: "buffer_consume ?b 4 = Inr b1" "buffer_ok b1"
    "buffer_contents b1 = pre @ addr @ put_u16 port @ rest" by (auto simp: cont)
  obtain b2 where b2: "(if atyp = 3 then buffer_consume b1 1 else Inr b1) = Inr b2" "buffer_ok b2"
    "buffer_contents b2 = addr @ put_u16 port @ rest"
    using consume_spec [OF b1(2), of 1] b1 pre by (cases "atyp = 3") auto
  have ul: "unat (of_nat (length addr) :: u32) = length addr" using len by (simp add: unat_of_nat)
  from buffer_get_spec [OF b2(2), of "of_nat (length addr)"] obtain b3 where
    b3: "buffer_get b2 (of_nat (length addr)) = Inr (addr, b3)" "buffer_ok b3" "buffer_contents b3 = put_u16 port @ rest"
    by (auto simp: ul b2(3))
  from buffer_get_spec [OF b3(2), of 2] obtain b4 where
    b4: "buffer_get b3 2 = Inr (put_u16 port, b4)" "buffer_ok b4" "buffer_contents b4 = rest" by (auto simp: b3(3))
  obtain o1 where o1: "buffer_append (ch_output c) [5, 0, 0, 1] 4 = Inr o1" "buffer_ok o1"
    "buffer_contents o1 = buffer_contents (ch_output c) @ [5, 0, 0, 1]" using append_ok [OF ok(2), of "[5, 0, 0, 1]" 4] ok(3) by auto
  obtain o2 where o2: "buffer_append o1 [0, 0, 0, 0] 4 = Inr o2" "buffer_ok o2" "buffer_contents o2 = buffer_contents o1 @ [0, 0, 0, 0]"
    using append_ok [OF o1(2), of "[0, 0, 0, 0]" 4] ok(3) o1(3) by auto
  obtain o3 where o3: "buffer_append o2 [0, 0] 2 = Inr o3" "buffer_contents o3 = buffer_contents o2 @ [0, 0]"
    using append_ok [OF o2(2), of "[0, 0]" 2] ok(3) o1(3) o2(3) by auto
  have need: "\<not> unat (buffer_len ?b) < 4 + length addr + 2 + (if atyp = 3 then 1 else 0)" using pre by (simp add: l cont)
  have path': "(if atyp = 3 then if length addr \<ge> NI_MAXHOST then None else Some (takeWhile (\<lambda>x. x \<noteq> 0) addr)
      else inet_ntop af addr INET6_ADDRSTRLEN) = Some path" using path len by (auto split: if_splits)
  have "socks5_connect c = Inr (1, c\<lparr>ch_input := b4, ch_path := Some path, ch_host_port := uint port, ch_output := o3\<rparr>)"
    using al need unfolding socks5_connect_def Let_def p by (simp add: b1(1) b2(1) b3(1) b4(1) path' o1(1) o2(1) o3(1) get_put_u16_Nil)
  then show ?thesis using b4(3) o3(2) o2(3) o1(3) by simp
qed

text \<open>The address of a request: its type, an optional length and the bytes.\<close>

fun host_type :: "host \<Rightarrow> byte" where
  "host_type (Domain d) = 3" | "host_type (IP4 a) = 1" | "host_type (IP6 a) = 4"

fun host_pre :: "host \<Rightarrow> byte list" where
  "host_pre (Domain d) = [of_nat (length d)]" | "host_pre (IP4 a) = []" | "host_pre (IP6 a) = []"

fun host_addr :: "host \<Rightarrow> byte list" where
  "host_addr (Domain d) = d" | "host_addr (IP4 a) = a" | "host_addr (IP6 a) = a"

lemma host_parts:
  assumes "host_ok h"
  shows "host_bytes h = host_type h # host_pre h @ host_addr h" and "length (host_pre h) = (if host_type h = 3 then 1 else 0)"
    and "length (host_addr h) < 256"
    and "\<exists>af. (\<forall>x. (x = hd (host_pre h @ [x])) \<longrightarrow> socks5_addrlen (host_type h) x = Some (length (host_addr h), af)) \<and>
      (if host_type h = 3 then Some (takeWhile (\<lambda>x. x \<noteq> 0) (host_addr h)) else inet_ntop af (host_addr h) INET6_ADDRSTRLEN) = Some (host_text h)"
proof -
  have "takeWhile (\<lambda>x. x \<noteq> 0) d = d" if "0 \<notin> set d" for d :: "byte list" using that by (auto simp: takeWhile_eq_all_conv)
  moreover have "length (dotted a) < 46" for a using length_dotted [of a] by simp
  moreover have "inet_ntop6 a INET6_ADDRSTRLEN = Some (the (inet_ntop6 a INET6_ADDRSTRLEN))" for a
    using ntop6_succeeds [of a] by auto
  ultimately show "\<exists>af. (\<forall>x. (x = hd (host_pre h @ [x])) \<longrightarrow> socks5_addrlen (host_type h) x = Some (length (host_addr h), af)) \<and>
      (if host_type h = 3 then Some (takeWhile (\<lambda>x. x \<noteq> 0) (host_addr h)) else inet_ntop af (host_addr h) INET6_ADDRSTRLEN) = Some (host_text h)"
    using assms by (cases h) (auto simp: socks5_addrlen_def unat_of_nat inet_ntop_def inet_ntop4_def not_le)
qed (use assms in \<open>cases h; simp\<close>)+

lemma request_parts:
  assumes "host_ok h"
  shows "connect_request h port = [5, 1, 0, host_type h] @ host_pre h @ host_addr h @ put_u16 port"
    and "\<exists>af. (\<forall>r. socks5_addrlen (host_type h) ((connect_request h port @ r) ! 4) = Some (length (host_addr h), af)) \<and>
      (if host_type h = 3 then Some (takeWhile (\<lambda>x. x \<noteq> 0) (host_addr h)) else inet_ntop af (host_addr h) INET6_ADDRSTRLEN) =
        Some (host_text h)"
proof -
  show "connect_request h port = [5, 1, 0, host_type h] @ host_pre h @ host_addr h @ put_u16 port"
    by (simp add: connect_request_def host_parts(1) [OF assms])
  obtain af where af: "\<forall>x. x = hd (host_pre h @ [x]) \<longrightarrow> socks5_addrlen (host_type h) x = Some (length (host_addr h), af)"
    "(if host_type h = 3 then Some (takeWhile (\<lambda>x. x \<noteq> 0) (host_addr h)) else inet_ntop af (host_addr h) INET6_ADDRSTRLEN) =
       Some (host_text h)" using host_parts(4) [OF assms] by blast
  have "socks5_addrlen (host_type h) ((connect_request h port @ r) ! 4) = Some (length (host_addr h), af)" for r
    using af(1) by (cases h) (auto simp: connect_request_def)
  then show "\<exists>af. (\<forall>r. socks5_addrlen (host_type h) ((connect_request h port @ r) ! 4) = Some (length (host_addr h), af)) \<and>
      (if host_type h = 3 then Some (takeWhile (\<lambda>x. x \<noteq> 0) (host_addr h)) else inet_ntop af (host_addr h) INET6_ADDRSTRLEN) =
        Some (host_text h)" using af(2) by blast
qed

lemma request_incomplete:
  assumes ok: "buffer_ok (ch_input c)" and auth: "has_flag c SSH_SOCKS5_AUTHDONE" and h: "host_ok h"
    and n: "3 \<le> n" "n < length (connect_request h port)" and cont: "buffer_contents (ch_input c) = take n (connect_request h port)"
  shows "channel_decode_socks5 L c fds w = Inr (0, c, fds, w)"
proof -
  let ?b = "ch_input c"
  note req = request_parts(1) [OF h, of port]
  have len: "unat (buffer_len ?b) = n" using unat_buffer_len [OF ok] n by (simp add: cont)
  have p: "buffer_ptr ?b ! i = connect_request h port ! i" if "i < n" for i
    using ptr_nth [OF ok, of i] that n by (simp add: cont)
  have p3: "buffer_ptr ?b ! 0 = 5" "buffer_ptr ?b ! 1 = 1" "buffer_ptr ?b ! 2 = 0" using p n by (simp_all add: req)
  show ?thesis
  proof (cases "n < 5")
    case True
    then show ?thesis using p3 auth len by (simp add: channel_decode_socks5_def)
  next
    case False
    then have "buffer_ptr ?b ! 3 = host_type h" "buffer_ptr ?b ! 4 = (connect_request h port @ []) ! 4"
      using p [of 3] p [of 4] by (auto simp: req)
    moreover obtain af where "socks5_addrlen (host_type h) ((connect_request h port @ []) ! 4) = Some (length (host_addr h), af)"
      using request_parts(2) [OF h, of port] by blast
    moreover have "n < 4 + length (host_addr h) + 2 + (if host_type h = 3 then 1 else 0)"
      using n host_parts(2) [OF h] by (simp add: req)
    ultimately have "socks5_connect c = Inr (0, c)" by (simp add: socks5_connect_def Let_def len)
    then show ?thesis using p3 auth False len by (simp add: channel_decode_socks5_def)
  qed
qed

text \<open>C8: A SOCKS 5 request to connect, in the format of RFC 1928, is decoded as it was meant: once all of
  it is there, the channel has the name or the text of the address and the port, the request and only the
  request is taken out of the input, and the reply is in the output; before that, the decoder asks for
  more and changes nothing.\<close>

theorem socks5_decodes_connect:
  assumes "buffer_ok (ch_input c)" and "buffer_ok (ch_output c)" and "length (buffer_contents (ch_output c)) \<le> 0x10000"
    and "has_flag c SSH_SOCKS5_AUTHDONE" and "host_ok h"
  shows "(buffer_contents (ch_input c) = connect_request h port @ rest \<longrightarrow>
      (\<exists>c'. channel_decode_socks5 L c fds w = Inr (1, c', fds, w) \<and> ch_path c' = Some (host_text h) \<and>
        ch_host_port c' = uint port \<and> buffer_contents (ch_input c') = rest \<and>
        buffer_contents (ch_output c') = buffer_contents (ch_output c) @ [5, 0, 0, 1, 0, 0, 0, 0, 0, 0])) \<and>
    (\<forall>n \<ge> 3. n < length (connect_request h port) \<and> buffer_contents (ch_input c) = take n (connect_request h port) \<longrightarrow>
      channel_decode_socks5 L c fds w = Inr (0, c, fds, w))"
proof (intro conjI impI allI)
  let ?b = "ch_input c"
  note req = request_parts(1) [OF assms(5), of port]
  assume cont: "buffer_contents ?b = connect_request h port @ rest"
  obtain af where c4: "socks5_addrlen (host_type h) (buffer_contents ?b ! 4) = Some (length (host_addr h), af)"
    and af: "(if host_type h = 3 then Some (takeWhile (\<lambda>x. x \<noteq> 0) (host_addr h)) else inet_ntop af (host_addr h) INET6_ADDRSTRLEN) =
       Some (host_text h)" using request_parts(2) [OF assms(5), of port] cont by auto
  obtain c' where c': "socks5_connect c = Inr (1, c')" "ch_path c' = Some (host_text h)" "ch_host_port c' = uint port"
    "buffer_contents (ch_input c') = rest"
    "buffer_contents (ch_output c') = buffer_contents (ch_output c) @ [5, 0, 0, 1, 0, 0, 0, 0, 0, 0]"
    using connect_decodes [OF assms(1-3) _ c4 host_parts(2,3) [OF assms(5)] af] cont by (auto simp: req)
  have "buffer_ptr ?b ! 0 = 5" "buffer_ptr ?b ! 1 = 1" "buffer_ptr ?b ! 2 = 0"
    by (simp_all add: ptr_nth [OF assms(1)] cont req)
  moreover have "\<not> unat (buffer_len ?b) < 5" by (simp add: unat_buffer_len [OF assms(1)] cont req)
  ultimately show "\<exists>c'. channel_decode_socks5 L c fds w = Inr (1, c', fds, w) \<and> ch_path c' = Some (host_text h) \<and>
      ch_host_port c' = uint port \<and> buffer_contents (ch_input c') = rest \<and>
      buffer_contents (ch_output c') = buffer_contents (ch_output c) @ [5, 0, 0, 1, 0, 0, 0, 0, 0, 0]"
    using c' assms(4) by (simp add: channel_decode_socks5_def)
qed (elim conjE, rule request_incomplete [OF assms(1,4,5)])

definition demo_socks :: channel where
  "demo_socks = demo_channel\<lparr>ch_flags := SSH_SOCKS5_AUTHDONE,
     ch_input := \<lparr>b_buf = [5, 1, 0, 3, 2, 97, 98, 0, 80, 71, 0], b_alloc = 11, b_offset = 0, b_end = 10\<rparr>\<rparr>"

theorem socks5_decodes_connect_witness:
  "\<exists>c'. channel_decode_socks5 demo_libs demo_socks ({}, {}) demo_world = Inr (1, c', ({}, {}), demo_world) \<and>
     ch_path c' = Some [97, 98] \<and> ch_host_port c' = 80 \<and> buffer_contents (ch_input c') = [71]"
proof -
  have b: "buffer_ok (ch_input demo_socks)" "buffer_ok (ch_output demo_socks)" "buffer_contents (ch_output demo_socks) = []"
    "has_flag demo_socks SSH_SOCKS5_AUTHDONE" "host_ok (Domain [97, 98])"
    unfolding demo_socks_def demo_channel_def by (simp_all add: has_flag_def) (simp add: buffer_ok_def)
  have "buffer_contents (ch_input demo_socks) = connect_request (Domain [97, 98]) 80 @ [71]"
    by (simp add: demo_socks_def buffer_contents_def connect_request_def put_u16_def)
  then show ?thesis
    using socks5_decodes_connect [OF b(1,2) _ b(4,5), where port = 80 and rest = "[71]" and L = demo_libs and fds = "({}, {})" and w = demo_world]
    by (auto simp: b(3))
qed

end
