(* ===== verification/Session.thy ===== *)
theory Session
  imports Socks
begin

text \<open>
  The session as a whole: the steps a server and a client take between two calls of \<open>select\<close>, and what
  holds in every state they reach. Both sides read packets and write what is due; the client also takes
  the requests of the browser.
\<close>

section \<open>Reading leaves the padding scheme alone\<close>

lemmas set_newkeys_cs = keeps_hidden [of "set_newkeys L m" for L m, OF cs.set_newkeys_blind]
lemmas delayed_cs = keeps_hidden [of "packet_enable_delayed_compress L" for L, OF cs.delayed_compress_blind]

lemma start_discard_cs: "packet_start_discard L e m p d w = Inr w' \<Longrightarrow> w_cs w' = w_cs w"
  by (auto simp: packet_start_discard_def packet_stop_discard_def Let_def split: if_splits option.splits)

lemma uncompress_cs: "uncompress_incoming L w = Inr w' \<Longrightarrow> w_cs w' = w_cs w"
  by (auto simp: uncompress_incoming_def)

lemma check_attack_cs: "check_attack buf len w = Inr w' \<Longrightarrow> w_cs w' = w_cs w"
  by (auto simp: check_attack_def split: if_splits deattack.splits; metis deattack.exhaust)

lemma poll2_first_cs: "poll2_first L e m b w = Inr (go, w') \<Longrightarrow> w_cs w' = w_cs w"
  by (auto simp: poll2_first_def Let_def split: if_splits dest!: start_discard_cs)

lemma poll2_mac_cs: "poll2_mac L e m need w = Inr (go, w') \<Longrightarrow> w_cs w' = w_cs w"
  by (auto simp: poll2_mac_def split: if_splits option.splits dest!: start_discard_cs)

lemma read_account_cs: "read_account b w = Inr w' \<Longrightarrow> w_cs w' = w_cs w"
  by (auto simp: read_account_def Let_def split: if_splits)

lemma rbind_InrE: "rbind r f = Inr y \<Longrightarrow> (\<And>x. r = Inr x \<Longrightarrow> f x = Inr y \<Longrightarrow> P) \<Longrightarrow> P"
  by auto

lemma if_InrE: "(if b then Inl e else r) = Inr y \<Longrightarrow> (\<not> b \<Longrightarrow> r = Inr y \<Longrightarrow> P) \<Longrightarrow> P"
  by (cases b) auto

lemma new_state_cs:
  assumes "(if a then set_newkeys L m w else if b then packet_enable_delayed_compress L w else Inr w) = Inr w'"
  shows "w_cs w' = w_cs w"
  using assms by (auto split: if_splits dest: set_newkeys_cs delayed_cs)

lemma opened_cs:
  "(if c then uncompress_incoming L (w\<lparr>incoming_packet := ip\<rparr>) else Inr (w\<lparr>incoming_packet := ip\<rparr>)) = Inr w' \<Longrightarrow> w_cs w' = w_cs w"
  by (auto split: if_splits dest: uncompress_cs)

lemma poll2_open_cs: "poll2_open L c w = Inr (t, w') \<Longrightarrow> w_cs w' = w_cs w"
  unfolding poll2_open_def Let_def case_prod_beta by (elim rbind_InrE if_InrE) (drule opened_cs, drule new_state_cs, auto)

lemma poll2_cs: "packet_read_poll2 L w = Inr (t, sq, w') \<Longrightarrow> w_cs w' = w_cs w"
  unfolding packet_read_poll2_def Let_def
  by (auto simp: case_prod_beta split: if_splits dest!: poll2_first_cs poll2_mac_cs read_account_cs poll2_open_cs start_discard_cs)

lemma poll1_cs: "packet_read_poll1 L w = Inr (t, w') \<Longrightarrow> w_cs w' = w_cs w"
  unfolding packet_read_poll1_def Let_def case_prod_beta
  by (auto split: if_splits elim!: rbind_InrE if_InrE dest!: check_attack_cs uncompress_cs)

section \<open>Messages keep the invariant\<close>

lemma load_clusters_frame:
  assumes "(case clusters s of Some _ \<Rightarrow> Inr s
     | None \<Rightarrow> rbind (hm_build cf (total_clusters s)) (\<lambda>(m, c). Inr (s\<lparr>clusters := m, total_clusters := c\<rparr>))) = Inr s'"
  shows "scheme_core (s'\<lparr>clusters := clusters s\<rparr>) = scheme_core s"
    and "clusters s' = clusters s \<or> (\<exists>c c'. hm_build cf c = Inr (clusters s', c'))"
  using assms by (cases "clusters s"; auto simp: scheme_core_def)+

lemma load_traces_frame:
  assumes "(case straces s of Some _ \<Rightarrow> Inr s
     | None \<Rightarrow> rbind (load_st junk sf (total_clusters s)) (\<lambda>ss. rbind (change_to_relative_time ss (total_clusters s)) (\<lambda>ss.
         rbind (Supertrace.split ss (total_clusters s)) (\<lambda>ss. Inr (s\<lparr>straces := ss\<rparr>))))) = Inr s'"
  shows "scheme_core s' = scheme_core s"
  using assms by (cases "straces s"; auto simp: scheme_core_def)+

lemma set_cluster_frame:
  assumes "set_cluster_id junk cf sf u s = Inr s'"
  shows "stmode s' = stmode s \<and> onload_flag s' = onload_flag s \<and> w2w s' = w2w s \<and> sent_tend s' = sent_tend s \<and> cur_item s' = cur_item s"
    and "clusters s' = clusters s \<or> (\<exists>c c'. hm_build cf c = Inr (clusters s', c'))"
    and "hm_lookup (clusters s') (Some u) = Inr (cluster_id s')"
proof -
  from assms obtain s1 s2 c where l: "(case clusters s of Some _ \<Rightarrow> Inr s
     | None \<Rightarrow> rbind (hm_build cf (total_clusters s)) (\<lambda>(m, c). Inr (s\<lparr>clusters := m, total_clusters := c\<rparr>))) = Inr s1"
    "(case straces s1 of Some _ \<Rightarrow> Inr s1
     | None \<Rightarrow> rbind (load_st junk sf (total_clusters s1)) (\<lambda>ss. rbind (change_to_relative_time ss (total_clusters s1)) (\<lambda>ss.
         rbind (Supertrace.split ss (total_clusters s1)) (\<lambda>ss. Inr (s1\<lparr>straces := ss\<rparr>))))) = Inr s2"
    and c: "hm_lookup (clusters s2) (Some u) = Inr c" "s' = (if c \<noteq> -1 then s2\<lparr>cluster_id := c, st_index := 0\<rparr> else s2\<lparr>cluster_id := c\<rparr>)"
    unfolding set_cluster_id_def by (elim rbind_InrE) auto
  note f = load_clusters_frame [OF l(1)] load_traces_frame [OF l(2)]
  show "stmode s' = stmode s \<and> onload_flag s' = onload_flag s \<and> w2w s' = w2w s \<and> sent_tend s' = sent_tend s \<and> cur_item s' = cur_item s"
    "clusters s' = clusters s \<or> (\<exists>c c'. hm_build cf c = Inr (clusters s', c'))" "hm_lookup (clusters s') (Some u) = Inr (cluster_id s')"
    using f c by (auto simp: scheme_core_def)
qed

lemma set_url_frame:
  assumes "set_url p n s = Inr s'"
  shows "scheme_core s' = scheme_core s"
  using assms by (auto simp: set_url_def Let_def scheme_core_def split: if_splits)

lemma first_sent_frame:
  assumes "set_first_sent s = Inr s'"
  shows "scheme_core s' = scheme_core s" and "cluster_id s \<noteq> -1 \<Longrightarrow> 0 \<le> cluster_id s"
  using assms by (auto simp: set_first_sent_def Let_def scheme_core_def current_trace_def split: if_splits option.splits)

lemma core_setters_recv [simp]:
  "scheme_core (unset_transcript_end s) = scheme_core s" "scheme_core (set_transcript_end s) = scheme_core s"
  "scheme_core (set_unload_flag s) = scheme_core s" "scheme_core (set_paddingdone_flag s) = scheme_core s"
  "scheme_core (set_urlack s) = scheme_core s" "scheme_core (set_st_idle_start t s) = scheme_core s"
  "scheme_core (unset_trans_padded s) = scheme_core s" "scheme_core (set_first_client s) = scheme_core s"
  "scheme_core (recv_normal s) = scheme_core s"
  by (simp_all add: scheme_core_def setter_defs recv_normal_def)

lemma tend_inv_core: "tend_inv sh s \<Longrightarrow> scheme_core s' = scheme_core s \<Longrightarrow> tend_inv sh s'"
  using tend_inv_cong [of s' s sh sh] by simp

text \<open>No id in the database is below -1.\<close>

definition good_ids :: "('c, 'z) libs \<Rightarrow> bool" where
  "good_ids L \<longleftrightarrow> (\<forall>c m c'. hm_build (l_cluster_file L) c = Inr (m, c') \<longrightarrow> ids_ok m)"

lemma set_cluster_ids:
  assumes "good_ids L" and "set_cluster_id junk (l_cluster_file L) sf u s = Inr s'" and "ids_ok (clusters s)"
  shows "ids_ok (clusters s')" and "-1 \<le> cluster_id s'"
proof -
  show i: "ids_ok (clusters s')" using assms set_cluster_frame(2) [OF assms(2)] by (auto simp: good_ids_def)
  show "-1 \<le> cluster_id s'" using i set_cluster_frame(3) [OF assms(2)] by (simp add: ids_ok_def)
qed

text \<open>A new page is replayed from its start, with nothing announced.\<close>

lemma new_page_inv:
  assumes "tend_inv sh s0" and "stmode s' = 1" and "0 \<le> cluster_id s'" and "sent_tend s' = 0"
    and "onload_flag s' \<in> {0, 1}" and "w2w s' = w2w s0" and "cur_item s' = cur_item s0"
    and "ids_ok (clusters s')"
  shows "tend_inv sh s'"
  using assms by (simp add: tend_inv_def)

lemma no_replay_inv:
  assumes "tend_inv sh s0" and "stmode s' \<noteq> 1" and "onload_flag s' \<in> {0, 1}" and "w2w s' = w2w s0" and "cur_item s' = cur_item s0"
    and "ids_ok (clusters s')"
  shows "tend_inv sh s'"
  using assms by (simp add: tend_inv_def)

lemma recv_url2_inv:
  assumes g: "good_ids L" and i: "tend_inv sh (w_cs w)" and r: "recv_url2 L w = Inr w'"
  shows "tend_inv sh (w_cs w')"
proof -
  let ?s0 = "unset_sent_tend (unset_transcript_end (unset_onload_flag (w_cs w)))"
  have s0: "onload_flag ?s0 = 0" "w2w ?s0 = w2w (w_cs w)" "cur_item ?s0 = cur_item (w_cs w)" "sent_tend ?s0 = 0"
    "clusters ?s0 = clusters (w_cs w)" by (simp_all add: setter_defs)
  from r obtain s1 s2 where s1: "set_url (buffer_ptr (incoming_packet w)) 4 ?s0 = Inr s1"
    and s2: "set_cluster_id (l_st_junk L) (l_cluster_file L) (l_st_file L) (url s1) s1 = Inr s2"
    and rest: "(if cluster_id s2 \<noteq> -1
       then rbind (set_first_sent (set_st_idle_start 0 (set_stmode 1 (set_trans_padded_remaining 0 (unset_trans_padded s2))))) (\<lambda>s.
            rbind (packet_send_notify 4 CHR ''k'' (w\<lparr>w_cs := set_received_sofar (first_expected s) s\<rparr>)) (packet_send L))
       else Inr (w\<lparr>w_cs := set_stmode 0 (set_unload_flag (unset_paddingdone_flag s2))\<rparr>)) = Inr w'"
    unfolding recv_url2_def rbind_eq_Inr by blast
  have f: "onload_flag s2 = 0" "w2w s2 = w2w (w_cs w)" "cur_item s2 = cur_item (w_cs w)" "sent_tend s2 = 0"
    using set_url_frame [OF s1] set_cluster_frame(1) [OF s2] s0 by (simp_all add: scheme_core_def)
  have "ids_ok (clusters s1)" using set_url_frame [OF s1] s0(5) i by (simp add: scheme_core_def tend_inv_def)
  then have ids: "ids_ok (clusters s2)" by (rule set_cluster_ids(1) [OF g s2])
  show ?thesis
  proof (cases "cluster_id s2 \<noteq> -1")
    case True
    let ?s3 = "set_st_idle_start 0 (set_stmode 1 (set_trans_padded_remaining 0 (unset_trans_padded s2)))"
    from rest True obtain s v where s: "set_first_sent ?s3 = Inr s"
      and v: "packet_send_notify 4 CHR ''k'' (w\<lparr>w_cs := set_received_sofar (first_expected s) s\<rparr>) = Inr v" "packet_send L v = Inr w'" by auto
    have "w_cs w' = set_received_sofar (first_expected s) s" using packet_send_cs [OF v(2)] send_notify_cs [OF v(1)] by simp
    moreover have "scheme_core s = scheme_core ?s3" "0 \<le> cluster_id ?s3"
      using first_sent_frame [OF s] True by (simp_all add: setter_defs)
    moreover have "scheme_core (set_received_sofar b s) = scheme_core s" for b by simp
    ultimately have "scheme_core (w_cs w') = scheme_core ?s3" "0 \<le> cluster_id ?s3" by simp_all
    then show ?thesis using f ids by (intro new_page_inv [OF i]) (simp_all add: scheme_core_def setter_defs)
  next
    case False
    then have "w_cs w' = set_stmode 0 (set_unload_flag (unset_paddingdone_flag s2))" using rest by auto
    then show ?thesis using f ids by (intro no_replay_inv [OF i]) (simp_all add: setter_defs)
  qed
qed

lemma tend_inv_onload: "tend_inv sh s \<Longrightarrow> tend_inv sh (set_onload_flag s)"
  by (simp add: tend_inv_def set_onload_flag_def)

lemma packet_get_cs:
  "packet_get_char w = Inr (c, w') \<Longrightarrow> w_cs w' = w_cs w" "packet_get_int w = Inr (n, w') \<Longrightarrow> w_cs w' = w_cs w"
  "packet_get_string w = Inr (s, w') \<Longrightarrow> w_cs w' = w_cs w"
  by (auto simp: packet_get_char_def packet_get_int_def packet_get_string_def upd_incoming_def)

lemma dispatch2_inv:
  assumes g: "good_ids L" and i: "tend_inv sh (w_cs w)" and r: "dispatch2 L t w = Inr (x, w')"
  shows "tend_inv sh (w_cs w')"
proof -
  have keep: "tend_inv sh (w_cs v)" if "v = upd_cs f w" "\<And>s. scheme_core (f s) = scheme_core s" for v f
    using tend_inv_core [OF i] that by simp
  have get: "tend_inv sh (w_cs v)" if "w_cs v = w_cs w" for v using i that by simp
  show ?thesis
    using r recv_url2_inv [OF g i] tend_inv_onload [OF i] i keep [of _ set_transcript_end] keep [of _ recv_normal]
      keep [of _ set_paddingdone_flag] keep [of _ set_urlack] keep [of _ "set_unload_flag \<circ> unset_paddingdone_flag"]
    unfolding dispatch2_def
    by (auto split: if_splits dest!: packet_get_cs simp: get)
qed

lemma url1_inv:
  assumes i: "tend_inv sh s" and r: "set_url p n (unset_sent_tend (unset_transcript_end (unset_onload_flag s))) = Inr s'"
  shows "tend_inv sh s'"
proof (rule tend_inv_core [OF _ set_url_frame [OF r]])
  show "tend_inv sh (unset_sent_tend (unset_transcript_end (unset_onload_flag s)))" using i by (simp add: tend_inv_def setter_defs)
qed

lemma dispatch1_inv:
  assumes i: "tend_inv sh (w_cs w)" and r: "dispatch1 t w = Inr (x, w')"
  shows "tend_inv sh (w_cs w')"
proof -
  have keep: "tend_inv sh (w_cs v)" if "v = upd_cs f w" "\<And>s. scheme_core (f s) = scheme_core s" for v f
    using tend_inv_core [OF i] that by simp
  have get: "tend_inv sh (w_cs v)" if "w_cs v = w_cs w" for v using i that by simp
  show ?thesis
    using r tend_inv_onload [OF i] i keep [of _ set_transcript_end] keep [of _ recv_normal]
      keep [of _ set_paddingdone_flag] keep [of _ set_urlack] keep [of _ "set_unload_flag \<circ> unset_paddingdone_flag"] url1_inv [OF i]
    unfolding dispatch1_def
    by (auto split: if_splits dest!: packet_get_cs simp: get)
qed

lemma note_arrival_inv: "tend_inv sh (w_cs w) \<Longrightarrow> tend_inv sh (w_cs (note_arrival t w))"
  by (rule tend_inv_core, assumption) (simp add: note_arrival_def read_clock_def Let_def)

lemma read_loop_inv:
  assumes "good_ids L" and "tend_inv sh (w_cs w)" and "read_poll_loop fuel L sq w = Inr (t, sq', w')"
  shows "tend_inv sh (w_cs w')"
  using assms(2,3)
proof (induction fuel arbitrary: sq w)
  case (Suc fuel)
  show ?case
  proof (cases "world.compat20 w")
    case True
    then obtain type q v where p: "packet_read_poll2 L w = Inr (type, q, v)"
      and d: "(let sq = (case q of None \<Rightarrow> sq | Some _ \<Rightarrow> q); v = (if type \<noteq> 0 then v\<lparr>keep_alive_timeouts := 0\<rparr> else v);
           v = note_arrival type v
           in rbind (dispatch2 L type v) (\<lambda>(r, w). case r of Some t \<Rightarrow> Inr (t, sq, w) | None \<Rightarrow> read_poll_loop fuel L sq w)) =
           Inr (t, sq', w')"
      using Suc.prems(2) by auto
    define v1 where "v1 = note_arrival type (if type \<noteq> 0 then v\<lparr>keep_alive_timeouts := 0\<rparr> else v)"
    have "tend_inv sh (w_cs v1)" unfolding v1_def
      by (rule note_arrival_inv) (use Suc.prems(1) poll2_cs [OF p] in auto)
    moreover obtain r v2 where d2: "dispatch2 L type v1 = Inr (r, v2)" and
      last: "(case r of Some t \<Rightarrow> Inr (t, case q of None \<Rightarrow> sq | Some _ \<Rightarrow> q, v2) | None \<Rightarrow> read_poll_loop fuel L (case q of None \<Rightarrow> sq | Some _ \<Rightarrow> q) v2) =
        Inr (t, sq', w')"
      using d unfolding Let_def v1_def [symmetric] by auto
    ultimately have "tend_inv sh (w_cs v2)" using dispatch2_inv [OF assms(1)] by blast
    then show ?thesis using last Suc.IH [of v2] by (cases r) auto
  next
    case False
    then obtain type v r v2 where p: "packet_read_poll1 L w = Inr (type, v)" and d: "dispatch1 type v = Inr (r, v2)"
      and last: "(case r of Some t \<Rightarrow> Inr (t, sq, v2) | None \<Rightarrow> read_poll_loop fuel L sq v2) = Inr (t, sq', w')"
      using Suc.prems(2) by auto
    have "tend_inv sh (w_cs v2)" using dispatch1_inv [OF _ d] Suc.prems(1) poll1_cs [OF p] by simp
    then show ?thesis using last Suc.IH [of v2] by (cases r) auto
  qed
qed simp

lemma incoming_inv: "tend_inv sh (w_cs w) \<Longrightarrow> packet_process_incoming L buf len w = Inr w' \<Longrightarrow> tend_inv sh (w_cs w')"
  by (rule tend_inv_core, assumption)
    (auto simp: packet_process_incoming_def packet_stop_discard_def Let_def split: if_splits option.splits)

lemma event_inv:
  assumes g: "good_ids L" and i: "tend_inv sh (w_cs w)" and r: "socks5_event L cmd p w = Inr w'"
  shows "tend_inv sh (w_cs w')"
proof -
  consider "cmd = 4" | "cmd = 5" | "cmd = 6" "stmode (w_cs w) = -1" | "\<not> (cmd = 4 \<or> cmd = 5 \<or> cmd = 6 \<and> stmode (w_cs w) = -1)" by blast
  then show ?thesis
  proof cases
    case 1
    then have "w_cs w' = set_onload_flag (w_cs w)" using r by (auto simp: socks5_event_def dest!: send_notify_cs packet_send_cs)
    then show ?thesis using tend_inv_onload [OF i] by simp
  next
    case 2
    then have "w_cs w' = set_unload_flag (w_cs w)" using r by (auto simp: socks5_event_def dest!: send_notify_cs packet_send_cs)
    then show ?thesis using tend_inv_core [OF i] by simp
  next
    case 3
    define f where "f s = unset_sent_tend (unset_transcript_end (unset_onload_flag s))" for s :: cs_state
    from r 3 obtain s1 v u s2 where s1: "set_url p 3 (w_cs w) = Inr s1"
      and v: "packet_send_notify (int (urllen (f s1))) CHR ''l'' (w\<lparr>w_cs := f s1\<rparr>) = Inr v" "packet_send L v = Inr u"
      and s2: "set_cluster_id (l_st_junk L) (l_cluster_file L) (l_st_file L) (url (w_cs u)) (w_cs u) = Inr s2"
      and w': "w' = u\<lparr>w_cs := if cluster_id s2 \<noteq> -1
            then set_st_idle_start 0 (set_stmode 1 (set_trans_padded_remaining 0 (unset_trans_padded
                   (set_first_client (set_received_sofar 0 s2)))))
            else set_stmode 0 (set_unload_flag (unset_paddingdone_flag s2))\<rparr>"
      by (auto simp: socks5_event_def Let_def f_def)
    have "w_cs u = f s1" using packet_send_cs [OF v(2)] send_notify_cs [OF v(1)] by simp
    then have u: "onload_flag (w_cs u) = 0" "sent_tend (w_cs u) = 0" "w2w (w_cs u) = w2w (w_cs w)" "cur_item (w_cs u) = cur_item (w_cs w)"
      "clusters (w_cs u) = clusters (w_cs w)"
      using set_url_frame [OF s1] by (simp_all add: f_def setter_defs scheme_core_def)
    note c = set_cluster_frame(1) [OF s2] set_cluster_ids [OF g s2]
    have ids: "ids_ok (clusters s2)" "-1 \<le> cluster_id s2" using c(2,3) u(5) i by (simp_all add: tend_inv_def)
    show ?thesis
    proof (cases "cluster_id s2 \<noteq> -1")
      case True
      then show ?thesis using c(1) u ids w' by (intro new_page_inv [OF i]) (simp_all add: setter_defs)
    next
      case False
      then show ?thesis using c(1) u ids w' by (intro no_replay_inv [OF i]) (simp_all add: setter_defs)
    qed
  next
    case 4
    then have "w' = w" using r by (auto simp: socks5_event_def split: if_splits)
    then show ?thesis using i by simp
  qed
qed

section \<open>The loops\<close>

text \<open>The start of both loops.\<close>

definition loop_start :: "('c, 'z) world \<Rightarrow> shaper \<times> ('c, 'z) world" where
  "loop_start w =
     (let w = set_packet_tau INITIAL_TAU w; (now, w) = read_clock w
      in (shaper_init\<lparr>sh_tau := INITIAL_TAU, time_to_write := now, old_ts := now, new_ts := now\<rparr>, set_updated_time now w))"

text \<open>
  What happens in a turn of the server: input arrives, packets are read, other parts of the program
  (channels, key exchange) send packets, and \<open>process_output\<close> writes.
\<close>

inductive server_step :: "('c, 'z) libs \<Rightarrow> shaper \<times> ('c, 'z) world \<Rightarrow> shaper \<times> ('c, 'z) world \<Rightarrow> bool" for L where
  server_gets: "packet_process_incoming L buf len w = Inr w' \<Longrightarrow> server_step L (sh, w) (sh, w')"
| server_reads: "packet_read_poll_seqnr L w = Inr (t, sq, w') \<Longrightarrow> server_step L (sh, w) (sh, w')"
| server_sends: "packet_send L (w\<lparr>outgoing_packet := b\<rparr>) = Inr w' \<Longrightarrow> server_step L (sh, w) (sh, w')"
| server_writes: "server_output fuel L writable (sh, w) = Inr (sh', w') \<Longrightarrow> server_step L (sh, w) (sh', w')"

text \<open>The client also reads the requests of local programs, on any of its channels.\<close>

inductive client_step :: "('c, 'z) libs \<Rightarrow> stpair option \<times> shaper \<times> ('c, 'z) world \<Rightarrow>
    stpair option \<times> shaper \<times> ('c, 'z) world \<Rightarrow> bool" for L where
  client_gets: "packet_process_incoming L buf len w = Inr w' \<Longrightarrow> client_step L (item, sh, w) (item, sh, w')"
| client_reads: "packet_read_poll_seqnr L w = Inr (t, sq, w') \<Longrightarrow> client_step L (item, sh, w) (item, sh, w')"
| client_sends: "packet_send L (w\<lparr>outgoing_packet := b\<rparr>) = Inr w' \<Longrightarrow> client_step L (item, sh, w) (item, sh, w')"
| client_serves: "channel_pre_dynamic L peer c fds w = Inr (c', fds', w') \<Longrightarrow> client_step L (item, sh, w) (item, sh, w')"
| client_writes: "client_output fuel L writable (item, sh, w) = Inr (item', sh', w') \<Longrightarrow>
    client_step L (item, sh, w) (item', sh', w')"

lemma start_inv: "w_cs w = cs_init \<Longrightarrow> tend_inv (fst (loop_start w)) (w_cs (snd (loop_start w)))"
  by (simp add: loop_start_def read_clock_def set_packet_tau_def set_updated_time_def tend_inv_def shaper_init_def cs_init_def
      tau_state.extend_def tau_state.defs tau_state_init_def ids_ok_def hm_lookup_def)

lemma decode_socks5_inv:
  assumes "good_ids L" and "tend_inv sh (w_cs w)" and "channel_decode_socks5 L c fds w = Inr (r, c', fds', w')"
  shows "tend_inv sh (w_cs w')"
  using assms event_inv [OF assms(1,2)] by (auto simp: channel_decode_socks5_def Let_def split: if_splits)

lemma pre_dynamic_inv:
  assumes "good_ids L" and "tend_inv sh (w_cs w)" and "channel_pre_dynamic L peer c fds w = Inr (c', fds', w')"
  shows "tend_inv sh (w_cs w')"
  using assms(2,3) by (auto simp: channel_pre_dynamic_def Let_def split: if_splits dest: decode_socks5_inv [OF assms(1,2)])

lemma read_poll_inv: "good_ids L \<Longrightarrow> tend_inv sh (w_cs w) \<Longrightarrow> packet_read_poll_seqnr L w = Inr (t, sq, w') \<Longrightarrow> tend_inv sh (w_cs w')"
  unfolding packet_read_poll_seqnr_def by (rule read_loop_inv)

lemma sends_inv: "tend_inv sh (w_cs w) \<Longrightarrow> packet_send L (w\<lparr>outgoing_packet := b\<rparr>) = Inr w' \<Longrightarrow> tend_inv sh (w_cs w')"
  by (auto dest: packet_send_cs)

lemma server_reach_inv:
  assumes "good_ids L" and "(server_step L)\<^sup>*\<^sup>* st st'" and "tend_inv (fst st) (w_cs (snd st))"
  shows "tend_inv (fst st') (w_cs (snd st'))"
  using assms(2,3)
proof (induction rule: rtranclp_induct)
  case (step x y)
  from step.hyps(2) step.IH [OF step.prems] show ?case
    by cases (auto intro: incoming_inv read_poll_inv [OF assms(1)] sends_inv server_output_inv)
qed

lemma client_reach_inv:
  assumes "good_ids L" and "(client_step L)\<^sup>*\<^sup>* st st'" and "tend_inv (fst (snd st)) (w_cs (snd (snd st)))"
  shows "tend_inv (fst (snd st')) (w_cs (snd (snd st')))"
  using assms(2,3)
proof (induction rule: rtranclp_induct)
  case (step x y)
  from step.hyps(2) step.IH [OF step.prems] show ?case
    by cases (auto intro: incoming_inv read_poll_inv [OF assms(1)] sends_inv client_output_inv pre_dynamic_inv [OF assms(1)])
qed

section \<open>The end of a transcript\<close>

text \<open>Once its own end is announced, a side that replays a transcript has nothing due and no item left.\<close>

definition quiet_at_end :: "cs_state \<Rightarrow> bool" where
  "quiet_at_end s \<longleftrightarrow> 0 \<le> w2w s \<and> (stmode s = 1 \<and> sent_tend s = 1 \<longrightarrow> w2w s = 0 \<and> cur_item s = None)"

lemma tend_inv_quiet: "tend_inv sh s \<Longrightarrow> quiet_at_end s"
  by (simp add: tend_inv_def quiet_at_end_def)


lemma demo_ids: "good_ids demo_libs"
  by (auto simp: good_ids_def demo_libs_def hm_build_def ids_ok_def hm_lookup_def hm_empty_def Let_def split: if_splits)


end
