(* ===== verification/RecvLoop.thy ===== *)
theory RecvLoop
  imports Session
begin

text \<open>
  The loop over received packets of \<open>packet_read_poll_seqnr\<close> ends: each packet takes bytes out of the input
  buffer, or finishes a packet whose first block was taken before, and no handler puts any back.
\<close>

section \<open>What leaves the input alone\<close>

definition same_in :: "('c, 'z) world \<Rightarrow> ('c, 'z) world \<Rightarrow> bool" where
  "same_in w w' \<longleftrightarrow> s_input w' = s_input w \<and> packlen w' = packlen w"

lemma same_in_refl [simp]: "same_in w w"
  by (simp add: same_in_def)

lemma same_in_trans: "same_in a b \<Longrightarrow> same_in b c \<Longrightarrow> same_in a c"
  by (simp add: same_in_def)

definition with_input :: "buffer \<Rightarrow> u32 \<Rightarrow> ('c, 'z) world \<Rightarrow> ('c, 'z) world" where
  "with_input b n w = w\<lparr>s_input := b, packlen := n\<rparr>"

interpretation inp: hidden_update "with_input b n" for b n
  by unfold_locales (simp_all add: with_input_def)

lemma keeps_input:
  assumes blind: "\<And>b n. f (with_input b n w) = rbind (f w) (\<lambda>w'. Inr (with_input b n w'))" and r: "f w = Inr w'"
  shows "same_in w w'"
proof -
  have "with_input (s_input w) (packlen w) w = w" by (simp add: with_input_def)
  with blind [of "s_input w" "packlen w"] r have "w' = with_input (s_input w) (packlen w) w'" by simp
  then have "s_input w' = s_input (with_input (s_input w) (packlen w) w')" "packlen w' = packlen (with_input (s_input w) (packlen w) w')"
    by simp_all
  then show ?thesis by (simp add: same_in_def with_input_def)
qed

lemmas input_kept =
  keeps_input [of "packet_send2_wrapped L" for L, OF inp.wrapped_blind] keeps_input [of "packet_send1 L" for L, OF inp.send1_blind]
  keeps_input [of "set_newkeys L m" for L m, OF inp.set_newkeys_blind]
  keeps_input [of "packet_enable_delayed_compress L" for L, OF inp.delayed_compress_blind]

lemma send_queue_in: "send_queue L q w = Inr w' \<Longrightarrow> same_in w w'"
proof (induction L q w rule: send_queue.induct)
  case 1
  then show ?case by simp
next
  case 2
  then show ?case by (auto dest!: input_kept) (auto simp: same_in_def)
qed

lemma send2_in: "packet_send2 L w = Inr w' \<Longrightarrow> same_in w w'"
  by (auto simp: packet_send2_def Let_def split: if_splits dest!: input_kept send_queue_in) (auto simp: same_in_def)

lemma packet_send_in: "packet_send L w = Inr w' \<Longrightarrow> same_in w w'"
  by (auto simp: packet_send_def split: if_splits dest: input_kept send2_in)

lemma upd_outgoing_in: "upd_outgoing f w = Inr w' \<Longrightarrow> same_in w w'"
  by (auto simp: upd_outgoing_def same_in_def)

lemma put_chars_in: "put_chars cs w = Inr w' \<Longrightarrow> same_in w w'"
proof (induction cs arbitrary: w)
  case (Cons c cs)
  then show ?case by (auto simp: packet_put_char_def dest!: upd_outgoing_in intro: same_in_trans)
qed simp

lemma random_chars_in: "(case random_bytes n i r w of (b, w) \<Rightarrow> put_chars b w) = Inr w' \<Longrightarrow> same_in w w'"
  using random_bytes_frame [of n i r w] by (auto dest!: put_chars_in simp: same_in_def)

lemma packet_start_in: "packet_start t w = Inr w' \<Longrightarrow> same_in w w'"
  by (auto simp: packet_start_def Let_def same_in_def dest!: upd_outgoing_in)

lemma put_int_in: "packet_put_int n w = Inr w' \<Longrightarrow> same_in w w'"
  by (auto simp: packet_put_int_def dest!: upd_outgoing_in)

lemma send_notify_in: "packet_send_notify n f w = Inr w' \<Longrightarrow> same_in w w'"
  by (cases "notify_type f") (auto simp: packet_send_notify_def Let_def split: if_splits
    dest!: packet_start_in put_int_in put_chars_in random_chars_in intro: same_in_trans)

section \<open>Progress\<close>

text \<open>What is left to receive: the bytes in the buffer, and one more for a packet that was begun.\<close>

definition pending_in :: "('c, 'z) world \<Rightarrow> nat" where
  "pending_in w = unat (buffer_len (s_input w)) + (if packlen w = 0 then 0 else 1)"

lemma same_pending: "same_in w w' \<Longrightarrow> pending_in w' = pending_in w"
  by (simp add: same_in_def pending_in_def)

lemma consume_len:
  assumes "buffer_consume b n = Inr b'"
  shows "unat (buffer_len b') + unat n = unat (buffer_len b)"
proof -
  have n: "\<not> n > buffer_len b" "b' = b\<lparr>b_offset := b_offset b + n\<rparr>"
    using assms by (auto simp: buffer_consume_def buffer_consume_ret_def buffer_len_def split: if_splits)
  have "buffer_len b' = buffer_len b - n" unfolding n(2) buffer_len_def by simp
  then show ?thesis using n(1) unat_sub_small [of n "buffer_len b"] by (simp add: word_less_nat_alt)
qed

lemma uncompress_in: "uncompress_incoming L w = Inr w' \<Longrightarrow> same_in w w'"
  by (auto simp: uncompress_incoming_def same_in_def)

lemma check_attack_in: "check_attack buf len w = Inr w' \<Longrightarrow> same_in w w'"
  by (auto simp: check_attack_def same_in_def split: if_splits deattack.splits; metis deattack.exhaust)

lemma read_account_in: "read_account b w = Inr w' \<Longrightarrow> same_in w w'"
  by (auto simp: read_account_def Let_def same_in_def split: if_splits)

lemma poll2_first_in:
  assumes "poll2_first L e m bs w = Inr (True, w')"
  shows "if packlen w = 0 then unat (buffer_len (s_input w')) + unat bs = unat (buffer_len (s_input w)) else w' = w"
  using assms by (auto simp: poll2_first_def Let_def split: if_splits dest!: consume_len)

lemma poll2_mac_in:
  assumes "poll2_mac L e m need w = Inr (True, w')"
  shows "unat (buffer_len (s_input w')) \<le> unat (buffer_len (s_input w))"
  using assms by (auto simp: poll2_mac_def split: if_splits option.splits dest!: consume_len)

lemma new_state_in:
  assumes "(if a then set_newkeys L m w else if b then packet_enable_delayed_compress L w else Inr w) = Inr w'"
  shows "same_in w w'"
  using assms by (auto split: if_splits dest: input_kept)

lemma opened_in:
  assumes "(if c then uncompress_incoming L (w\<lparr>incoming_packet := ip\<rparr>) else Inr (w\<lparr>incoming_packet := ip\<rparr>)) = Inr w'"
  shows "same_in w w'"
  using assms by (auto split: if_splits dest!: uncompress_in) (auto simp: same_in_def)

lemma poll2_open_in: "poll2_open L c w = Inr (t, w') \<Longrightarrow> s_input w' = s_input w \<and> packlen w' = 0"
  unfolding poll2_open_def Let_def case_prod_beta
  by (elim rbind_InrE if_InrE) (drule opened_in, drule new_state_in, auto simp: same_in_def)

lemma poll2_progress:
  assumes r: "packet_read_poll2 L w = Inr (t, sq, w')" and t: "t \<noteq> SSH_MSG_NONE"
  shows "pending_in w' < pending_in w"
proof -
  let ?e = "map_option nk_enc (newkeys_in w)" and ?m = "map_option nk_mac (newkeys_in w)"
  let ?bs = "case ?e of None \<Rightarrow> 8 | Some e \<Rightarrow> enc_block_size e"
  from r t obtain w1 w2 w3 w4 cc ip inp c where
    f: "poll2_first L ?e ?m ?bs w = Inr (True, w1)" and bs: "?bs \<noteq> 0"
    and i: "buffer_consume (s_input w1) (4 + packlen w1 - ?bs) = Inr inp"
    and m: "poll2_mac L ?e ?m (4 + packlen w1 - ?bs) (w1\<lparr>receive_context := cc, incoming_packet := ip, s_input := inp\<rparr>) = Inr (True, w2)"
    and a: "read_account ?bs w2 = Inr w3" and o: "poll2_open L c w3 = Inr (t, w')"
    unfolding packet_read_poll2_def Let_def case_prod_beta
    by (auto split: if_splits)
  have "unat (buffer_len (s_input w')) \<le> unat (buffer_len (s_input w1))"
    using consume_len [OF i] poll2_mac_in [OF m] read_account_in [OF a] poll2_open_in [OF o] by (simp add: same_in_def)
  moreover have "unat ?bs > 0" using bs by (simp add: unat_gt_0)
  ultimately show ?thesis using poll2_first_in [OF f] poll2_open_in [OF o] by (auto simp: pending_in_def split: if_splits)
qed

lemma poll1_progress:
  assumes r: "packet_read_poll1 L w = Inr (t, w')" and t: "t \<noteq> SSH_MSG_NONE"
  shows "pending_in w' < pending_in w"
  using r t unfolding packet_read_poll1_def Let_def case_prod_beta
  by (auto split: if_splits elim!: rbind_InrE if_InrE dest!: uncompress_in check_attack_in consume_len simp: same_in_def pending_in_def)

lemma packet_get_in:
  "packet_get_char w = Inr (c, w') \<Longrightarrow> same_in w w'" "packet_get_int w = Inr (n, w') \<Longrightarrow> same_in w w'"
  "packet_get_string w = Inr (s, w') \<Longrightarrow> same_in w w'"
  by (auto simp: packet_get_char_def packet_get_int_def packet_get_string_def upd_incoming_def same_in_def)

lemma recv_url2_in: "recv_url2 L w = Inr w' \<Longrightarrow> same_in w w'"
  by (auto simp: recv_url2_def split: if_splits dest!: send_notify_in packet_send_in) (auto simp: same_in_def)

lemma dispatch2_in: "dispatch2 L t w = Inr (r, w') \<Longrightarrow> same_in w w'"
  by (auto simp: dispatch2_def split: if_splits dest!: packet_get_in recv_url2_in) (auto simp: same_in_def)

lemma dispatch1_in: "dispatch1 t w = Inr (r, w') \<Longrightarrow> same_in w w'"
  by (auto simp: dispatch1_def split: if_splits dest!: packet_get_in) (auto simp: same_in_def)

lemma dispatch_none: "dispatch2 L SSH_MSG_NONE w = Inr (Some SSH_MSG_NONE, w)" "dispatch1 SSH_MSG_NONE w = Inr (Some SSH_MSG_NONE, w)"
  by (simp_all add: dispatch2_def dispatch1_def)

lemma note_arrival_in: "same_in w (note_arrival t w)"
  by (auto simp: note_arrival_def read_clock_def same_in_def Let_def)

section \<open>The loop\<close>

lemma read_poll_fuel:
  assumes "pending_in w < fuel"
  shows "read_poll_loop (fuel + k) L sq w = read_poll_loop fuel L sq w"
  using assms
proof (induction fuel arbitrary: sq w)
  case (Suc fuel)
  have two: "read_poll_loop (fuel + k) L sq' w2 = read_poll_loop fuel L sq' w2"
    if "packet_read_poll2 L w = Inr (t, sq1, w1)" "dispatch2 L t (note_arrival t (if t \<noteq> 0 then w1\<lparr>keep_alive_timeouts := 0\<rparr> else w1)) = Inr (None, w2)"
    for t sq1 w1 w2 sq'
  proof -
    have t: "t \<noteq> SSH_MSG_NONE" using that(2) by (auto simp: dispatch_none)
    have "same_in w1 w2" using dispatch2_in [OF that(2)] t by (simp add: same_in_def note_arrival_in [unfolded same_in_def])
    then show ?thesis using poll2_progress [OF that(1) t] Suc.prems by (intro Suc.IH) (simp add: same_pending)
  qed
  have one: "read_poll_loop (fuel + k) L sq' w2 = read_poll_loop fuel L sq' w2"
    if "packet_read_poll1 L w = Inr (t, w1)" "dispatch1 t w1 = Inr (None, w2)" for t w1 w2 sq'
  proof -
    have t: "t \<noteq> SSH_MSG_NONE" using that(2) by (auto simp: dispatch_none)
    show ?thesis using poll1_progress [OF that(1) t] same_pending [OF dispatch1_in [OF that(2)]] Suc.prems by (intro Suc.IH) simp
  qed
  show ?case
  proof (cases "world.compat20 w")
    case True
    then show ?thesis unfolding add_Suc read_poll_loop.simps
      by (auto simp: Let_def case_prod_beta intro!: rbind_cong two split: option.split)
  next
    case False
    then show ?thesis unfolding add_Suc read_poll_loop.simps
      by (auto simp: Let_def case_prod_beta intro!: rbind_cong one split: option.split)
  qed
qed simp


end
