(* ===== verification/ChanFlow.thy ===== *)
theory ChanFlow
  imports Socks
begin

text \<open>
  The data path of a channel, in \<open>channels.c\<close>: reading from and writing to its descriptors, packing data
  into messages, taking messages apart, and the windows that bound what is under way. Messages go to
  \<open>ch_sent\<close> as in \<open>nchan.c\<close>. The answers of \<open>read\<close> and \<open>write\<close> are parameters; filters, which only tunnel
  devices have, are left out.
\<close>

section \<open>Before select\<close>

abbreviation SSH_CHANNEL_OPEN :: int where "SSH_CHANNEL_OPEN \<equiv> 4"
abbreviation SSH_CHANNEL_CLOSED :: int where "SSH_CHANNEL_CLOSED \<equiv> 5"
abbreviation SSH_CHANNEL_X11_OPEN :: int where "SSH_CHANNEL_X11_OPEN \<equiv> 7"
abbreviation SSH_CHANNEL_INPUT_DRAINING :: int where "SSH_CHANNEL_INPUT_DRAINING \<equiv> 8"
abbreviation SSH_CHANNEL_OUTPUT_DRAINING :: int where "SSH_CHANNEL_OUTPUT_DRAINING \<equiv> 9"
abbreviation SSH_CHANNEL_CONNECTING :: int where "SSH_CHANNEL_CONNECTING \<equiv> 12"
abbreviation SSH_CHANNEL_DYNAMIC :: int where "SSH_CHANNEL_DYNAMIC \<equiv> 13"
abbreviation CHAN_EXTENDED_IGNORE :: nat where "CHAN_EXTENDED_IGNORE \<equiv> 0"
abbreviation CHAN_EXTENDED_READ :: nat where "CHAN_EXTENDED_READ \<equiv> 1"
abbreviation CHAN_RBUF :: nat where "CHAN_RBUF \<equiv> 16384"
abbreviation SSH_MSG_CHANNEL_DATA :: byte where "SSH_MSG_CHANNEL_DATA \<equiv> 23"
abbreviation SSH_MSG_CHANNEL_CLOSE :: byte where "SSH_MSG_CHANNEL_CLOSE \<equiv> 24"
abbreviation SSH_MSG_CHANNEL_CLOSE_CONFIRMATION :: byte where "SSH_MSG_CHANNEL_CLOSE_CONFIRMATION \<equiv> 25"
abbreviation SSH2_MSG_CHANNEL_WINDOW_ADJUST :: byte where "SSH2_MSG_CHANNEL_WINDOW_ADJUST \<equiv> 93"
abbreviation SSH2_MSG_CHANNEL_DATA :: byte where "SSH2_MSG_CHANNEL_DATA \<equiv> 94"
abbreviation SSH2_MSG_CHANNEL_EXTENDED_DATA :: byte where "SSH2_MSG_CHANNEL_EXTENDED_DATA \<equiv> 95"
abbreviation SSH2_EXTENDED_DATA_STDERR :: u32 where "SSH2_EXTENDED_DATA_STDERR \<equiv> 1"

definition efd_input_active :: "proto \<Rightarrow> channel \<Rightarrow> bool" where
  "efd_input_active env c \<longleftrightarrow>
     proto.compat20 env \<and> ch_extended_usage c = CHAN_EXTENDED_READ \<and> (ch_efd c \<noteq> -1 \<or> buffer_len (ch_extended c) > 0)"

text \<open>Which descriptors to wait for. \<open>maxsize\<close> is the packet size of protocol 1.\<close>

definition pre_open_extended :: "proto \<Rightarrow> channel \<Rightarrow> fd_sets \<Rightarrow> fd_sets" where
  "pre_open_extended env c fds =
     (if proto.compat20 env \<and> ch_efd c \<noteq> -1 \<and> \<not> (ch_istate c = CHAN_INPUT_CLOSED \<and> ch_ostate c = CHAN_OUTPUT_CLOSED)
      then if ch_extended_usage c = CHAN_EXTENDED_WRITE \<and> buffer_len (ch_extended c) > 0 then (fst fds, insert (ch_efd c) (snd fds))
           else if \<not> has_flag c CHAN_EOF_SENT \<and>
                   (ch_extended_usage c = CHAN_EXTENDED_READ \<or> ch_extended_usage c = CHAN_EXTENDED_IGNORE) \<and>
                   buffer_len (ch_extended c) < ch_remote_window c
           then (insert (ch_efd c) (fst fds), snd fds) else fds
      else fds)"

definition pre_open_input :: "proto \<Rightarrow> u32 \<Rightarrow> channel \<Rightarrow> fd_sets \<Rightarrow> (channel \<times> fd_sets) result" where
  "pre_open_input env maxsize c fds =
     (let limit = (if proto.compat20 env then ch_remote_window c else maxsize) in
      if ch_istate c = CHAN_INPUT_OPEN \<and> limit > 0 \<and> buffer_len (ch_input c) < limit
      then rbind (buffer_check_alloc (ch_input c) (of_nat CHAN_RBUF)) (\<lambda>(ok, b).
             Inr (c\<lparr>ch_input := b\<rparr>, if ok then (insert (ch_rfd c) (fst fds), snd fds) else fds))
      else Inr (c, fds))"

definition pre_open_output :: "proto \<Rightarrow> channel \<Rightarrow> fd_sets \<Rightarrow> (channel \<times> fd_sets) result" where
  "pre_open_output env c fds =
     (if ch_ostate c = CHAN_OUTPUT_OPEN \<or> ch_ostate c = CHAN_OUTPUT_WAIT_DRAIN
      then if buffer_len (ch_output c) > 0 then Inr (c, fst fds, insert (ch_wfd c) (snd fds))
           else if ch_ostate c = CHAN_OUTPUT_WAIT_DRAIN \<and> \<not> efd_output_active env c
           then rbind (chan_obuf_empty env c) (\<lambda>c. Inr (c, fds))
           else Inr (c, fds)
      else Inr (c, fds))"

definition channel_pre_open :: "proto \<Rightarrow> u32 \<Rightarrow> channel \<Rightarrow> fd_sets \<Rightarrow> (channel \<times> fd_sets) result" where
  "channel_pre_open env maxsize c fds =
     rbind (pre_open_input env maxsize c fds) (\<lambda>(c, fds).
     rbind (pre_open_output env c fds) (\<lambda>(c, fds). Inr (c, pre_open_extended env c fds)))"

definition channel_pre_input_draining :: "channel \<Rightarrow> channel" where
  "channel_pre_input_draining c =
     (if buffer_len (ch_input c) = 0
      then (send_msg SSH_MSG_CHANNEL_CLOSE (put_u32 (ch_remote_id c)) c)\<lparr>ch_type := SSH_CHANNEL_CLOSED\<rparr> else c)"

definition channel_pre_output_draining :: "channel \<Rightarrow> fd_sets \<Rightarrow> channel \<times> fd_sets" where
  "channel_pre_output_draining c fds =
     (if buffer_len (ch_output c) = 0 then (chan_mark_dead c, fds) else (c, fst fds, insert (ch_sock c) (snd fds)))"

section \<open>After select\<close>

datatype errno = EINTR | EAGAIN | EOTHER

datatype read_answer = ReadErr errno | ReadData "byte list"

datatype write_answer = WriteErr errno | Wrote nat

text \<open>End of file or an error on the reading side.\<close>

definition rfd_closed :: "proto \<Rightarrow> channel \<Rightarrow> channel result" where
  "rfd_closed env c =
     (if ch_type c \<noteq> SSH_CHANNEL_OPEN then Inr (chan_mark_dead c)
      else if compat13 env then Inr (c\<lparr>ch_output := buffer_clear (ch_output c), ch_type := SSH_CHANNEL_INPUT_DRAINING\<rparr>)
      else chan_read_failed env c)"

definition channel_handle_rfd :: "proto \<Rightarrow> int set \<Rightarrow> read_answer \<Rightarrow> channel \<Rightarrow> channel result" where
  "channel_handle_rfd env readset ans c =
     (let force = (ch_isatty c \<and> ch_detach_close c \<and> ch_istate c \<noteq> CHAN_INPUT_CLOSED) in
      if ch_rfd c \<noteq> -1 \<and> (force \<or> ch_rfd c \<in> readset)
      then case ans of
             ReadErr e \<Rightarrow> if e = EINTR \<or> e = EAGAIN \<and> \<not> force then Inr c else rfd_closed env c
           | ReadData d \<Rightarrow>
               let buf = take CHAN_RBUF d; len = of_nat (length buf) in
               if buf = [] then rfd_closed env c
               else rbind (if ch_datagram c then buffer_put_string (ch_input c) buf len else buffer_append (ch_input c) buf len)
                      (\<lambda>b. Inr (c\<lparr>ch_input := b\<rparr>))
      else Inr c)"

definition wfd_failed :: "proto \<Rightarrow> channel \<Rightarrow> channel result" where
  "wfd_failed env c =
     (if ch_type c \<noteq> SSH_CHANNEL_OPEN then Inr (chan_mark_dead c)
      else if compat13 env \<and> \<not> ch_datagram c
      then Inr (c\<lparr>ch_output := buffer_clear (ch_output c), ch_type := SSH_CHANNEL_INPUT_DRAINING\<rparr>)
      else chan_write_failed env c)"

text \<open>What was taken out of the output since it held \<open>olen\<close> bytes counts as consumed.\<close>

definition count_consumed :: "proto \<Rightarrow> u32 \<Rightarrow> channel \<Rightarrow> channel" where
  "count_consumed env olen c =
     (if proto.compat20 env then c\<lparr>ch_local_consumed := ch_local_consumed c + (olen - buffer_len (ch_output c))\<rparr> else c)"

text \<open>
  Writing, with \<open>noecho\<close> the state of the terminal: input that is not echoed gets a junk packet of the
  size an echo would have. The kernel writes at most what it is given.
\<close>

definition channel_handle_wfd :: "('c, 'z) libs \<Rightarrow> proto \<Rightarrow> int set \<Rightarrow> write_answer \<Rightarrow> bool \<Rightarrow> channel \<times> ('c, 'z) world \<Rightarrow>
    (channel \<times> ('c, 'z) world) result" where
  "channel_handle_wfd L env writeset ans noecho = (\<lambda>(c, w).
     if ch_wfd c \<noteq> -1 \<and> ch_wfd c \<in> writeset \<and> buffer_len (ch_output c) > 0
     then
       let olen = buffer_len (ch_output c) in
       rbind (if ch_datagram c then rbind (buffer_get_string (ch_output c)) (\<lambda>(d, b). Inr (d, c\<lparr>ch_output := b\<rparr>))
              else Inr (take (unat olen) (buffer_ptr (ch_output c)), c)) (\<lambda>(buf, c).
       case ans of
         WriteErr e \<Rightarrow> if e = EINTR \<or> e = EAGAIN then Inr (c, w) else rbind (wfd_failed env c) (\<lambda>c. Inr (c, w))
       | Wrote n \<Rightarrow>
           let len = min n (length buf) in
           if len = 0 then rbind (wfd_failed env c) (\<lambda>c. Inr (c, w))
           else if ch_datagram c then Inr (count_consumed env olen c, w)
           else
             rbind (if proto.compat20 env \<and> ch_isatty c \<and> buf ! 0 \<noteq> 13 \<and> noecho
                    then rbind (packet_send_ignore (4 + int len) w) (packet_send L) else Inr w) (\<lambda>w.
             rbind (buffer_consume (ch_output c) (of_nat len)) (\<lambda>b.
               Inr (count_consumed env olen (c\<lparr>ch_output := b\<rparr>), w))))
     else Inr (c, w))"

definition close_efd :: "channel \<Rightarrow> channel" where
  "close_efd c = (if ch_efd c \<noteq> -1 then c\<lparr>ch_os := ch_os c @ [CloseFd (ch_efd c)], ch_efd := -1\<rparr> else c)"

definition channel_handle_efd :: "fd_sets \<Rightarrow> read_answer \<Rightarrow> write_answer \<Rightarrow> channel \<Rightarrow> channel result" where
  "channel_handle_efd fds rans wans c =
     (if ch_efd c = -1 then Inr c
      else if ch_extended_usage c = CHAN_EXTENDED_WRITE \<and> ch_efd c \<in> snd fds \<and> buffer_len (ch_extended c) > 0
      then case wans of
             WriteErr e \<Rightarrow> if e = EINTR \<or> e = EAGAIN then Inr c else Inr (close_efd c)
           | Wrote n \<Rightarrow>
               let len = min n (unat (buffer_len (ch_extended c))) in
               if len = 0 then Inr (close_efd c)
               else rbind (buffer_consume (ch_extended c) (of_nat len)) (\<lambda>b.
                      Inr (c\<lparr>ch_extended := b, ch_local_consumed := ch_local_consumed c + of_nat len\<rparr>))
      else if (ch_extended_usage c = CHAN_EXTENDED_READ \<or> ch_extended_usage c = CHAN_EXTENDED_IGNORE) \<and>
              (ch_detach_close c \<or> ch_efd c \<in> fst fds)
      then case rans of
             ReadErr e \<Rightarrow> if e = EINTR \<or> e = EAGAIN \<and> \<not> ch_detach_close c then Inr c else Inr (close_efd c)
           | ReadData d \<Rightarrow>
               let buf = take CHAN_RBUF d in
               if buf = [] then Inr (close_efd c)
               else if ch_extended_usage c = CHAN_EXTENDED_IGNORE then Inr c
               else rbind (buffer_append (ch_extended c) buf (of_nat (length buf))) (\<lambda>b. Inr (c\<lparr>ch_extended := b\<rparr>))
      else Inr c)"

text \<open>The window is opened again by what was consumed.\<close>

definition channel_check_window :: "channel \<Rightarrow> channel" where
  "channel_check_window c =
     (if ch_type c = SSH_CHANNEL_OPEN \<and> \<not> has_flag c (CHAN_CLOSE_SENT OR CHAN_CLOSE_RCVD) \<and>
         (ch_local_window_max c - ch_local_window c > ch_local_maxpacket c * 3 \<or> ch_local_window c < ch_local_window_max c div 2) \<and>
         ch_local_consumed c > 0
      then (send_msg SSH2_MSG_CHANNEL_WINDOW_ADJUST (put_u32 (ch_remote_id c) @ put_u32 (ch_local_consumed c)) c)
             \<lparr>ch_local_window := ch_local_window c + ch_local_consumed c, ch_local_consumed := 0\<rparr>
      else c)"

definition channel_post_open :: "('c, 'z) libs \<Rightarrow> proto \<Rightarrow> fd_sets \<Rightarrow> read_answer \<Rightarrow> write_answer \<Rightarrow> bool \<Rightarrow> read_answer \<Rightarrow> write_answer \<Rightarrow>
    channel \<times> ('c, 'z) world \<Rightarrow> (channel \<times> ('c, 'z) world) result" where
  "channel_post_open L env fds rans wans noecho erans ewans = (\<lambda>(c, w).
     rbind (channel_handle_rfd env (fst fds) rans c) (\<lambda>c.
     rbind (channel_handle_wfd L env (snd fds) wans noecho (c, w)) (\<lambda>(c, w).
       if \<not> proto.compat20 env then Inr (c, w)
       else rbind (channel_handle_efd fds erans ewans c) (\<lambda>c. Inr (channel_check_window c, w)))))"

section \<open>Data for the peer\<close>

definition data_msg :: "proto \<Rightarrow> byte list \<Rightarrow> channel \<Rightarrow> channel" where
  "data_msg env d c =
     send_msg (if proto.compat20 env then SSH2_MSG_CHANNEL_DATA else SSH_MSG_CHANNEL_DATA)
       (put_u32 (ch_remote_id c) @ string_enc d) c"

text \<open>A datagram is sent whole or not at all.\<close>

definition output_datagram :: "channel \<Rightarrow> channel result" where
  "output_datagram c =
     rbind (buffer_get_string (ch_input c)) (\<lambda>(data, b).
     let c = c\<lparr>ch_input := b\<rparr>; dlen = of_nat (length data) in
     if dlen > ch_remote_window c \<or> dlen > ch_remote_maxpacket c then Inr c
     else Inr ((send_msg SSH2_MSG_CHANNEL_DATA (put_u32 (ch_remote_id c) @ string_enc data) c)
                 \<lparr>ch_remote_window := ch_remote_window c - (dlen + 4)\<rparr>))"

text \<open>How much of \<open>len\<close> bytes goes into one message.\<close>

definition output_amount :: "proto \<Rightarrow> bool \<Rightarrow> u32 \<Rightarrow> channel \<Rightarrow> u32 \<Rightarrow> u32" where
  "output_amount env interactive maxsize c len =
     (if proto.compat20 env then min (min len (ch_remote_window c)) (ch_remote_maxpacket c)
      else if interactive then if len > 1024 then 512 else len
      else if len > maxsize div 2 then maxsize div 2 else len)"

definition output_stream :: "proto \<Rightarrow> bool \<Rightarrow> u32 \<Rightarrow> channel \<Rightarrow> channel result" where
  "output_stream env interactive maxsize c =
     (let len = output_amount env interactive maxsize c (buffer_len (ch_input c)) in
      if len > 0
      then rbind (buffer_consume (ch_input c) len) (\<lambda>b.
             Inr ((data_msg env (take (unat len) (buffer_ptr (ch_input c))) c)
                    \<lparr>ch_input := b, ch_remote_window := ch_remote_window c - len\<rparr>))
      else Inr c)"

definition output_extended :: "proto \<Rightarrow> channel \<Rightarrow> channel result" where
  "output_extended env c =
     (if proto.compat20 env \<and> \<not> has_flag c CHAN_EOF_SENT \<and> ch_remote_window c > 0 \<and> buffer_len (ch_extended c) > 0 \<and>
         ch_extended_usage c = CHAN_EXTENDED_READ
      then let len = min (min (buffer_len (ch_extended c)) (ch_remote_window c)) (ch_remote_maxpacket c) in
           rbind (buffer_consume (ch_extended c) len) (\<lambda>b.
             Inr ((send_msg SSH2_MSG_CHANNEL_EXTENDED_DATA
                     (put_u32 (ch_remote_id c) @ put_u32 SSH2_EXTENDED_DATA_STDERR @
                      string_enc (take (unat len) (buffer_ptr (ch_extended c)))) c)
                    \<lparr>ch_extended := b, ch_remote_window := ch_remote_window c - len\<rparr>))
      else Inr c)"

text \<open>One channel of \<open>channel_output_poll\<close>, and all of them.\<close>

definition output_poll_one :: "proto \<Rightarrow> bool \<Rightarrow> u32 \<Rightarrow> channel \<Rightarrow> channel result" where
  "output_poll_one env interactive maxsize c =
     (if ch_type c \<noteq> SSH_CHANNEL_OPEN \<and> \<not> (compat13 env \<and> ch_type c = SSH_CHANNEL_INPUT_DRAINING) then Inr c
      else if proto.compat20 env \<and> has_flag c (CHAN_CLOSE_SENT OR CHAN_CLOSE_RCVD) then Inr c
      else if (ch_istate c = CHAN_INPUT_OPEN \<or> ch_istate c = CHAN_INPUT_WAIT_DRAIN) \<and> buffer_len (ch_input c) > 0 \<and> ch_datagram c
      then output_datagram c
      else
        rbind (if (ch_istate c = CHAN_INPUT_OPEN \<or> ch_istate c = CHAN_INPUT_WAIT_DRAIN) \<and> buffer_len (ch_input c) > 0
               then output_stream env interactive maxsize c
               else if ch_istate c = CHAN_INPUT_WAIT_DRAIN
               then if compat13 env then Inl (Fatal ''cannot happen: istate == INPUT_WAIT_DRAIN for proto 1.3'')
                    else if efd_input_active env c then Inr c else chan_ibuf_empty env c
               else Inr c) (output_extended env))"

fun channel_output_poll :: "proto \<Rightarrow> bool \<Rightarrow> u32 \<Rightarrow> channel option list \<Rightarrow> channel option list result" where
  "channel_output_poll env interactive maxsize [] = Inr []"
| "channel_output_poll env interactive maxsize (None # cs) =
     rbind (channel_output_poll env interactive maxsize cs) (\<lambda>cs. Inr (None # cs))"
| "channel_output_poll env interactive maxsize (Some c # cs) =
     rbind (output_poll_one env interactive maxsize c) (\<lambda>c.
     rbind (channel_output_poll env interactive maxsize cs) (\<lambda>cs. Inr (Some c # cs)))"

section \<open>Messages from the peer\<close>

definition channel_by_id :: "channel option list \<Rightarrow> int \<Rightarrow> channel option" where
  "channel_by_id chans n = (if n < 0 \<or> nat n \<ge> length chans then None else chans ! nat n)"

definition channel_lookup :: "channel option list \<Rightarrow> int \<Rightarrow> channel option" where
  "channel_lookup chans n =
     (case channel_by_id chans n of
        None \<Rightarrow> None
      | Some c \<Rightarrow>
          if ch_type c \<in> {SSH_CHANNEL_X11_OPEN, SSH_CHANNEL_LARVAL, SSH_CHANNEL_CONNECTING, SSH_CHANNEL_DYNAMIC, SSH_CHANNEL_OPENING,
              SSH_CHANNEL_OPEN, SSH_CHANNEL_INPUT_DRAINING, SSH_CHANNEL_OUTPUT_DRAINING}
          then Some c else None)"

text \<open>Data for a channel. The flag says whether the rest of the message is looked at.\<close>

definition recv_data :: "proto \<Rightarrow> byte list \<Rightarrow> channel \<Rightarrow> (bool \<times> channel) result" where
  "recv_data env data c =
     (let win_len = of_nat (length data) + (if ch_datagram c then 4 else 0) in
      if \<not> compat13 env \<and> ch_ostate c \<noteq> CHAN_OUTPUT_OPEN
      then Inr (False, if proto.compat20 env
                       then c\<lparr>ch_local_window := ch_local_window c - win_len, ch_local_consumed := ch_local_consumed c + win_len\<rparr>
                       else c)
      else if proto.compat20 env \<and> win_len > ch_local_window c then Inr (False, c)
      else let c = (if proto.compat20 env then c\<lparr>ch_local_window := ch_local_window c - win_len\<rparr> else c) in
           rbind (if ch_datagram c then buffer_put_string (ch_output c) data (of_nat (length data))
                  else buffer_append (ch_output c) data (of_nat (length data))) (\<lambda>b.
             Inr (True, c\<lparr>ch_output := b\<rparr>)))"

definition packet_check_eom :: "('c, 'z) world \<Rightarrow> ('c, 'z) world result" where
  "packet_check_eom w = (if packet_remaining w > 0 then Inl (Disconnect ''Packet integrity error.'') else Inr w)"

text \<open>The channel a message is for, from its first word.\<close>

definition get_channel :: "channel option list \<Rightarrow> ('c, 'z) world \<Rightarrow> (int \<times> channel option \<times> ('c, 'z) world) result" where
  "get_channel chans w = rbind (packet_get_int w) (\<lambda>(n, w). Inr (sint n, channel_lookup chans (sint n), w))"

definition channel_input_data :: "proto \<Rightarrow> channel option list \<Rightarrow> ('c, 'z) world \<Rightarrow> (channel option list \<times> ('c, 'z) world) result" where
  "channel_input_data env chans w =
     rbind (get_channel chans w) (\<lambda>(n, c, w).
     case c of
       None \<Rightarrow> Inl (Disconnect ''Received data for nonexistent channel'')
     | Some c \<Rightarrow>
         if ch_type c \<noteq> SSH_CHANNEL_OPEN \<and> ch_type c \<noteq> SSH_CHANNEL_X11_OPEN then Inr (chans, w)
         else rbind (packet_get_string_ptr w) (\<lambda>(data, w).
              rbind (recv_data env data c) (\<lambda>(whole, c).
              rbind (if whole then packet_check_eom w else Inr w) (\<lambda>w. Inr (chans[nat n := Some c], w)))))"

text \<open>Extended data for a channel, taken or not.\<close>

definition recv_extended :: "byte list \<Rightarrow> channel \<Rightarrow> channel result" where
  "recv_extended data c =
     (if of_nat (length data) > ch_local_window c then Inr c
      else rbind (buffer_append (ch_extended c) data (of_nat (length data))) (\<lambda>b.
             Inr (c\<lparr>ch_local_window := ch_local_window c - of_nat (length data), ch_extended := b\<rparr>)))"

definition channel_input_extended_data :: "proto \<Rightarrow> channel option list \<Rightarrow> ('c, 'z) world \<Rightarrow>
    (channel option list \<times> ('c, 'z) world) result" where
  "channel_input_extended_data env chans w =
     rbind (get_channel chans w) (\<lambda>(n, c, w).
     case c of
       None \<Rightarrow> Inl (Disconnect ''Received extended_data for bad channel'')
     | Some c \<Rightarrow>
         if ch_type c \<noteq> SSH_CHANNEL_OPEN then Inr (chans, w)
         else if has_flag c CHAN_EOF_RCVD \<and> proto.datafellows env AND SSH_BUG_EXTEOF = 0
         then Inl (Disconnect ''Received extended_data after EOF'')
         else rbind (packet_get_int w) (\<lambda>(tcode, w).
           if ch_efd c = -1 \<or> ch_extended_usage c \<noteq> CHAN_EXTENDED_WRITE \<or> tcode \<noteq> SSH2_EXTENDED_DATA_STDERR then Inr (chans, w)
           else rbind (packet_get_string w) (\<lambda>(data, w).
                rbind (packet_check_eom w) (\<lambda>w.
                rbind (recv_extended data c) (\<lambda>c. Inr (chans[nat n := Some c], w))))))"

definition recv_adjust :: "u32 \<Rightarrow> channel \<Rightarrow> channel" where
  "recv_adjust adjust c = c\<lparr>ch_remote_window := ch_remote_window c + adjust\<rparr>"

definition channel_input_window_adjust :: "proto \<Rightarrow> channel option list \<Rightarrow> ('c, 'z) world \<Rightarrow>
    (channel option list \<times> ('c, 'z) world) result" where
  "channel_input_window_adjust env chans w =
     (if \<not> proto.compat20 env then Inr (chans, w)
      else rbind (get_channel chans w) (\<lambda>(n, c, w).
        case c of
          None \<Rightarrow> Inr (chans, w)
        | Some c \<Rightarrow> rbind (packet_get_int w) (\<lambda>(adjust, w).
            rbind (packet_check_eom w) (\<lambda>w. Inr (chans[nat n := Some (recv_adjust adjust c)], w)))))"

definition channel_input_ieof :: "proto \<Rightarrow> channel option list \<Rightarrow> ('c, 'z) world \<Rightarrow> (channel option list \<times> ('c, 'z) world) result" where
  "channel_input_ieof env chans w =
     rbind (get_channel chans w) (\<lambda>(n, c, w).
     rbind (packet_check_eom w) (\<lambda>w.
     case c of
       None \<Rightarrow> Inl (Disconnect ''Received ieof for nonexistent channel'')
     | Some c \<Rightarrow>
         rbind (chan_rcvd_ieof env c) (\<lambda>c.
         rbind (if ch_force_drain c \<and> ch_istate c = CHAN_INPUT_OPEN
                then let c = c\<lparr>ch_istate := CHAN_INPUT_WAIT_DRAIN\<rparr> in
                     if buffer_len (ch_input c) = 0 then chan_ibuf_empty env c else Inr c
                else Inr c) (\<lambda>c. Inr (chans[nat n := Some c], w)))))"

definition channel_input_close :: "channel option list \<Rightarrow> ('c, 'z) world \<Rightarrow> (channel option list \<times> ('c, 'z) world) result" where
  "channel_input_close chans w =
     rbind (get_channel chans w) (\<lambda>(n, c, w).
     rbind (packet_check_eom w) (\<lambda>w.
     case c of
       None \<Rightarrow> Inl (Disconnect ''Received close for nonexistent channel'')
     | Some c \<Rightarrow>
         let c = send_msg SSH_MSG_CHANNEL_CLOSE_CONFIRMATION (put_u32 (ch_remote_id c)) c;
             c = (if ch_type c \<noteq> SSH_CHANNEL_CLOSED
                  then c\<lparr>ch_input := buffer_clear (ch_input c), ch_type := SSH_CHANNEL_OUTPUT_DRAINING\<rparr> else c)
         in Inr (chans[nat n := Some c], w)))"

definition channel_input_oclose :: "proto \<Rightarrow> channel option list \<Rightarrow> ('c, 'z) world \<Rightarrow> (channel option list \<times> ('c, 'z) world) result" where
  "channel_input_oclose env chans w =
     rbind (get_channel chans w) (\<lambda>(n, c, w).
     rbind (packet_check_eom w) (\<lambda>w.
     case c of
       None \<Rightarrow> Inl (Disconnect ''Received oclose for nonexistent channel'')
     | Some c \<Rightarrow> rbind (chan_rcvd_oclose env c) (\<lambda>c. Inr (chans[nat n := Some c], w))))"

section \<open>What the parts leave alone\<close>

abbreviation flow_types :: "byte set" where
  "flow_types \<equiv> {SSH2_MSG_CHANNEL_WINDOW_ADJUST, SSH2_MSG_CHANNEL_DATA, SSH2_MSG_CHANNEL_EXTENDED_DATA}"

text \<open>
  The events of \<open>nchan.c\<close> leave windows and input alone and send no data. They may clear the output, but
  then its half is no longer open, and it never opens again.
\<close>

definition event_frame :: "channel \<Rightarrow> channel \<Rightarrow> bool" where
  "event_frame c c' \<longleftrightarrow> (\<exists>ms. ch_sent c' = ch_sent c @ ms \<and> (\<forall>m \<in> set ms. fst m \<notin> flow_types)) \<and>
     ch_input c' = ch_input c \<and> ch_extended c' = ch_extended c \<and> ch_extended_usage c' = ch_extended_usage c \<and>
     ch_remote_window c' = ch_remote_window c \<and> ch_local_window c' = ch_local_window c \<and>
     ch_local_window_max c' = ch_local_window_max c \<and> ch_local_consumed c' = ch_local_consumed c \<and> ch_datagram c' = ch_datagram c \<and>
     (ch_output c' = ch_output c \<and> (ch_ostate c' = CHAN_OUTPUT_OPEN \<longrightarrow> ch_ostate c = CHAN_OUTPUT_OPEN) \<or>
      ch_output c' = buffer_clear (ch_output c) \<and> ch_ostate c' \<noteq> CHAN_OUTPUT_OPEN) \<and>
     ch_type c' \<in> {ch_type c, SSH_CHANNEL_ZOMBIE}"

lemma event_frame_refl [simp]: "event_frame c c"
  by (auto simp: event_frame_def)

lemma shutdown_write_fields:
  "ch_sent (chan_shutdown_write env c) = ch_sent c" "ch_input (chan_shutdown_write env c) = ch_input c"
  "ch_output (chan_shutdown_write env c) = buffer_clear (ch_output c)"
  "ch_extended (chan_shutdown_write env c) = ch_extended c" "ch_extended_usage (chan_shutdown_write env c) = ch_extended_usage c"
  "ch_remote_window (chan_shutdown_write env c) = ch_remote_window c" "ch_local_window (chan_shutdown_write env c) = ch_local_window c"
  "ch_local_window_max (chan_shutdown_write env c) = ch_local_window_max c"
  "ch_local_consumed (chan_shutdown_write env c) = ch_local_consumed c" "ch_datagram (chan_shutdown_write env c) = ch_datagram c"
  "ch_type (chan_shutdown_write env c) = ch_type c" "ch_ctype (chan_shutdown_write env c) = ch_ctype c"
  by (simp_all add: chan_shutdown_write_def Let_def)

lemma shutdown_read_fields:
  "ch_sent (chan_shutdown_read env c) = ch_sent c" "ch_input (chan_shutdown_read env c) = ch_input c"
  "ch_output (chan_shutdown_read env c) = ch_output c" "ch_extended (chan_shutdown_read env c) = ch_extended c"
  "ch_extended_usage (chan_shutdown_read env c) = ch_extended_usage c"
  "ch_remote_window (chan_shutdown_read env c) = ch_remote_window c" "ch_local_window (chan_shutdown_read env c) = ch_local_window c"
  "ch_local_window_max (chan_shutdown_read env c) = ch_local_window_max c"
  "ch_local_consumed (chan_shutdown_read env c) = ch_local_consumed c" "ch_datagram (chan_shutdown_read env c) = ch_datagram c"
  "ch_type (chan_shutdown_read env c) = ch_type c"
  by (simp_all add: chan_shutdown_read_def)

lemmas shutdown_fields = shutdown_write_fields shutdown_read_fields

lemma event_read_failed: "chan_read_failed env c = Inr c' \<Longrightarrow> event_frame c c'"
  by (auto simp: chan_read_failed_def chan_set_istate_def event_frame_def shutdown_fields split: if_splits)

lemma event_ibuf_empty: "chan_ibuf_empty env c = Inr c' \<Longrightarrow> event_frame c c'"
  by (auto simp: chan_ibuf_empty_def chan_set_istate_def event_frame_def chan_send_eof2_def chan_send_ieof1_def send_msg_def split: if_splits)

lemma event_obuf_empty: "proto.compat20 env \<Longrightarrow> chan_obuf_empty env c = Inr c' \<Longrightarrow> event_frame c c'"
  by (auto simp: chan_obuf_empty_def chan_set_ostate_def Let_def event_frame_def shutdown_fields chan_send_oclose1_def send_msg_def split: if_splits)

lemma event_write_failed:
  "proto.compat20 env \<Longrightarrow> chan_write_failed env c = Inr c' \<Longrightarrow> event_frame c c'"
  by (auto simp: chan_write_failed_def chan_write_failed2_def chan_set_ostate_def Let_def event_frame_def shutdown_fields
      chan_send_eow2_def send_msg_def split: if_splits)

lemma event_rcvd_eow: "chan_rcvd_eow env c = Inr c' \<Longrightarrow> event_frame c c'"
  by (auto simp: chan_rcvd_eow_def chan_set_istate_def event_frame_def shutdown_fields split: if_splits)

lemma event_trans: "event_frame c d \<Longrightarrow> event_frame d e \<Longrightarrow> ch_output d = ch_output c \<Longrightarrow> event_frame c e"
  unfolding event_frame_def by auto

lemma eof2_frame: "chan_rcvd_eof2 c = Inr d \<Longrightarrow> event_frame c d \<and> ch_output d = ch_output c"
  by (auto simp: chan_rcvd_eof2_def chan_set_ostate_def Let_def event_frame_def split: if_splits)

lemma event_rcvd_ieof:
  assumes "proto.compat20 env" and "chan_rcvd_ieof env c = Inr c'"
  shows "event_frame c c'"
proof -
  obtain d where d: "chan_rcvd_eof2 c = Inr d" and e: "(if ch_ostate d = CHAN_OUTPUT_WAIT_DRAIN \<and> buffer_len (ch_output d) = 0 \<and>
      \<not> efd_output_active env d then chan_obuf_empty env d else Inr d) = Inr c'"
    using assms by (auto simp: chan_rcvd_ieof_def rbind_eq_Inr)
  have "event_frame d c'" using e event_obuf_empty [OF assms(1), of d c'] by (cases "ch_ostate d = CHAN_OUTPUT_WAIT_DRAIN \<and> buffer_len (ch_output d) = 0 \<and> \<not> efd_output_active env d") auto
  then show ?thesis using eof2_frame [OF d] event_trans by blast
qed

lemma event_rcvd_oclose: "proto.compat20 env \<Longrightarrow> chan_rcvd_oclose env c = Inr c' \<Longrightarrow> event_frame c c'"
  unfolding chan_rcvd_oclose_def chan_rcvd_close2_def
  by (auto simp: chan_set_ostate_def chan_set_istate_def Let_def event_frame_def shutdown_fields
      chan_send_eof2_def send_msg_def rbind_eq_Inr split: if_splits)

lemma event_is_dead: "chan_is_dead env c s = (dead, c') \<Longrightarrow> event_frame c c'"
  by (auto simp: chan_is_dead_def chan_send_close2_def send_msg_def Let_def event_frame_def split: if_splits)

lemma event_mark_dead: "event_frame c (chan_mark_dead c)"
  by (simp add: chan_mark_dead_def event_frame_def)

inductive chan_event :: "proto \<Rightarrow> channel \<Rightarrow> channel \<Rightarrow> bool" for env where
  ev_read_failed: "chan_read_failed env c = Inr c' \<Longrightarrow> chan_event env c c'"
| ev_ibuf_empty: "chan_ibuf_empty env c = Inr c' \<Longrightarrow> chan_event env c c'"
| ev_rcvd_ieof: "chan_rcvd_ieof env c = Inr c' \<Longrightarrow> chan_event env c c'"
| ev_rcvd_oclose: "chan_rcvd_oclose env c = Inr c' \<Longrightarrow> chan_event env c c'"
| ev_write_failed: "chan_write_failed env c = Inr c' \<Longrightarrow> chan_event env c c'"
| ev_obuf_empty: "chan_obuf_empty env c = Inr c' \<Longrightarrow> chan_event env c c'"
| ev_rcvd_eow: "chan_rcvd_eow env c = Inr c' \<Longrightarrow> chan_event env c c'"
| ev_is_dead: "chan_is_dead env c do_send = (dead, c') \<Longrightarrow> chan_event env c c'"
| ev_mark_dead: "chan_event env c (chan_mark_dead c)"

lemma chan_event_frame: "chan_event env c c' \<Longrightarrow> proto.compat20 env \<Longrightarrow> event_frame c c'"
  by (induction rule: chan_event.induct)
    (auto intro: event_read_failed event_ibuf_empty event_rcvd_ieof event_rcvd_oclose event_write_failed
      event_obuf_empty event_rcvd_eow event_is_dead event_mark_dead)

end
