(* ===== verification/ChanLink.thy ===== *)
theory ChanLink
  imports ChanFlow "HOL-Library.Sublist"
begin

text \<open>
  Two programs joined by one channel of protocol 2. Each end runs the operations of \<open>channels.c\<close> and
  \<open>nchan.c\<close> in any order, with any answers of the operating system; messages arrive in the order they
  were sent. The windows then bound what is buffered at the receiving end, no data is refused, and the
  bytes written at one end are those read at the other.
\<close>

section \<open>Two ends of a channel\<close>

text \<open>
  A message carries data of the channel's stream, or extended data, or window. What a message of another
  type carries is not looked at here.
\<close>

definition data_of :: "byte \<times> byte list \<Rightarrow> byte list" where
  "data_of m = (if fst m = SSH2_MSG_CHANNEL_DATA then drop 8 (snd m) else [])"

definition load_of :: "byte \<times> byte list \<Rightarrow> nat" where
  "load_of m = (if fst m = SSH2_MSG_CHANNEL_DATA then length (drop 8 (snd m))
     else if fst m = SSH2_MSG_CHANNEL_EXTENDED_DATA then length (drop 12 (snd m)) else 0)"

definition adjust_of :: "byte \<times> byte list \<Rightarrow> nat" where
  "adjust_of m = (if fst m = SSH2_MSG_CHANNEL_WINDOW_ADJUST then unat (get_u32 (drop 4 (snd m))) else 0)"

definition stream :: "(byte \<times> byte list) list \<Rightarrow> byte list" where
  "stream q = concat (map data_of q)"

definition load :: "(byte \<times> byte list) list \<Rightarrow> nat" where
  "load q = sum_list (map load_of q)"

definition adjusts :: "(byte \<times> byte list) list \<Rightarrow> nat" where
  "adjusts q = sum_list (map adjust_of q)"

lemma queue_simps [simp]:
  "stream [] = []" "stream (m # q) = data_of m @ stream q" "stream (q @ r) = stream q @ stream r"
  "load [] = 0" "load (m # q) = load_of m + load q" "load (q @ r) = load q + load r"
  "adjusts [] = 0" "adjusts (m # q) = adjust_of m + adjusts q" "adjusts (q @ r) = adjusts q + adjusts r"
  by (simp_all add: stream_def load_def adjusts_def)

lemma quiet_queue: "\<forall>m \<in> set ms. fst m \<notin> flow_types \<Longrightarrow> stream ms = [] \<and> load ms = 0 \<and> adjusts ms = 0"
  by (induction ms) (auto simp: data_of_def load_of_def adjust_of_def)

text \<open>
  An end of the channel, with what it read from its descriptor, what data messages brought, what of that
  went to the output buffer and what the kernel took from there.
\<close>

record side =
  sd_chan :: channel
  sd_read :: "byte list"
  sd_recv :: "byte list"
  sd_out :: "byte list"
  sd_written :: "byte list"

definition new_msgs :: "channel \<Rightarrow> channel \<Rightarrow> (byte \<times> byte list) list" where
  "new_msgs c c' = drop (length (ch_sent c)) (ch_sent c')"

definition new_input :: "channel \<Rightarrow> channel \<Rightarrow> byte list" where
  "new_input c c' = drop (length (buffer_contents (ch_input c))) (buffer_contents (ch_input c'))"

definition kernel_took :: "int set \<Rightarrow> write_answer \<Rightarrow> channel \<Rightarrow> byte list" where
  "kernel_took writeset ans c =
     (if ch_wfd c \<noteq> -1 \<and> ch_wfd c \<in> writeset
      then case ans of Wrote n \<Rightarrow> take n (buffer_contents (ch_output c)) | WriteErr e \<Rightarrow> [] else [])"

text \<open>
  A step of one end, with the messages that wait for it before and after, and those it sends. Data for a
  channel that is no longer open is ignored, and so is extended data the channel has no descriptor for.
\<close>

inductive side_step :: "('c, 'z) libs \<Rightarrow> proto \<Rightarrow> side \<Rightarrow> (byte \<times> byte list) list \<Rightarrow>
    side \<Rightarrow> (byte \<times> byte list) list \<Rightarrow> (byte \<times> byte list) list \<Rightarrow> bool" for L env where
  sd_reads: "channel_handle_rfd env readset ans (sd_chan x) = Inr c \<Longrightarrow>
    side_step L env x q (x\<lparr>sd_chan := c, sd_read := sd_read x @ new_input (sd_chan x) c\<rparr>) q (new_msgs (sd_chan x) c)"
| sd_writes: "channel_handle_wfd L env writeset wans noecho (sd_chan x, w) = Inr (c, w') \<Longrightarrow>
    side_step L env x q (x\<lparr>sd_chan := c, sd_written := sd_written x @ kernel_took writeset wans (sd_chan x)\<rparr>) q (new_msgs (sd_chan x) c)"
| sd_extended: "channel_handle_efd fds ans wans (sd_chan x) = Inr c \<Longrightarrow>
    side_step L env x q (x\<lparr>sd_chan := c\<rparr>) q (new_msgs (sd_chan x) c)"
| sd_window: "channel_check_window (sd_chan x) = c \<Longrightarrow>
    side_step L env x q (x\<lparr>sd_chan := c\<rparr>) q (new_msgs (sd_chan x) c)"
| sd_prepares: "channel_pre_open env maxsize (sd_chan x) fds = Inr (c, fds') \<Longrightarrow>
    side_step L env x q (x\<lparr>sd_chan := c\<rparr>) q (new_msgs (sd_chan x) c)"
| sd_sends: "output_poll_one env interactive maxsize (sd_chan x) = Inr c \<Longrightarrow>
    side_step L env x q (x\<lparr>sd_chan := c\<rparr>) q (new_msgs (sd_chan x) c)"
| sd_event: "chan_event env (sd_chan x) c \<Longrightarrow>
    side_step L env x q (x\<lparr>sd_chan := c\<rparr>) q (new_msgs (sd_chan x) c)"
| sd_data: "fst m = SSH2_MSG_CHANNEL_DATA \<Longrightarrow> ch_type (sd_chan x) = SSH_CHANNEL_OPEN \<Longrightarrow>
    recv_data env (data_of m) (sd_chan x) = Inr (whole, c) \<Longrightarrow>
    side_step L env x (m # q) (x\<lparr>sd_chan := c, sd_recv := sd_recv x @ data_of m,
      sd_out := sd_out x @ (if whole then data_of m else [])\<rparr>) q []"
| sd_late_data: "fst m = SSH2_MSG_CHANNEL_DATA \<Longrightarrow> ch_type (sd_chan x) \<noteq> SSH_CHANNEL_OPEN \<Longrightarrow>
    side_step L env x (m # q) (x\<lparr>sd_recv := sd_recv x @ data_of m\<rparr>) q []"
| sd_extended_data: "fst m = SSH2_MSG_CHANNEL_EXTENDED_DATA \<Longrightarrow> ch_extended_usage (sd_chan x) = CHAN_EXTENDED_WRITE \<Longrightarrow>
    recv_extended (drop 12 (snd m)) (sd_chan x) = Inr c \<Longrightarrow>
    side_step L env x (m # q) (x\<lparr>sd_chan := c\<rparr>) q []"
| sd_adjust: "fst m = SSH2_MSG_CHANNEL_WINDOW_ADJUST \<Longrightarrow>
    side_step L env x (m # q) (x\<lparr>sd_chan := recv_adjust (get_u32 (drop 4 (snd m))) (sd_chan x)\<rparr>) q []"
| sd_other: "fst m \<noteq> SSH2_MSG_CHANNEL_DATA \<Longrightarrow> side_step L env x (m # q) x q []"

text \<open>The two ends, with the messages on their way from the first to the second and back.\<close>

type_synonym link = "side \<times> side \<times> (byte \<times> byte list) list \<times> (byte \<times> byte list) list"

inductive link_step :: "('c, 'z) libs \<Rightarrow> proto \<Rightarrow> link \<Rightarrow> link \<Rightarrow> bool" for L env where
  link_left: "side_step L env a ba a' ba' ms \<Longrightarrow> link_step L env (a, b, ab, ba) (a', b, ab @ ms, ba')"
| link_right: "side_step L env b ab b' ab' ms \<Longrightarrow> link_step L env (a, b, ab, ba) (a, b', ab', ba @ ms)"

inductive link_steps :: "('c, 'z) libs \<Rightarrow> proto \<Rightarrow> link \<Rightarrow> link \<Rightarrow> bool" for L env where
  link_start: "link_steps L env l l"
| link_next: "link_steps L env l k \<Longrightarrow> link_step L env k k' \<Longrightarrow> link_steps L env l k'"

text \<open>What holds of an end by itself: extended data takes window only where it is written out.\<close>

definition held :: "channel \<Rightarrow> nat" where
  "held c = length (buffer_contents (ch_output c)) +
     (if ch_extended_usage c = CHAN_EXTENDED_WRITE then length (buffer_contents (ch_extended c)) else 0)"

definition side_ok :: "side \<Rightarrow> bool" where
  "side_ok x \<longleftrightarrow> (let c = sd_chan x in
     buffer_ok (ch_input c) \<and> buffer_ok (ch_output c) \<and> buffer_ok (ch_extended c) \<and> \<not> ch_datagram c \<and>
     ch_type c \<in> {SSH_CHANNEL_OPEN, SSH_CHANNEL_ZOMBIE} \<and>
     unat (ch_local_window c) + unat (ch_local_consumed c) + held c \<le> unat (ch_local_window_max c) \<and>
     prefix (sd_written x @ buffer_contents (ch_output c)) (sd_out x) \<and> prefix (sd_out x) (sd_recv x) \<and>
     (ch_ostate c = CHAN_OUTPUT_OPEN \<longrightarrow> sd_out x = sd_written x @ buffer_contents (ch_output c) \<and>
       (ch_type c = SSH_CHANNEL_OPEN \<longrightarrow> sd_recv x = sd_out x)))"

definition way_ok :: "side \<Rightarrow> side \<Rightarrow> (byte \<times> byte list) list \<Rightarrow> (byte \<times> byte list) list \<Rightarrow> bool" where
  "way_ok a b ab ba \<longleftrightarrow>
     unat (ch_remote_window (sd_chan a)) + load ab + adjusts ba \<le> unat (ch_local_window (sd_chan b)) \<and>
     sd_read a = sd_recv b @ stream ab @ buffer_contents (ch_input (sd_chan a))"

fun link_ok :: "link \<Rightarrow> bool" where
  "link_ok (a, b, ab, ba) \<longleftrightarrow> side_ok a \<and> side_ok b \<and> way_ok a b ab ba \<and> way_ok b a ba ab"

text \<open>What a step of one end may do: as the sender of one direction and as the receiver of the other.\<close>

definition sender_part :: "side \<Rightarrow> (byte \<times> byte list) list \<Rightarrow> side \<Rightarrow> (byte \<times> byte list) list \<Rightarrow> (byte \<times> byte list) list \<Rightarrow> bool" where
  "sender_part x q x' q' ms \<longleftrightarrow>
     unat (ch_remote_window (sd_chan x')) + load ms + adjusts q' \<le> unat (ch_remote_window (sd_chan x)) + adjusts q \<and>
     (\<exists>d. sd_read x' = sd_read x @ d \<and>
       buffer_contents (ch_input (sd_chan x)) @ d = stream ms @ buffer_contents (ch_input (sd_chan x')))"

definition receiver_part :: "side \<Rightarrow> (byte \<times> byte list) list \<Rightarrow> side \<Rightarrow> (byte \<times> byte list) list \<Rightarrow> (byte \<times> byte list) list \<Rightarrow> bool" where
  "receiver_part x q x' q' ms \<longleftrightarrow>
     ch_local_window_max (sd_chan x') = ch_local_window_max (sd_chan x) \<and>
     unat (ch_local_window (sd_chan x)) + adjusts ms + load q' \<le> unat (ch_local_window (sd_chan x')) + load q \<and>
     (\<exists>r. sd_recv x' = sd_recv x @ r \<and> stream q = r @ stream q')"

lemma way_left: "way_ok a b ab ba \<Longrightarrow> sender_part a ba a' ba' ms \<Longrightarrow> way_ok a' b (ab @ ms) ba'"
  unfolding way_ok_def sender_part_def by auto

lemma way_right: "way_ok a b ab ba \<Longrightarrow> receiver_part b ab b' ab' ms \<Longrightarrow> way_ok a b' ab' (ba @ ms)"
  unfolding way_ok_def receiver_part_def by auto

section \<open>Each operation\<close>

definition step_ok :: "side \<Rightarrow> (byte \<times> byte list) list \<Rightarrow> side \<Rightarrow> (byte \<times> byte list) list \<Rightarrow> (byte \<times> byte list) list \<Rightarrow> bool" where
  "step_ok x q x' q' ms \<longleftrightarrow> side_ok x' \<and> sender_part x q x' q' ms \<and> receiver_part x q x' q' ms"

lemma held_simps [simp]: "held (c\<lparr>ch_input := b\<rparr>) = held c"
  by (simp add: held_def)

lemma held_frame: "event_frame c c' \<Longrightarrow> held c' \<le> held c"
  by (auto simp: event_frame_def held_def)

lemma quiet_step:
  assumes ok: "side_ok x" and fr: "event_frame (sd_chan x) c"
  shows "step_ok x q (x\<lparr>sd_chan := c\<rparr>) q (new_msgs (sd_chan x) c)"
proof -
  obtain ms where ms: "ch_sent c = ch_sent (sd_chan x) @ ms" "\<forall>m \<in> set ms. fst m \<notin> flow_types"
    using fr by (auto simp: event_frame_def)
  have n: "new_msgs (sd_chan x) c = ms" using ms(1) by (simp add: new_msgs_def)
  have pre: "prefix (sd_written x) (sd_out x)" using ok by (auto simp: side_ok_def Let_def dest: append_prefixD)
  have "side_ok (x\<lparr>sd_chan := c\<rparr>)"
    using ok fr pre held_frame [OF fr] unfolding side_ok_def event_frame_def Let_def
    by (auto simp: buffer_clear_ok)
  moreover have "sender_part x q (x\<lparr>sd_chan := c\<rparr>) q ms" "receiver_part x q (x\<lparr>sd_chan := c\<rparr>) q ms"
    using fr quiet_queue [OF ms(2)] by (simp_all add: sender_part_def receiver_part_def event_frame_def)
  ultimately show ?thesis by (simp add: step_ok_def n)
qed

text \<open>The reading side.\<close>

lemma new_msgs_same [simp]: "ch_sent c' = ch_sent c \<Longrightarrow> new_msgs c c' = []"
  by (simp add: new_msgs_def)

lemma rfd_closed_frame:
  "rfd_closed env c = Inr c' \<Longrightarrow> proto.compat20 env \<Longrightarrow> \<not> compat13 env \<Longrightarrow> event_frame c c'"
  by (auto simp: rfd_closed_def intro: event_read_failed event_mark_dead split: if_splits)

lemma new_input_frame: "event_frame c c' \<Longrightarrow> new_input c c' = []"
  by (simp add: event_frame_def new_input_def)

lemma handle_rfd_cases:
  assumes "channel_handle_rfd env readset ans c = Inr c'" and "\<not> ch_datagram c"
  obtains "c' = c" | "rfd_closed env c = Inr c'"
  | d b where "buffer_append (ch_input c) d (of_nat (length d)) = (Inr b :: _ result)" "length d \<le> CHAN_RBUF" "c' = c\<lparr>ch_input := b\<rparr>"
proof -
  show thesis
  proof (cases "ch_rfd c \<noteq> -1 \<and> ((ch_isatty c \<and> ch_detach_close c \<and> ch_istate c \<noteq> CHAN_INPUT_CLOSED) \<or> ch_rfd c \<in> readset)")
    case act: True
    show thesis
    proof (cases ans)
      case (ReadErr e)
      with act assms have "c' = c \<or> rfd_closed env c = Inr c'"
        unfolding channel_handle_rfd_def Let_def by (auto split: if_splits)
      then show thesis using that(1,2) by blast
    next
      case (ReadData d)
      let ?d = "take CHAN_RBUF d"
      have "channel_handle_rfd env readset ans c = (if ?d = [] then rfd_closed env c
          else rbind (buffer_append (ch_input c) ?d (of_nat (length ?d))) (\<lambda>b. Inr (c\<lparr>ch_input := b\<rparr>)))"
        using ReadData act assms(2) unfolding channel_handle_rfd_def Let_def by (simp del: length_take take_eq_Nil cong: if_cong)
      with assms(1) have e: "(if ?d = [] then rfd_closed env c
          else rbind (buffer_append (ch_input c) ?d (of_nat (length ?d))) (\<lambda>b. Inr (c\<lparr>ch_input := b\<rparr>))) = Inr c'"
        by argo
      show thesis
      proof (cases "?d = []")
        case True
        with e have "rfd_closed env c = Inr c'" by simp
        then show thesis by (rule that(2))
      next
        case False
        then obtain b where "buffer_append (ch_input c) ?d (of_nat (length ?d)) = (Inr b :: _ result)" "c' = c\<lparr>ch_input := b\<rparr>"
          using e unfolding rbind_eq_Inr if_not_P [OF False] by blast
        then show thesis using that(3) [of ?d b] by force
      qed
    qed
  next
    case False
    then have "channel_handle_rfd env readset ans c = Inr c" unfolding channel_handle_rfd_def Let_def by auto
    with assms have "c' = c" by simp
    then show thesis by (rule that(1))
  qed
qed

lemma input_step:
  assumes ok: "side_ok x" and app: "buffer_append (ch_input (sd_chan x)) d (of_nat (length d)) = Inr b" and "length d \<le> CHAN_RBUF"
  shows "step_ok x q (x\<lparr>sd_chan := (sd_chan x)\<lparr>ch_input := b\<rparr>,
    sd_read := sd_read x @ new_input (sd_chan x) ((sd_chan x)\<lparr>ch_input := b\<rparr>)\<rparr>) q []"
proof -
  have "unat (of_nat (length d) :: u32) = length d" using assms(3) by (simp add: unat_of_nat)
  with append_spec [OF _ app] ok have "buffer_ok b" "buffer_contents b = buffer_contents (ch_input (sd_chan x)) @ d"
    by (auto simp: side_ok_def Let_def)
  with ok show ?thesis
    by (simp add: step_ok_def side_ok_def sender_part_def receiver_part_def new_input_def Let_def)
qed

lemma same_step: "side_ok x \<Longrightarrow> step_ok x q x q []"
  by (simp add: step_ok_def sender_part_def receiver_part_def)

lemma step_reads:
  assumes ok: "side_ok x" and env: "proto.compat20 env" "\<not> compat13 env"
    and h: "channel_handle_rfd env readset ans (sd_chan x) = Inr c"
  shows "step_ok x q (x\<lparr>sd_chan := c, sd_read := sd_read x @ new_input (sd_chan x) c\<rparr>) q (new_msgs (sd_chan x) c)"
proof -
  have dg: "\<not> ch_datagram (sd_chan x)" using ok by (simp add: side_ok_def Let_def)
  from h dg show ?thesis
  proof (cases rule: handle_rfd_cases)
    case 1
    then show ?thesis using same_step [OF ok] by (simp add: new_input_def)
  next
    case 2
    from quiet_step [OF ok rfd_closed_frame [OF 2 env], of q] new_input_frame [OF rfd_closed_frame [OF 2 env]]
    show ?thesis by simp
  next
    case (3 d b)
    with input_step [OF ok 3(1,2), of q] show ?thesis by simp
  qed
qed

lemma side_room:
  assumes "side_ok x"
  shows "unat (ch_local_window (sd_chan x)) + unat (ch_local_consumed (sd_chan x)) + held (sd_chan x) < 2 ^ 32"
proof -
  have "unat (ch_local_window (sd_chan x)) + unat (ch_local_consumed (sd_chan x)) + held (sd_chan x) \<le> unat (ch_local_window_max (sd_chan x))"
    using assms by (simp add: side_ok_def Let_def)
  then show ?thesis using le_less_trans [OF _ unat_u32_lt [of "ch_local_window_max (sd_chan x)"]] by simp
qed

lemma held_ge:
  "length (buffer_contents (ch_output c)) \<le> held c"
  "ch_extended_usage c = CHAN_EXTENDED_WRITE \<Longrightarrow> length (buffer_contents (ch_extended c)) \<le> held c"
  by (simp_all add: held_def)

text \<open>The writing side.\<close>

lemma wfd_failed_frame:
  "wfd_failed env c = Inr c' \<Longrightarrow> proto.compat20 env \<Longrightarrow> \<not> compat13 env \<Longrightarrow> event_frame c c'"
  by (auto simp: wfd_failed_def intro: event_write_failed event_mark_dead split: if_splits)

lemma handle_wfd_wrote:
  assumes "ch_wfd c \<noteq> -1 \<and> ch_wfd c \<in> writeset \<and> buffer_len (ch_output c) > 0" and "\<not> ch_datagram c"
    and "buf = take (unat (buffer_len (ch_output c))) (buffer_ptr (ch_output c))" and "m = min n (length buf)"
  shows "channel_handle_wfd L env writeset (Wrote n) noecho (c, w) =
    (if m = 0 then rbind (wfd_failed env c) (\<lambda>c. Inr (c, w))
     else rbind (if proto.compat20 env \<and> ch_isatty c \<and> buf ! 0 \<noteq> 13 \<and> noecho
                 then rbind (packet_send_ignore (4 + int m) w) (packet_send L) else Inr w) (\<lambda>w.
          rbind (buffer_consume (ch_output c) (of_nat m)) (\<lambda>b.
            Inr (count_consumed env (buffer_len (ch_output c)) (c\<lparr>ch_output := b\<rparr>), w))))"
  unfolding channel_handle_wfd_def prod.case if_P [OF assms(1)] if_not_P [OF assms(2)] Let_def rbind_simps
    write_answer.case prod.case assms(3) [symmetric] assms(4) [symmetric] ..

lemma handle_wfd_cases:
  assumes h: "channel_handle_wfd L env writeset ans noecho (c, w) = Inr (c', w')" and dg: "\<not> ch_datagram c" and ok: "buffer_ok (ch_output c)"
  obtains "c' = c" "kernel_took writeset ans c = []" | "wfd_failed env c = Inr c'" "kernel_took writeset ans c = []"
  | n b where "kernel_took writeset ans c = take n (buffer_contents (ch_output c))" "n \<le> length (buffer_contents (ch_output c))"
      "buffer_consume (ch_output c) (of_nat n) = (Inr b :: _ result)" "c' = count_consumed env (buffer_len (ch_output c)) (c\<lparr>ch_output := b\<rparr>)"
proof (cases "ch_wfd c \<noteq> -1 \<and> ch_wfd c \<in> writeset \<and> buffer_len (ch_output c) > 0")
  case act: True
  let ?buf = "take (unat (buffer_len (ch_output c))) (buffer_ptr (ch_output c))"
  have buf: "?buf = buffer_contents (ch_output c)" using contents_ptr [OF ok] by simp
  show thesis
  proof (cases ans)
    case (WriteErr e)
    with act dg h have "c' = c \<or> wfd_failed env c = Inr c'"
      unfolding channel_handle_wfd_def Let_def prod.case by (auto simp: rbind_eq_Inr split: if_splits)
    moreover have "kernel_took writeset ans c = []" using WriteErr by (simp add: kernel_took_def)
    ultimately show thesis using that(1,2) by blast
  next
    case (Wrote n)
    define m where "m = min n (length ?buf)"
    have wr: "kernel_took writeset ans c = take m (buffer_contents (ch_output c))"
      using Wrote act buf by (simp add: kernel_took_def m_def min_def)
    show thesis
    proof (cases "m = 0")
      case True
      with h have "wfd_failed env c = Inr c'"
        unfolding Wrote handle_wfd_wrote [OF act dg refl m_def] by (auto simp: rbind_eq_Inr)
      with True wr that(2) show thesis by simp
    next
      case False
      with h obtain b where "buffer_consume (ch_output c) (of_nat m) = (Inr b :: _ result)"
          "c' = count_consumed env (buffer_len (ch_output c)) (c\<lparr>ch_output := b\<rparr>)"
        unfolding Wrote handle_wfd_wrote [OF act dg refl m_def] if_not_P [OF False] rbind_eq_Inr by blast
      then show thesis using that(3) [of m b] wr buf by (simp add: m_def)
    qed
  qed
next
  case False
  then have "c' = c" using h by (auto simp: channel_handle_wfd_def)
  moreover have "kernel_took writeset ans c = []"
    using False unat_buffer_len [OF ok] by (auto simp: kernel_took_def word_gt_0 split: write_answer.split)
  ultimately show thesis by (rule that(1))
qed

lemma output_step:
  assumes ok: "side_ok x" and env: "proto.compat20 env" and n: "n \<le> length (buffer_contents (ch_output (sd_chan x)))"
    and b: "buffer_consume (ch_output (sd_chan x)) (of_nat n) = Inr b"
  shows "step_ok x q (x\<lparr>sd_chan := count_consumed env (buffer_len (ch_output (sd_chan x))) ((sd_chan x)\<lparr>ch_output := b\<rparr>),
    sd_written := sd_written x @ take n (buffer_contents (ch_output (sd_chan x)))\<rparr>) q []"
proof -
  let ?o = "ch_output (sd_chan x)"
  have bo: "buffer_ok ?o" using ok by (simp add: side_ok_def Let_def)
  have len: "length (buffer_contents ?o) < 2 ^ 32" using unat_buffer_len [OF bo] unat_u32_lt [of "buffer_len ?o"] by simp
  have u: "unat (of_nat n :: u32) = n" using n len by (simp add: unat_of_nat)
  have b': "buffer_ok b" "buffer_contents b = drop n (buffer_contents ?o)"
    using consume_spec [OF bo, of "of_nat n"] b n u by auto
  have d: "unat (buffer_len ?o - buffer_len b) = n"
    using unat_buffer_len [OF bo] unat_buffer_len [OF b'(1)] b'(2) n by (subst unat_sub_small) simp_all
  have sum: "unat (ch_local_consumed (sd_chan x)) + n < 2 ^ 32"
    using side_room [OF ok] held_ge(1) [of "sd_chan x"] n by linarith
  have c: "unat (ch_local_consumed (sd_chan x) + (buffer_len ?o - buffer_len b)) = unat (ch_local_consumed (sd_chan x)) + n"
    using d sum by (simp add: unat_add_small)
  show ?thesis
    using ok env b' c n
    by (auto simp: step_ok_def side_ok_def sender_part_def receiver_part_def Let_def count_consumed_def held_def)
qed

lemma step_writes:
  assumes ok: "side_ok x" and env: "proto.compat20 env" "\<not> compat13 env"
    and h: "channel_handle_wfd L env writeset ans noecho (sd_chan x, w) = Inr (c, w')"
  shows "step_ok x q (x\<lparr>sd_chan := c, sd_written := sd_written x @ kernel_took writeset ans (sd_chan x)\<rparr>) q (new_msgs (sd_chan x) c)"
proof -
  have s: "\<not> ch_datagram (sd_chan x)" "buffer_ok (ch_output (sd_chan x))" using ok by (simp_all add: side_ok_def Let_def)
  from h s show ?thesis
  proof (cases rule: handle_wfd_cases)
    case 1
    then show ?thesis using same_step [OF ok] by simp
  next
    case 2
    then show ?thesis using quiet_step [OF ok wfd_failed_frame [OF 2(1) env], of q] by simp
  next
    case (3 n b)
    then show ?thesis using output_step [OF ok env(1) 3(2,3), of q] env(1) by (simp add: count_consumed_def)
  qed
qed

text \<open>Extended data.\<close>

lemma three_guards:
  "(P \<Longrightarrow> R) \<Longrightarrow> (\<not> P \<Longrightarrow> Q \<Longrightarrow> R) \<Longrightarrow> (\<not> P \<Longrightarrow> \<not> Q \<Longrightarrow> S \<Longrightarrow> R) \<Longrightarrow> (\<not> P \<Longrightarrow> \<not> Q \<Longrightarrow> \<not> S \<Longrightarrow> R) \<Longrightarrow> R"
  by blast

lemma handle_efd_cases:
  assumes "channel_handle_efd fds ans wans c = Inr c'"
  obtains "c' = c" | "c' = close_efd c"
  | n b where "ch_extended_usage c = CHAN_EXTENDED_WRITE" "n \<le> unat (buffer_len (ch_extended c))"
      "buffer_consume (ch_extended c) (of_nat n) = (Inr b :: _ result)"
      "c' = c\<lparr>ch_extended := b, ch_local_consumed := ch_local_consumed c + of_nat n\<rparr>"
  | d b where "ch_extended_usage c = CHAN_EXTENDED_READ" "length d \<le> CHAN_RBUF"
      "buffer_append (ch_extended c) d (of_nat (length d)) = (Inr b :: _ result)" "c' = c\<lparr>ch_extended := b\<rparr>"
proof -
  consider "ch_efd c = -1"
    | "ch_efd c \<noteq> -1" "ch_extended_usage c = CHAN_EXTENDED_WRITE \<and> ch_efd c \<in> snd fds \<and> buffer_len (ch_extended c) > 0"
    | "ch_efd c \<noteq> -1" "\<not> (ch_extended_usage c = CHAN_EXTENDED_WRITE \<and> ch_efd c \<in> snd fds \<and> buffer_len (ch_extended c) > 0)"
      "(ch_extended_usage c = CHAN_EXTENDED_READ \<or> ch_extended_usage c = CHAN_EXTENDED_IGNORE) \<and> (ch_detach_close c \<or> ch_efd c \<in> fst fds)"
    | "ch_efd c \<noteq> -1" "\<not> (ch_extended_usage c = CHAN_EXTENDED_WRITE \<and> ch_efd c \<in> snd fds \<and> buffer_len (ch_extended c) > 0)"
      "\<not> ((ch_extended_usage c = CHAN_EXTENDED_READ \<or> ch_extended_usage c = CHAN_EXTENDED_IGNORE) \<and> (ch_detach_close c \<or> ch_efd c \<in> fst fds))"
    by (rule three_guards)
  then show thesis
  proof cases
    case 1
    with assms that(1) show thesis by (simp add: channel_handle_efd_def)
  next
    case 2
    show thesis
    proof (cases wans)
      case (WriteErr e)
      with 2 assms have "c' = c \<or> c' = close_efd c" by (auto simp: channel_handle_efd_def split: if_splits)
      then show thesis using that(1,2) by blast
    next
      case (Wrote n)
      let ?n = "min n (unat (buffer_len (ch_extended c)))"
      have e: "(if ?n = 0 then Inr (close_efd c) else rbind (buffer_consume (ch_extended c) (of_nat ?n)) (\<lambda>b.
          Inr (c\<lparr>ch_extended := b, ch_local_consumed := ch_local_consumed c + of_nat ?n\<rparr>))) = Inr c'"
        using assms unfolding channel_handle_efd_def Wrote if_not_P [OF 2(1)] if_P [OF 2(2)] write_answer.case Let_def by assumption
      show thesis
      proof (cases "?n = 0")
        case True
        with e that(2) show thesis by simp
      next
        case False
        with e 2(2) show thesis using that(3) [of ?n] unfolding if_not_P [OF False] rbind_eq_Inr by auto
      qed
    qed
  next
    case 3
    show thesis
    proof (cases ans)
      case (ReadErr e)
      with assms 3 have "c' = c \<or> c' = close_efd c"
        unfolding channel_handle_efd_def if_not_P [OF 3(1)] if_not_P [OF 3(2)] if_P [OF 3(3)] by (auto split: if_splits)
      then show thesis using that(1,2) by blast
    next
      case (ReadData d)
      let ?d = "take CHAN_RBUF d"
      have e: "(if ?d = [] then Inr (close_efd c) else if ch_extended_usage c = CHAN_EXTENDED_IGNORE then Inr c
          else rbind (buffer_append (ch_extended c) ?d (of_nat (length ?d))) (\<lambda>b. Inr (c\<lparr>ch_extended := b\<rparr>))) = Inr c'"
        using assms unfolding channel_handle_efd_def ReadData if_not_P [OF 3(1)] if_not_P [OF 3(2)] if_P [OF 3(3)] read_answer.case Let_def
        by assumption
      show thesis
      proof (cases "?d = [] \<or> ch_extended_usage c = CHAN_EXTENDED_IGNORE")
        case True
        with e have "c' = c \<or> c' = close_efd c" by (auto split: if_splits)
        then show thesis using that(1,2) by blast
      next
        case False
        then have nd: "?d \<noteq> []" and nu: "ch_extended_usage c \<noteq> CHAN_EXTENDED_IGNORE" by auto
        with e obtain b where "buffer_append (ch_extended c) ?d (of_nat (length ?d)) = (Inr b :: _ result)" "c' = c\<lparr>ch_extended := b\<rparr>"
          unfolding if_not_P [OF nd] if_not_P [OF nu] rbind_eq_Inr by blast
        moreover have "ch_extended_usage c = CHAN_EXTENDED_READ" using 3(3) nu by auto
        moreover have "length ?d \<le> CHAN_RBUF" by simp
        ultimately show thesis using that(4) [of ?d b] by blast
      qed
    qed
  next
    case 4
    have "c' = c" using assms unfolding channel_handle_efd_def if_not_P [OF 4(1)] if_not_P [OF 4(2)] if_not_P [OF 4(3)] by simp
    then show thesis by (rule that(1))
  qed
qed

lemma event_close_efd: "event_frame c (close_efd c)"
  by (simp add: event_frame_def close_efd_def)

lemma step_extended_read:
  assumes ok: "side_ok x" and u: "ch_extended_usage (sd_chan x) = CHAN_EXTENDED_READ"
    and d: "length d \<le> CHAN_RBUF" "buffer_append (ch_extended (sd_chan x)) d (of_nat (length d)) = Inr b"
  shows "step_ok x q (x\<lparr>sd_chan := (sd_chan x)\<lparr>ch_extended := b\<rparr>\<rparr>) q []"
proof -
  have "unat (of_nat (length d) :: u32) = length d" using d(1) by (simp add: unat_of_nat)
  with append_spec [OF _ d(2)] ok have "buffer_ok b" by (auto simp: side_ok_def Let_def)
  moreover have "held ((sd_chan x)\<lparr>ch_extended := b\<rparr>) = held (sd_chan x)" using u by (simp add: held_def)
  ultimately show ?thesis using ok
    by (simp add: step_ok_def side_ok_def sender_part_def receiver_part_def Let_def)
qed

lemma step_extended_write:
  assumes ok: "side_ok x" and u: "ch_extended_usage (sd_chan x) = CHAN_EXTENDED_WRITE"
    and n: "n \<le> unat (buffer_len (ch_extended (sd_chan x)))" "buffer_consume (ch_extended (sd_chan x)) (of_nat n) = Inr b"
  shows "step_ok x q (x\<lparr>sd_chan := (sd_chan x)\<lparr>ch_extended := b, ch_local_consumed := ch_local_consumed (sd_chan x) + of_nat n\<rparr>\<rparr>) q []"
proof -
  let ?e = "ch_extended (sd_chan x)"
  have bo: "buffer_ok ?e" using ok by (simp add: side_ok_def Let_def)
  have un: "unat (of_nat n :: u32) = n" using n(1) le_less_trans [OF n(1) unat_u32_lt] by (simp add: unat_of_nat)
  have b': "buffer_ok b" "buffer_contents b = drop n (buffer_contents ?e)"
    using consume_spec [OF bo, of "of_nat n"] n un unat_buffer_len [OF bo] by auto
  have le: "n \<le> length (buffer_contents ?e)" using n(1) unat_buffer_len [OF bo] by simp
  have c: "unat (ch_local_consumed (sd_chan x) + of_nat n) = unat (ch_local_consumed (sd_chan x)) + n"
    using side_room [OF ok] held_ge(2) [OF u] le un by (subst unat_add_small) simp_all
  have "held ((sd_chan x)\<lparr>ch_extended := b, ch_local_consumed := ch_local_consumed (sd_chan x) + of_nat n\<rparr>) + n = held (sd_chan x)"
    using u b'(2) le by (simp add: held_def)
  then show ?thesis using ok b'(1) c
    by (simp add: step_ok_def side_ok_def sender_part_def receiver_part_def Let_def)
qed

lemma step_extended:
  assumes ok: "side_ok x" and h: "channel_handle_efd fds ans wans (sd_chan x) = Inr c"
  shows "step_ok x q (x\<lparr>sd_chan := c\<rparr>) q (new_msgs (sd_chan x) c)"
  using h
proof (cases rule: handle_efd_cases)
  case 1
  then show ?thesis using same_step [OF ok] by simp
next
  case 2
  then show ?thesis using quiet_step [OF ok event_close_efd] by simp
next
  case (3 n b)
  then show ?thesis using step_extended_write [OF ok 3(1,2,3), of q] by simp
next
  case (4 d b)
  then show ?thesis using step_extended_read [OF ok 4(1,2,3), of q] by simp
qed

text \<open>Window.\<close>

lemma step_window:
  assumes ok: "side_ok x" and c: "channel_check_window (sd_chan x) = c"
  shows "step_ok x q (x\<lparr>sd_chan := c\<rparr>) q (new_msgs (sd_chan x) c)"
proof (cases "c = sd_chan x")
  case True
  then show ?thesis using same_step [OF ok] by simp
next
  case False
  let ?c = "sd_chan x"
  let ?m = "(SSH2_MSG_CHANNEL_WINDOW_ADJUST, put_u32 (ch_remote_id ?c) @ put_u32 (ch_local_consumed ?c))"
  have c': "c = ?c\<lparr>ch_sent := ch_sent ?c @ [?m], ch_local_window := ch_local_window ?c + ch_local_consumed ?c, ch_local_consumed := 0\<rparr>"
    using c False by (auto simp: channel_check_window_def send_msg_def split: if_splits)
  have w: "unat (ch_local_window ?c + ch_local_consumed ?c) = unat (ch_local_window ?c) + unat (ch_local_consumed ?c)"
    using side_room [OF ok] by (intro unat_add_small) simp
  have h: "held c = held ?c" by (simp add: c' held_def)
  have n: "new_msgs ?c c = [?m]" by (simp add: new_msgs_def c')
  have a: "adjust_of ?m = unat (ch_local_consumed ?c)" "load_of ?m = 0" "data_of ?m = []"
    by (simp_all add: adjust_of_def load_of_def data_of_def wire_simps)
  show ?thesis using ok w h n a
    by (simp add: step_ok_def side_ok_def sender_part_def receiver_part_def Let_def c')
qed

text \<open>Before \<open>select\<close>.\<close>

lemma check_restart_keeps:
  "check_restart n b len = Inr (ok, b') \<Longrightarrow> buffer_ok b \<Longrightarrow> buffer_ok b' \<and> buffer_contents b' = buffer_contents b"
proof (induction n b len rule: check_restart.induct)
  case (2 n b len)
  obtain m d where cp: "buffer_compact b = (m, d)" by fastforce
  with 2 buffer_compact_ok [OF 2(3) cp] show ?case
    by (auto simp: check_restart.simps(2) split: if_splits)
qed simp

lemma check_alloc_keeps:
  "buffer_check_alloc b len = Inr (ok, b') \<Longrightarrow> buffer_ok b \<Longrightarrow> buffer_ok b' \<and> buffer_contents b' = buffer_contents b"
  using check_restart_keeps [of 2 "buffer_rewind b" len ok b'] by (simp add: buffer_check_alloc_def buffer_rewind_ok contents_rewind)

lemma pre_open_cases:
  assumes "channel_pre_open env maxsize c fds = Inr (c', fds')" and "proto.compat20 env" and "buffer_ok (ch_input c)"
  shows "\<exists>b. buffer_ok b \<and> buffer_contents b = buffer_contents (ch_input c) \<and> event_frame (c\<lparr>ch_input := b\<rparr>) c'"
proof -
  obtain d f g where d: "pre_open_input env maxsize c fds = Inr (d, f)" and e: "pre_open_output env d f = Inr (c', g)"
    using assms(1) unfolding channel_pre_open_def rbind_eq_Inr by auto
  have "\<exists>b. buffer_ok b \<and> buffer_contents b = buffer_contents (ch_input c) \<and> d = c\<lparr>ch_input := b\<rparr>"
  proof (cases "d = c")
    case True
    then show ?thesis using assms(3) by (intro exI [of _ "ch_input c"]) simp
  next
    case False
    with d obtain ok b where "buffer_check_alloc (ch_input c) (of_nat CHAN_RBUF) = Inr (ok, b)" "d = c\<lparr>ch_input := b\<rparr>"
      by (auto simp: pre_open_input_def Let_def rbind_eq_Inr split: if_splits)
    then show ?thesis using check_alloc_keeps [OF _ assms(3)] by blast
  qed
  moreover have "event_frame d c'"
    using e event_obuf_empty [OF assms(2), of d c'] by (auto simp: pre_open_output_def rbind_eq_Inr split: if_splits)
  ultimately show ?thesis by blast
qed

lemma step_prepares:
  assumes ok: "side_ok x" and env: "proto.compat20 env" and h: "channel_pre_open env maxsize (sd_chan x) fds = Inr (c, fds')"
  shows "step_ok x q (x\<lparr>sd_chan := c\<rparr>) q (new_msgs (sd_chan x) c)"
proof -
  have bo: "buffer_ok (ch_input (sd_chan x))" using ok by (simp add: side_ok_def Let_def)
  from pre_open_cases [OF h env bo] obtain b where
    b: "buffer_ok b" "buffer_contents b = buffer_contents (ch_input (sd_chan x))" and fr: "event_frame ((sd_chan x)\<lparr>ch_input := b\<rparr>) c"
    by blast
  let ?y = "x\<lparr>sd_chan := (sd_chan x)\<lparr>ch_input := b\<rparr>\<rparr>"
  have "side_ok ?y" using ok b by (simp add: side_ok_def Let_def)
  then have "step_ok ?y q (?y\<lparr>sd_chan := c\<rparr>) q (new_msgs (sd_chan ?y) c)" by (rule quiet_step) (use fr in simp)
  then show ?thesis using b(2) by (simp add: step_ok_def sender_part_def receiver_part_def new_msgs_def)
qed

text \<open>Sending.\<close>

lemma min_min_le: "min (min a b) c \<le> (a :: u32)" "min (min a b) c \<le> b"
  by (simp_all add: min.coboundedI1)

lemma output_stream_step:
  assumes ok: "side_ok x" and env: "proto.compat20 env" and h: "output_stream env i m (sd_chan x) = Inr c"
  shows "\<exists>ms. ch_sent c = ch_sent (sd_chan x) @ ms \<and> step_ok x q (x\<lparr>sd_chan := c\<rparr>) q ms"
proof -
  let ?c = "sd_chan x"
  define n where "n = output_amount env i m ?c (buffer_len (ch_input ?c))"
  have bo: "buffer_ok (ch_input ?c)" using ok by (simp add: side_ok_def Let_def)
  have n1: "n \<le> buffer_len (ch_input ?c)" and n2: "n \<le> ch_remote_window ?c"
    using env min_min_le by (auto simp: n_def output_amount_def)
  have le: "unat n \<le> length (buffer_contents (ch_input ?c))" using n1 unat_buffer_len [OF bo] by (simp add: word_le_nat_alt)
  show ?thesis
  proof (cases "n > 0")
    case False
    then have "c = ?c" using h by (simp add: output_stream_def n_def [symmetric] Let_def)
    then show ?thesis using same_step [OF ok] by (intro exI [of _ "[]"]) simp
  next
    case True
    from consume_spec [OF bo le] obtain b where b: "buffer_consume (ch_input ?c) n = Inr b" "buffer_ok b"
      "buffer_contents b = drop (unat n) (buffer_contents (ch_input ?c))" by blast
    let ?d = "take (unat n) (buffer_contents (ch_input ?c))"
    let ?m = "(SSH2_MSG_CHANNEL_DATA, put_u32 (ch_remote_id ?c) @ string_enc ?d)"
    have c: "c = ?c\<lparr>ch_sent := ch_sent ?c @ [?m], ch_input := b, ch_remote_window := ch_remote_window ?c - n\<rparr>"
      using h True b(1) env take_ptr [OF bo le] by (simp add: output_stream_def n_def [symmetric] Let_def data_msg_def send_msg_def)
    have w: "unat (ch_remote_window ?c - n) + unat n = unat (ch_remote_window ?c)"
      using n2 by (subst unat_sub_small) (simp_all add: word_le_nat_alt)
    have m: "data_of ?m = ?d" "load_of ?m = unat n" "adjust_of ?m = 0"
      using le by (simp_all add: data_of_def load_of_def adjust_of_def string_enc_def put_u32_def)
    have held: "held c = held ?c" by (simp add: c held_def)
    have "step_ok x q (x\<lparr>sd_chan := c\<rparr>) q [?m]"
      using ok b w m held by (simp add: step_ok_def side_ok_def sender_part_def receiver_part_def Let_def c)
    then show ?thesis by (intro exI [of _ "[?m]"]) (simp add: c)
  qed
qed

lemma output_extended_step:
  assumes ok: "side_ok x" and h: "output_extended env (sd_chan x) = Inr c"
  shows "\<exists>ms. ch_sent c = ch_sent (sd_chan x) @ ms \<and> step_ok x q (x\<lparr>sd_chan := c\<rparr>) q ms"
proof -
  let ?c = "sd_chan x"
  define n where "n = min (min (buffer_len (ch_extended ?c)) (ch_remote_window ?c)) (ch_remote_maxpacket ?c)"
  have bo: "buffer_ok (ch_extended ?c)" using ok by (simp add: side_ok_def Let_def)
  have n1: "n \<le> buffer_len (ch_extended ?c)" and n2: "n \<le> ch_remote_window ?c" using min_min_le by (auto simp: n_def)
  have le: "unat n \<le> length (buffer_contents (ch_extended ?c))" using n1 unat_buffer_len [OF bo] by (simp add: word_le_nat_alt)
  show ?thesis
  proof (cases "proto.compat20 env \<and> \<not> has_flag ?c CHAN_EOF_SENT \<and> ch_remote_window ?c > 0 \<and> buffer_len (ch_extended ?c) > 0 \<and>
      ch_extended_usage ?c = CHAN_EXTENDED_READ")
    case False
    then have "c = ?c" using h unfolding output_extended_def if_not_P [OF False] by simp
    then show ?thesis using same_step [OF ok] by (intro exI [of _ "[]"]) simp
  next
    case True
    from consume_spec [OF bo le] obtain b where b: "buffer_consume (ch_extended ?c) n = Inr b" "buffer_ok b" by blast
    let ?d = "take (unat n) (buffer_contents (ch_extended ?c))"
    let ?m = "(SSH2_MSG_CHANNEL_EXTENDED_DATA, put_u32 (ch_remote_id ?c) @ put_u32 SSH2_EXTENDED_DATA_STDERR @ string_enc ?d)"
    have c: "c = ?c\<lparr>ch_sent := ch_sent ?c @ [?m], ch_extended := b, ch_remote_window := ch_remote_window ?c - n\<rparr>"
      using h b(1) take_ptr [OF bo le] unfolding output_extended_def if_P [OF True] by (simp add: n_def [symmetric] Let_def send_msg_def)
    have w: "unat (ch_remote_window ?c - n) + unat n = unat (ch_remote_window ?c)"
      using n2 by (subst unat_sub_small) (simp_all add: word_le_nat_alt)
    have m: "data_of ?m = []" "load_of ?m = unat n" "adjust_of ?m = 0"
      using le by (simp_all add: data_of_def load_of_def adjust_of_def string_enc_def put_u32_def)
    have held: "held c = held ?c" using True by (simp add: c held_def)
    have "step_ok x q (x\<lparr>sd_chan := c\<rparr>) q [?m]"
      using ok b w m held by (simp add: step_ok_def side_ok_def sender_part_def receiver_part_def Let_def c)
    then show ?thesis by (intro exI [of _ "[?m]"]) (simp add: c)
  qed
qed

lemma step_ok_trans:
  assumes "step_ok x q y q ms" and "step_ok y q z q ns"
  shows "step_ok x q z q (ms @ ns)"
proof -
  obtain d where d: "sd_read y = sd_read x @ d"
    "buffer_contents (ch_input (sd_chan x)) @ d = stream ms @ buffer_contents (ch_input (sd_chan y))"
    using assms(1) by (auto simp: step_ok_def sender_part_def)
  obtain e where e: "sd_read z = sd_read y @ e"
    "buffer_contents (ch_input (sd_chan y)) @ e = stream ns @ buffer_contents (ch_input (sd_chan z))"
    using assms(2) by (auto simp: step_ok_def sender_part_def)
  have "sd_read z = sd_read x @ (d @ e) \<and>
      buffer_contents (ch_input (sd_chan x)) @ (d @ e) = stream (ms @ ns) @ buffer_contents (ch_input (sd_chan z))"
    using d e by (metis append_assoc queue_simps(3))
  then have "\<exists>f. sd_read z = sd_read x @ f \<and>
      buffer_contents (ch_input (sd_chan x)) @ f = stream (ms @ ns) @ buffer_contents (ch_input (sd_chan z))" by blast
  with assms show ?thesis by (auto simp: step_ok_def sender_part_def receiver_part_def)
qed

lemma poll_first:
  assumes ok: "side_ok x" and env: "proto.compat20 env" "\<not> compat13 env"
    and h: "(if (ch_istate (sd_chan x) = CHAN_INPUT_OPEN \<or> ch_istate (sd_chan x) = CHAN_INPUT_WAIT_DRAIN) \<and> buffer_len (ch_input (sd_chan x)) > 0
       then output_stream env i m (sd_chan x)
       else if ch_istate (sd_chan x) = CHAN_INPUT_WAIT_DRAIN
       then if compat13 env then Inl e else if efd_input_active env (sd_chan x) then Inr (sd_chan x) else chan_ibuf_empty env (sd_chan x)
       else Inr (sd_chan x)) = Inr c"
  shows "\<exists>ms. ch_sent c = ch_sent (sd_chan x) @ ms \<and> step_ok x q (x\<lparr>sd_chan := c\<rparr>) q ms"
proof -
  have "output_stream env i m (sd_chan x) = Inr c \<or> chan_event env (sd_chan x) c \<or> c = sd_chan x"
    using h env by (auto intro: ev_ibuf_empty split: if_splits)
  moreover have "\<exists>ms. ch_sent c = ch_sent (sd_chan x) @ ms \<and> step_ok x q (x\<lparr>sd_chan := c\<rparr>) q ms" if "chan_event env (sd_chan x) c"
    using quiet_step [OF ok chan_event_frame [OF that env(1)], of q] chan_event_frame [OF that env(1)]
    by (auto simp: event_frame_def new_msgs_def)
  moreover have "\<exists>ms. ch_sent c = ch_sent (sd_chan x) @ ms \<and> step_ok x q (x\<lparr>sd_chan := c\<rparr>) q ms" if "c = sd_chan x"
    using same_step [OF ok, of q] that by (intro exI [of _ "[]"]) simp
  ultimately show ?thesis using output_stream_step [OF ok env(1)] by blast
qed

lemma step_sends:
  assumes ok: "side_ok x" and env: "proto.compat20 env" "\<not> compat13 env" and h: "output_poll_one env i m (sd_chan x) = Inr c"
  shows "step_ok x q (x\<lparr>sd_chan := c\<rparr>) q (new_msgs (sd_chan x) c)"
proof (cases "ch_type (sd_chan x) \<noteq> SSH_CHANNEL_OPEN \<or> has_flag (sd_chan x) (CHAN_CLOSE_SENT OR CHAN_CLOSE_RCVD)")
  case True
  have "c = sd_chan x"
  proof (cases "ch_type (sd_chan x) \<noteq> SSH_CHANNEL_OPEN")
    case g: True
    with env have g0: "ch_type (sd_chan x) \<noteq> SSH_CHANNEL_OPEN \<and> \<not> (compat13 env \<and> ch_type (sd_chan x) = SSH_CHANNEL_INPUT_DRAINING)" by simp
    from h show ?thesis unfolding output_poll_one_def if_P [OF g0] by simp
  next
    case False
    then have g1: "\<not> (ch_type (sd_chan x) \<noteq> SSH_CHANNEL_OPEN \<and> \<not> (compat13 env \<and> ch_type (sd_chan x) = SSH_CHANNEL_INPUT_DRAINING))" by simp
    have g2: "proto.compat20 env \<and> has_flag (sd_chan x) (CHAN_CLOSE_SENT OR CHAN_CLOSE_RCVD)" using True False env by auto
    from h show ?thesis unfolding output_poll_one_def if_not_P [OF g1] if_P [OF g2] by simp
  qed
  then show ?thesis using same_step [OF ok] by simp
next
  case False
  have dg: "\<not> ch_datagram (sd_chan x)" using ok by (simp add: side_ok_def Let_def)
  have g1: "\<not> (ch_type (sd_chan x) \<noteq> SSH_CHANNEL_OPEN \<and> \<not> (compat13 env \<and> ch_type (sd_chan x) = SSH_CHANNEL_INPUT_DRAINING))"
    and g2: "\<not> (proto.compat20 env \<and> has_flag (sd_chan x) (CHAN_CLOSE_SENT OR CHAN_CLOSE_RCVD))"
    and g3: "\<not> ((ch_istate (sd_chan x) = CHAN_INPUT_OPEN \<or> ch_istate (sd_chan x) = CHAN_INPUT_WAIT_DRAIN) \<and>
      buffer_len (ch_input (sd_chan x)) > 0 \<and> ch_datagram (sd_chan x))"
    using False dg by auto
  from h obtain d where d: "(if (ch_istate (sd_chan x) = CHAN_INPUT_OPEN \<or> ch_istate (sd_chan x) = CHAN_INPUT_WAIT_DRAIN) \<and>
        buffer_len (ch_input (sd_chan x)) > 0
      then output_stream env i m (sd_chan x)
      else if ch_istate (sd_chan x) = CHAN_INPUT_WAIT_DRAIN
      then if compat13 env then Inl (Fatal ''cannot happen: istate == INPUT_WAIT_DRAIN for proto 1.3'')
           else if efd_input_active env (sd_chan x) then Inr (sd_chan x) else chan_ibuf_empty env (sd_chan x)
      else Inr (sd_chan x)) = Inr d" and e: "output_extended env d = Inr c"
    unfolding output_poll_one_def if_not_P [OF g1] if_not_P [OF g2] if_not_P [OF g3] rbind_eq_Inr by blast
  from poll_first [OF ok env d, of q] obtain ms where
    ms: "ch_sent d = ch_sent (sd_chan x) @ ms" "step_ok x q (x\<lparr>sd_chan := d\<rparr>) q ms" by blast
  from output_extended_step [of "x\<lparr>sd_chan := d\<rparr>" env c q] ms(2) e obtain ns where
    ns: "ch_sent c = ch_sent d @ ns" "step_ok (x\<lparr>sd_chan := d\<rparr>) q (x\<lparr>sd_chan := c\<rparr>) q ns" by (auto simp: step_ok_def)
  have "new_msgs (sd_chan x) c = ms @ ns" using ms(1) ns(1) by (simp add: new_msgs_def)
  with step_ok_trans [OF ms(2) ns(2)] show ?thesis by simp
qed

text \<open>Receiving.\<close>

lemma recv_data_open:
  assumes "proto.compat20 env" "\<not> compat13 env" "\<not> ch_datagram c" "ch_ostate c = CHAN_OUTPUT_OPEN"
    "of_nat (length d) \<le> ch_local_window c" "recv_data env d c = Inr (whole, c')"
  shows "\<exists>b. whole \<and> buffer_append (ch_output c) d (of_nat (length d)) = Inr b \<and>
    c' = c\<lparr>ch_local_window := ch_local_window c - of_nat (length d), ch_output := b\<rparr>"
proof -
  have "\<not> ch_local_window c < of_nat (length d)" using assms(5) by simp
  with assms show ?thesis by (auto simp: recv_data_def Let_def rbind_eq_Inr)
qed

lemma recv_data_closed:
  assumes "proto.compat20 env" "\<not> compat13 env" "\<not> ch_datagram c" "ch_ostate c \<noteq> CHAN_OUTPUT_OPEN" "recv_data env d c = Inr (whole, c')"
  shows "\<not> whole \<and> c' = c\<lparr>ch_local_window := ch_local_window c - of_nat (length d),
    ch_local_consumed := ch_local_consumed c + of_nat (length d)\<rparr>"
  using assms by (auto simp: recv_data_def Let_def)

lemma step_data:
  assumes ok: "side_ok x" and env: "proto.compat20 env" "\<not> compat13 env"
    and m: "fst m = SSH2_MSG_CHANNEL_DATA" and ty: "ch_type (sd_chan x) = SSH_CHANNEL_OPEN"
    and h: "recv_data env (data_of m) (sd_chan x) = Inr (whole, c)" and fit: "load (m # q) \<le> unat (ch_local_window (sd_chan x))"
  shows "step_ok x (m # q) (x\<lparr>sd_chan := c, sd_recv := sd_recv x @ data_of m, sd_out := sd_out x @ (if whole then data_of m else [])\<rparr>) q []"
proof -
  let ?c = "sd_chan x" and ?d = "data_of m"
  have l: "load_of m = length ?d" "adjust_of m = 0" using m by (simp_all add: load_of_def data_of_def adjust_of_def)
  have fit': "length ?d \<le> unat (ch_local_window ?c)" using fit l by simp
  then have u: "unat (of_nat (length ?d) :: u32) = length ?d" using le_less_trans [OF fit' unat_u32_lt] by (simp add: unat_of_nat)
  have w: "unat (ch_local_window ?c - of_nat (length ?d)) + length ?d = unat (ch_local_window ?c)"
    using fit' u by (subst unat_sub_small) simp_all
  have bo: "buffer_ok (ch_output ?c)" and dg: "\<not> ch_datagram ?c" using ok by (simp_all add: side_ok_def Let_def)
  show ?thesis
  proof (cases "ch_ostate ?c = CHAN_OUTPUT_OPEN")
    case True
    from recv_data_open [OF env dg True _ h] fit' u obtain b where
      b: "whole" "buffer_append (ch_output ?c) ?d (of_nat (length ?d)) = Inr b"
        "c = ?c\<lparr>ch_local_window := ch_local_window ?c - of_nat (length ?d), ch_output := b\<rparr>" by (auto simp: word_le_nat_alt)
    have b': "buffer_ok b" "buffer_contents b = buffer_contents (ch_output ?c) @ ?d" using append_spec [OF bo b(2)] u by auto
    have "held c = held ?c + length ?d" using b(3) b'(2) by (simp add: held_def)
    then show ?thesis using ok b b' w l True ty
      by (simp add: step_ok_def side_ok_def sender_part_def receiver_part_def Let_def)
  next
    case False
    from recv_data_closed [OF env dg False h] have
      c: "\<not> whole" "c = ?c\<lparr>ch_local_window := ch_local_window ?c - of_nat (length ?d), ch_local_consumed := ch_local_consumed ?c + of_nat (length ?d)\<rparr>"
      by auto
    have v: "unat (ch_local_consumed ?c + of_nat (length ?d)) = unat (ch_local_consumed ?c) + length ?d"
      using side_room [OF ok] fit' u by (subst unat_add_small) simp_all
    have "held c = held ?c" by (simp add: c held_def)
    then show ?thesis using ok c w v l False
      by (simp add: step_ok_def side_ok_def sender_part_def receiver_part_def Let_def)
  qed
qed

lemma step_late_data:
  assumes "side_ok x" and "fst m = SSH2_MSG_CHANNEL_DATA" and "ch_type (sd_chan x) \<noteq> SSH_CHANNEL_OPEN"
  shows "step_ok x (m # q) (x\<lparr>sd_recv := sd_recv x @ data_of m\<rparr>) q []"
  using assms by (simp add: step_ok_def side_ok_def sender_part_def receiver_part_def Let_def)

lemma step_extended_data:
  assumes ok: "side_ok x" and m: "fst m = SSH2_MSG_CHANNEL_EXTENDED_DATA" and us: "ch_extended_usage (sd_chan x) = CHAN_EXTENDED_WRITE"
    and h: "recv_extended (drop 12 (snd m)) (sd_chan x) = Inr c" and fit: "load (m # q) \<le> unat (ch_local_window (sd_chan x))"
  shows "step_ok x (m # q) (x\<lparr>sd_chan := c\<rparr>) q []"
proof -
  let ?c = "sd_chan x" and ?d = "drop 12 (snd m)"
  have l: "load_of m = length ?d" "adjust_of m = 0" "data_of m = []" using m by (simp_all add: load_of_def data_of_def adjust_of_def)
  have fit': "length ?d \<le> unat (ch_local_window ?c)" using fit l by simp
  then have u: "unat (of_nat (length ?d) :: u32) = length ?d" using le_less_trans [OF fit' unat_u32_lt] by (simp add: unat_of_nat)
  have w: "unat (ch_local_window ?c - of_nat (length ?d)) + length ?d = unat (ch_local_window ?c)"
    using fit' u by (subst unat_sub_small) simp_all
  have bo: "buffer_ok (ch_extended ?c)" using ok by (simp add: side_ok_def Let_def)
  have "\<not> of_nat (length ?d) > ch_local_window ?c" using fit' u by (simp add: word_less_nat_alt not_less)
  with h obtain b where b: "buffer_append (ch_extended ?c) ?d (of_nat (length ?d)) = Inr b"
      "c = ?c\<lparr>ch_local_window := ch_local_window ?c - of_nat (length ?d), ch_extended := b\<rparr>"
    unfolding recv_extended_def by (auto simp: rbind_eq_Inr simp del: length_drop)
  have b': "buffer_ok b" "buffer_contents b = buffer_contents (ch_extended ?c) @ ?d" using append_spec [OF bo b(1)] u by auto
  have "held c = held ?c + length ?d" using b(2) b'(2) us by (simp add: held_def)
  then show ?thesis using ok b b' w l
    by (simp add: step_ok_def side_ok_def sender_part_def receiver_part_def Let_def)
qed

lemma step_adjust:
  assumes ok: "side_ok x" and m: "fst m = SSH2_MSG_CHANNEL_WINDOW_ADJUST"
    and fit: "unat (ch_remote_window (sd_chan x)) + adjusts (m # q) < 2 ^ 32"
  shows "step_ok x (m # q) (x\<lparr>sd_chan := recv_adjust (get_u32 (drop 4 (snd m))) (sd_chan x)\<rparr>) q []"
proof -
  let ?a = "get_u32 (drop 4 (snd m))"
  have l: "adjust_of m = unat ?a" "load_of m = 0" "data_of m = []" using m by (simp_all add: load_of_def data_of_def adjust_of_def)
  have "unat (ch_remote_window (sd_chan x) + ?a) = unat (ch_remote_window (sd_chan x)) + unat ?a"
    using fit l by (intro unat_add_small) simp
  moreover have "held (recv_adjust ?a (sd_chan x)) = held (sd_chan x)" by (simp add: recv_adjust_def held_def)
  ultimately show ?thesis using ok l
    by (simp add: step_ok_def side_ok_def sender_part_def receiver_part_def Let_def recv_adjust_def)
qed

lemma step_other:
  "side_ok x \<Longrightarrow> fst m \<noteq> SSH2_MSG_CHANNEL_DATA \<Longrightarrow> step_ok x (m # q) x q []"
  by (simp add: step_ok_def sender_part_def receiver_part_def data_of_def)

lemma side_step_ok:
  assumes "side_step L env x q x' q' ms" and "proto.compat20 env" "\<not> compat13 env" and "side_ok x"
    and "load q \<le> unat (ch_local_window (sd_chan x))" and "unat (ch_remote_window (sd_chan x)) + adjusts q < 2 ^ 32"
  shows "step_ok x q x' q' ms"
  using assms
proof (induction rule: side_step.induct)
  case (sd_event x c q)
  then show ?case using quiet_step chan_event_frame by blast
next
  case (sd_adjust m x q)
  then show ?case using step_adjust by blast
qed (blast intro: step_reads step_writes step_extended step_window step_prepares step_sends step_data step_late_data
    step_extended_data step_other)+

section \<open>Both ends\<close>

lemma way_bounds:
  assumes "way_ok a b ab ba"
  shows "load ab \<le> unat (ch_local_window (sd_chan b))" and "unat (ch_remote_window (sd_chan a)) + adjusts ba < 2 ^ 32"
proof -
  have "unat (ch_remote_window (sd_chan a)) + load ab + adjusts ba \<le> unat (ch_local_window (sd_chan b))"
    using assms by (simp add: way_ok_def)
  then show "load ab \<le> unat (ch_local_window (sd_chan b))" "unat (ch_remote_window (sd_chan a)) + adjusts ba < 2 ^ 32"
    using unat_u32_lt [of "ch_local_window (sd_chan b)"] by (simp_all del: unat_u32_lt)
qed

definition keeps_max :: "link \<Rightarrow> link \<Rightarrow> bool" where
  "keeps_max l k \<longleftrightarrow>
     ch_local_window_max (sd_chan (fst k)) = ch_local_window_max (sd_chan (fst l)) \<and>
     ch_local_window_max (sd_chan (fst (snd k))) = ch_local_window_max (sd_chan (fst (snd l)))"

lemma link_step_ok:
  assumes "link_step L env l k" and "proto.compat20 env" "\<not> compat13 env" and "link_ok l"
  shows "link_ok k \<and> keeps_max l k"
  using assms
proof (induction rule: link_step.induct)
  case (link_left a ba a' ba' ms b ab)
  then have "side_ok a" and ws: "way_ok a b ab ba" "way_ok b a ba ab" by simp_all
  then have "step_ok a ba a' ba' ms"
    using side_step_ok [OF link_left(1-3)] way_bounds by blast
  then show ?case using link_left(4) way_left [OF ws(1)] way_right [OF ws(2)]
    by (simp add: step_ok_def keeps_max_def receiver_part_def)
next
  case (link_right b ab b' ab' ms a ba)
  then have "side_ok b" and ws: "way_ok a b ab ba" "way_ok b a ba ab" by simp_all
  then have "step_ok b ab b' ab' ms"
    using side_step_ok [OF link_right(1-3)] way_bounds by blast
  then show ?case using link_right(4) way_right [OF ws(1)] way_left [OF ws(2)]
    by (simp add: step_ok_def keeps_max_def receiver_part_def)
qed

lemma link_steps_ok:
  "link_steps L env l k \<Longrightarrow> proto.compat20 env \<Longrightarrow> \<not> compat13 env \<Longrightarrow> link_ok l \<Longrightarrow> link_ok k \<and> keeps_max l k"
proof (induction rule: link_steps.induct)
  case (link_next l k k')
  then show ?case using link_step_ok [of L env k k'] by (simp add: keeps_max_def)
qed (simp add: keeps_max_def)

text \<open>
  A channel just opened: each end starts with the window the other end announced, nothing is buffered
  and nothing was exchanged.
\<close>

definition fresh_side :: "side \<Rightarrow> bool" where
  "fresh_side x \<longleftrightarrow> (let c = sd_chan x in
     buffer_ok (ch_input c) \<and> buffer_ok (ch_output c) \<and> buffer_ok (ch_extended c) \<and>
     buffer_contents (ch_input c) = [] \<and> buffer_contents (ch_output c) = [] \<and> buffer_contents (ch_extended c) = [] \<and>
     \<not> ch_datagram c \<and> ch_type c = SSH_CHANNEL_OPEN \<and> ch_local_window c = ch_local_window_max c \<and> ch_local_consumed c = 0 \<and>
     sd_read x = [] \<and> sd_recv x = [] \<and> sd_out x = [] \<and> sd_written x = [])"

definition fresh_link :: "side \<Rightarrow> side \<Rightarrow> bool" where
  "fresh_link a b \<longleftrightarrow> fresh_side a \<and> fresh_side b \<and>
     ch_remote_window (sd_chan a) = ch_local_window (sd_chan b) \<and> ch_remote_window (sd_chan b) = ch_local_window (sd_chan a)"

lemma fresh_link_ok: "fresh_link a b \<Longrightarrow> link_ok (a, b, [], [])"
  by (auto simp: fresh_link_def fresh_side_def side_ok_def way_ok_def Let_def held_def)

section \<open>Properties\<close>



text \<open>A run: two bytes are read at one end, sent, received and one of them written at the other end.\<close>

definition small_buffer :: "byte list \<Rightarrow> nat \<Rightarrow> buffer" where
  "small_buffer d n = \<lparr>b_buf = take 8 (d @ replicate 8 0), b_alloc = 8, b_offset = of_nat n, b_end = of_nat (length d)\<rparr>"

definition demo_end :: channel where
  "demo_end = demo_channel\<lparr>ch_input := small_buffer [] 0, ch_output := small_buffer [] 0, ch_extended := small_buffer [] 0,
     ch_remote_window := 4, ch_remote_maxpacket := 4, ch_local_window := 4, ch_local_window_max := 4, ch_local_maxpacket := 4\<rparr>"

definition demo_msg :: "byte \<times> byte list" where
  "demo_msg = (SSH2_MSG_CHANNEL_DATA, [0, 0, 0, 7, 0, 0, 0, 2, 104, 105])"

definition demo_side :: side where
  "demo_side = \<lparr>sd_chan = demo_end, sd_read = [], sd_recv = [], sd_out = [], sd_written = []\<rparr>"

definition demo_sender :: side where
  "demo_sender = demo_side\<lparr>sd_chan := demo_end\<lparr>ch_input := small_buffer [104, 105] 2, ch_remote_window := 2, ch_sent := [demo_msg]\<rparr>,
     sd_read := [104, 105]\<rparr>"

definition demo_receiver :: side where
  "demo_receiver = demo_side\<lparr>sd_chan := demo_end\<lparr>ch_output := small_buffer [104, 105] 1, ch_local_window := 2, ch_local_consumed := 1\<rparr>,
     sd_recv := [104, 105], sd_out := [104, 105], sd_written := [104]\<rparr>"

lemmas small_defs = demo_side_def demo_end_def demo_channel_def demo_msg_def small_buffer_def buffer_append_def buffer_append_space_def
  buffer_rewind_def numeral_3_eq_3 append_restart.simps(2) overwrite_def buffer_contents_def buffer_len_def

abbreviation demo_env :: proto where
  "demo_env \<equiv> \<lparr>compat20 = True, compat13 = False, datafellows = 0\<rparr>"

lemma demo_reads:
  "link_step demo_libs demo_env (demo_side, demo_side, [], [])
     (demo_side\<lparr>sd_chan := demo_end\<lparr>ch_input := small_buffer [104, 105] 0\<rparr>, sd_read := [104, 105]\<rparr>, demo_side, [], [])"
proof -
  have "channel_handle_rfd demo_env {5} (ReadData [104, 105]) (sd_chan demo_side) = Inr (demo_end\<lparr>ch_input := small_buffer [104, 105] 0\<rparr>)"
    by (simp add: channel_handle_rfd_def small_defs)
  from link_left [OF sd_reads [OF this, of demo_libs "[]"], of demo_side "[]"] show ?thesis
    by (simp add: new_msgs_def new_input_def small_defs)
qed

lemma demo_sends:
  "link_step demo_libs demo_env
     (demo_side\<lparr>sd_chan := demo_end\<lparr>ch_input := small_buffer [104, 105] 0\<rparr>, sd_read := [104, 105]\<rparr>, demo_side, [], [])
     (demo_sender, demo_side, [demo_msg], [])"
proof -
  let ?x = "demo_side\<lparr>sd_chan := demo_end\<lparr>ch_input := small_buffer [104, 105] 0\<rparr>, sd_read := [104, 105]\<rparr>"
  have "output_poll_one demo_env True 0 (sd_chan ?x) = Inr (sd_chan demo_sender)"
    by (simp add: output_poll_one_def output_stream_def output_amount_def output_extended_def data_msg_def send_msg_def demo_sender_def
        buffer_consume_def buffer_consume_ret_def buffer_ptr_def string_enc_def put_u32_def has_flag_def small_defs)
  from link_left [OF sd_sends [OF this, of demo_libs "[]"], of demo_side "[]"] show ?thesis
    by (simp add: new_msgs_def demo_sender_def small_defs)
qed

lemma demo_receives:
  "link_step demo_libs demo_env (demo_sender, demo_side, [demo_msg], [])
     (demo_sender, demo_side\<lparr>sd_chan := demo_end\<lparr>ch_output := small_buffer [104, 105] 0, ch_local_window := 2\<rparr>,
        sd_recv := [104, 105], sd_out := [104, 105]\<rparr>, [], [])"
proof -
  have d: "data_of demo_msg = [104, 105]" by (simp add: data_of_def demo_msg_def)
  have "recv_data demo_env (data_of demo_msg) (sd_chan demo_side) =
      Inr (True, demo_end\<lparr>ch_output := small_buffer [104, 105] 0, ch_local_window := 2\<rparr>)"
    unfolding d by (simp add: recv_data_def small_defs)
  from link_right [OF sd_data [OF _ _ this, of demo_libs "[]"], of demo_sender "[]"] show ?thesis
    unfolding d by (simp add: small_defs)
qed

lemma demo_writes:
  "link_step demo_libs demo_env
     (demo_sender, demo_side\<lparr>sd_chan := demo_end\<lparr>ch_output := small_buffer [104, 105] 0, ch_local_window := 2\<rparr>,
        sd_recv := [104, 105], sd_out := [104, 105]\<rparr>, [], [])
     (demo_sender, demo_receiver, [], [])"
proof -
  let ?x = "demo_side\<lparr>sd_chan := demo_end\<lparr>ch_output := small_buffer [104, 105] 0, ch_local_window := 2\<rparr>,
    sd_recv := [104, 105], sd_out := [104, 105]\<rparr>"
  have "channel_handle_wfd demo_libs demo_env {6} (Wrote 1) False (sd_chan ?x, demo_world) = Inr (sd_chan demo_receiver, demo_world)"
    by (simp add: channel_handle_wfd_def count_consumed_def demo_receiver_def buffer_consume_def buffer_consume_ret_def buffer_ptr_def small_defs)
  from link_right [OF sd_writes [OF this, of "[]"], of demo_sender "[]"] show ?thesis
    by (simp add: new_msgs_def kernel_took_def demo_receiver_def small_defs)
qed

lemma demo_link: "link_steps demo_libs demo_env (demo_side, demo_side, [], []) (demo_sender, demo_receiver, [], [])"
  using link_next [OF link_next [OF link_next [OF link_next [OF link_start demo_reads] demo_sends] demo_receives] demo_writes] .

lemma demo_fresh_link: "fresh_link demo_side demo_side"
  by (simp add: fresh_link_def fresh_side_def buffer_ok_def small_defs)



end
