(* ===== verification/Match.thy ===== *)
theory Match
  imports CString Wire
begin

text \<open>
  Pattern matching of \<open>match.c\<close>: the wildcards \<open>*\<close> and \<open>?\<close>, lists of patterns with negation, and the
  choice of the first name two lists have in common. A C string is a \<open>string\<close> without its NUL.
\<close>

section \<open>One pattern\<close>

text \<open>The two inner loops are functions of their own: one tries each occurrence of a known character, the
  other each position that is not the end.\<close>

function match_pattern :: "string \<Rightarrow> string \<Rightarrow> bool"
  and match_known :: "string \<Rightarrow> char \<Rightarrow> string \<Rightarrow> bool"
  and match_anywhere :: "string \<Rightarrow> string \<Rightarrow> bool" where
  "match_pattern s [] = (s = [])"
| "match_pattern s (p # ps) =
     (if p = CHR ''*''
      then case ps of
             [] \<Rightarrow> True
           | q # qs \<Rightarrow> if q \<noteq> CHR ''?'' \<and> q \<noteq> CHR ''*'' then match_known s q qs else match_anywhere s ps
      else case s of
             [] \<Rightarrow> False
           | c # cs \<Rightarrow> if p \<noteq> CHR ''?'' \<and> p \<noteq> c then False else match_pattern cs ps)"
| "match_known [] q qs = False"
| "match_known (c # cs) q qs = (c = q \<and> match_pattern cs qs \<or> match_known cs q qs)"
| "match_anywhere [] ps = False"
| "match_anywhere (c # cs) ps = (match_pattern (c # cs) ps \<or> match_anywhere cs ps)"
  by pat_completeness auto
termination
  by (relation "measures [\<lambda>x. case x of Inl (s, p) \<Rightarrow> length p | Inr (Inl (s, q, qs)) \<Rightarrow> Suc (length qs) | Inr (Inr (s, ps)) \<Rightarrow> length ps,
      \<lambda>x. case x of Inl (s, p) \<Rightarrow> 2 * length s | Inr (Inl (s, q, qs)) \<Rightarrow> 2 * length s + 1 | Inr (Inr (s, ps)) \<Rightarrow> 2 * length s + 1]") auto

declare match_pattern.simps(2) [simp del]

text \<open>What a pattern stands for.\<close>

inductive glob :: "string \<Rightarrow> string \<Rightarrow> bool" where
  glob_end: "glob [] []"
| glob_star: "glob ps v \<Longrightarrow> glob (CHR ''*'' # ps) (u @ v)"
| glob_any: "glob ps v \<Longrightarrow> glob (CHR ''?'' # ps) (c # v)"
| glob_char: "glob ps v \<Longrightarrow> c \<noteq> CHR ''*'' \<Longrightarrow> c \<noteq> CHR ''?'' \<Longrightarrow> glob (c # ps) (c # v)"

inductive_cases glob_NilE: "glob [] s"
inductive_cases glob_StarE: "glob (CHR ''*'' # ps) s"
inductive_cases glob_AnyE: "glob (CHR ''?'' # ps) s"
inductive_cases glob_ConsE: "glob (p # ps) s"

fun single_stars :: "string \<Rightarrow> bool" where
  "single_stars (p # q # ps) \<longleftrightarrow> \<not> (p = CHR ''*'' \<and> q = CHR ''*'') \<and> single_stars (q # ps)"
| "single_stars ps \<longleftrightarrow> True"

lemma glob_star_Cons: "glob (CHR ''*'' # ps) s \<Longrightarrow> glob (CHR ''*'' # ps) (c # s)"
  by (erule glob_StarE) (metis append_Cons glob_star)

lemma glob_star_skip: "glob ps s \<Longrightarrow> glob (CHR ''*'' # ps) s"
  using glob_star [of ps s "[]"] by simp

lemma match_sound:
  "match_pattern s p \<Longrightarrow> glob p s"
  "match_known s q qs \<Longrightarrow> q \<noteq> CHR ''?'' \<Longrightarrow> q \<noteq> CHR ''*'' \<Longrightarrow> glob (CHR ''*'' # q # qs) s"
  "match_anywhere s ps \<Longrightarrow> glob (CHR ''*'' # ps) s"
proof (induction s p and s q qs and s ps rule: match_pattern_match_known_match_anywhere.induct)
  case (2 s p ps)
  then show ?case
    by (auto simp: match_pattern.simps(2) split: if_splits list.splits
        intro: glob_any glob_char glob_star [of "[]" "[]", simplified] glob_end)
next
  case (4 c cs q qs)
  then show ?case by (auto intro: glob_star_Cons glob_star_skip glob_char)
next
  case (6 c cs ps)
  then show ?case by (auto intro: glob_star_Cons glob_star_skip)
qed (auto intro: glob_end)

lemma match_known_intro: "match_pattern v qs \<Longrightarrow> match_known (u @ q # v) q qs"
  by (induction u) auto

lemma match_anywhere_intro: "match_pattern v ps \<Longrightarrow> v \<noteq> [] \<Longrightarrow> match_anywhere (u @ v) ps"
  by (induction u) (cases v; auto)+

lemma single_stars_tl: "single_stars (p # ps) \<Longrightarrow> single_stars ps"
  by (cases ps) auto

lemma match_complete: "glob p s \<Longrightarrow> single_stars p \<Longrightarrow> match_pattern s p"
proof (induction rule: glob.induct)
  case (glob_star ps v u)
  then have m: "match_pattern v ps" using single_stars_tl by blast
  show ?case
  proof (cases ps)
    case Nil
    then show ?thesis by (simp add: match_pattern.simps(2))
  next
    case (Cons q qs)
    with glob_star(3) have ns: "q \<noteq> CHR ''*''" by simp
    with m Cons obtain c cs where v: "v = c # cs" "q = CHR ''?'' \<or> c = q" "match_pattern cs qs"
      by (cases v) (auto simp: match_pattern.simps(2) split: if_splits)
    show ?thesis
    proof (cases "q = CHR ''?''")
      case True
      with Cons m v(1) match_anywhere_intro [of v ps u] show ?thesis by (simp add: match_pattern.simps(2))
    next
      case False
      with Cons ns v match_known_intro [of cs qs u q] show ?thesis by (simp add: match_pattern.simps(2))
    qed
  qed
qed (auto simp: match_pattern.simps(2) dest: single_stars_tl)

lemma double_star_needs_a_character: "glob ''**'' [] \<and> \<not> match_pattern [] ''**''"
  using glob_star_skip [OF glob_star_skip [OF glob_end]] by (simp add: match_pattern.simps(2))

section \<open>Lists of patterns\<close>

text \<open>The subpattern up to a comma, at most 1023 characters of it, and what follows the comma.\<close>

definition subpattern :: "bool \<Rightarrow> string \<Rightarrow> string \<times> string" where
  "subpattern dolower pattern =
     (let raw = take 1023 (takeWhile (\<lambda>c. c \<noteq> CHR '','') pattern);
          rest = drop (length raw) pattern
      in (map (\<lambda>c. if dolower \<and> isupper c then tolower c else c) raw,
          if rest \<noteq> [] \<and> hd rest = CHR '','' then tl rest else rest))"

lemma subpattern_shorter: "length (snd (subpattern d pattern)) \<le> length pattern"
  by (simp add: subpattern_def Let_def)

lemma subpattern_progress: "length (snd (subpattern d (p # ps))) \<le> length ps"
  by (auto simp: subpattern_def Let_def)

text \<open>The rest of the loop; \<open>pattern\<close> is what \<open>i\<close> has not passed yet.\<close>

function list_loop :: "string \<Rightarrow> bool \<Rightarrow> bool \<Rightarrow> string \<Rightarrow> int" where
  "list_loop s dolower got [] = (if got then 1 else 0)"
| "list_loop s dolower got (p # ps) =
     (let negated = (p = CHR ''!'');
          next = subpattern dolower (if negated then ps else p # ps)
      in if length (fst next) \<ge> 1023 then 0
         else if match_pattern s (fst next) then if negated then -1 else list_loop s dolower True (snd next)
         else list_loop s dolower got (snd next))"
  by pat_completeness auto
termination
  by (relation "measure (\<lambda>(s, d, g, p). length p)")
    (auto simp: subpattern_progress less_Suc_eq_le subpattern_shorter split: if_splits)

declare list_loop.simps(2) [simp del]

definition match_pattern_list :: "string \<Rightarrow> string \<Rightarrow> nat \<Rightarrow> bool \<Rightarrow> int" where
  "match_pattern_list s pattern len dolower = list_loop s dolower False (take len pattern)"

definition match_hostname :: "string \<Rightarrow> string \<Rightarrow> nat \<Rightarrow> int" where
  "match_hostname host pattern len = match_pattern_list host pattern len True"

section \<open>The first common name\<close>

abbreviation MAX_PROP :: nat where "MAX_PROP \<equiv> 40"

text \<open>The result and the position \<open>next\<close> behind it in the client's list.\<close>

function list_scan :: "nat \<Rightarrow> string list \<Rightarrow> string option \<Rightarrow> string option \<times> nat" where
  "list_scan clen sproposals None = (None, clen)"
| "list_scan clen sproposals (Some cp) =
     (let (p, rest) = strsep CHR '','' cp
      in if p = [] then (None, clen)
         else if p \<in> set sproposals then (Some p, case rest of None \<Rightarrow> clen | Some r \<Rightarrow> clen - length r)
         else list_scan clen sproposals rest)"
  by pat_completeness auto
termination
  by (relation "measure (\<lambda>(n, sp, cp). case cp of None \<Rightarrow> 0 | Some t \<Rightarrow> Suc (length t))")
    (auto split: option.splits dest: strsep_shorter [OF sym])

declare list_scan.simps(2) [simp del]

definition match_list :: "string \<Rightarrow> string \<Rightarrow> string option \<times> nat" where
  "match_list client server =
     list_scan (length client) (take MAX_PROP (names CHR '','' (Some server))) (Some client)"

text \<open>It is the first name of the client that is among the first 40 of the server.\<close>

lemma list_scan_find:
  "fst (list_scan n sp cp) = find (\<lambda>p. p \<in> set sp) (names CHR '','' cp)"
  by (induction n sp cp rule: list_scan.induct) (auto simp: list_scan.simps(2) names.simps(2) Let_def split: prod.split)

lemma match_list_find:
  "fst (match_list client server) =
     find (\<lambda>p. p \<in> set (take MAX_PROP (names CHR '','' (Some server)))) (names CHR '','' (Some client))"
  by (simp add: match_list_def list_scan_find)

lemma find_Some_mem: "find P xs = Some x \<Longrightarrow> x \<in> set xs \<and> P x"
  by (auto simp: find_Some_iff)

lemma match_list_Some:
  assumes "fst (match_list client server) = Some n"
  shows "n \<in> set (names CHR '','' (Some client))" and "n \<in> set (names CHR '','' (Some server))" and "n \<noteq> []"
  using find_Some_mem [OF assms [unfolded match_list_find]] by (auto dest: in_set_takeD names_nonempty)

section \<open>Lists that were written down\<close>

type_synonym item = "bool \<times> string"

definition print_item :: "item \<Rightarrow> string" where
  "print_item = (\<lambda>(neg, p). if neg then CHR ''!'' # p else p)"

definition item_ok :: "item \<Rightarrow> bool" where
  "item_ok = (\<lambda>(neg, p). p \<noteq> [] \<and> hd p \<noteq> CHR ''!'' \<and> CHR '','' \<notin> set p \<and> length p < 1023 \<and> single_stars p)"

lemma tolower_fold: "(if True \<and> isupper c then tolower c else c) = tolower c"
  by (simp add: tolower_def)

lemma subpattern_item:
  assumes "CHR '','' \<notin> set p" and "length p < 1023"
  shows "subpattern True p = (map tolower p, [])" and "subpattern True (p @ CHR '','' # r) = (map tolower p, r)"
proof -
  have t: "takeWhile (\<lambda>c. c \<noteq> CHR '','') p = p" "takeWhile (\<lambda>c. c \<noteq> CHR '','') (p @ CHR '','' # r) = p"
    using assms(1) by (auto simp: takeWhile_tail)
  show "subpattern True p = (map tolower p, [])" "subpattern True (p @ CHR '','' # r) = (map tolower p, r)"
    unfolding subpattern_def t tolower_fold using assms(2) by (simp_all add: Let_def)
qed

lemma special_lower: "tolower c = CHR ''*'' \<longleftrightarrow> c = CHR ''*''"
proof -
  have "tolower c = CHR ''*'' \<Longrightarrow> \<not> isupper c"
    by (auto simp: tolower_def isupper_def dest!: arg_cong [where f = "of_char :: char \<Rightarrow> nat"])
  then show ?thesis by (auto simp: tolower_def isupper_def)
qed

lemma single_stars_lower: "single_stars (map tolower p) = single_stars p"
  by (induction p rule: single_stars.induct) (auto simp: special_lower)

lemma match_lower: "item_ok (neg, p) \<Longrightarrow> match_pattern s (map tolower p) \<longleftrightarrow> glob (map tolower p) s"
  using match_sound(1) match_complete single_stars_lower by (auto simp: item_ok_def)

lemma list_loop_last:
  assumes "item_ok (neg, p)"
  shows "list_loop s True got (print_item (neg, p)) =
    (if glob (map tolower p) s then if neg then -1 else 1 else if got then 1 else 0)"
proof -
  obtain c cs where p: "p = c # cs" "c \<noteq> CHR ''!''" using assms by (cases p) (auto simp: item_ok_def)
  have ok: "CHR '','' \<notin> set p" "length p < 1023" using assms by (auto simp: item_ok_def)
  note sub = subpattern_item(1) [OF ok]
  show ?thesis
    using sub p match_lower [OF assms, of s] ok
    by (cases neg) (simp_all add: print_item_def list_loop.simps(2) Let_def)
qed

lemma list_loop_item:
  assumes "item_ok (neg, p)"
  shows "list_loop s True got (print_item (neg, p) @ CHR '','' # r) =
    (if glob (map tolower p) s then if neg then -1 else list_loop s True True r else list_loop s True got r)"
proof -
  obtain c cs where p: "p = c # cs" "c \<noteq> CHR ''!''" using assms by (cases p) (auto simp: item_ok_def)
  have ok: "CHR '','' \<notin> set p" "length p < 1023" using assms by (auto simp: item_ok_def)
  note sub = subpattern_item(2) [OF ok, of r]
  show ?thesis
    using sub p match_lower [OF assms, of s] ok
    by (cases neg) (simp_all add: print_item_def list_loop.simps(2) Let_def)
qed

definition denied :: "item list \<Rightarrow> string \<Rightarrow> bool" where
  "denied items s \<longleftrightarrow> (\<exists>(neg, p) \<in> set items. neg \<and> glob (map tolower p) s)"

definition granted :: "item list \<Rightarrow> string \<Rightarrow> bool" where
  "granted items s \<longleftrightarrow> (\<exists>(neg, p) \<in> set items. \<not> neg \<and> glob (map tolower p) s)"

lemma list_loop_items:
  assumes "\<forall>i \<in> set items. item_ok i" and "items \<noteq> []"
  shows "list_loop s True got (join CHR '','' (map print_item items)) =
    (if denied items s then -1 else if got \<or> granted items s then 1 else 0)"
  using assms
proof (induction items arbitrary: got rule: induct_list012)
  case (2 i)
  obtain neg p where i: "i = (neg, p)" by fastforce
  with 2 have ok: "item_ok (neg, p)" by simp
  show ?case by (simp add: i list_loop_last [OF ok] denied_def granted_def)
next
  case (3 i j js)
  obtain neg p where i: "i = (neg, p)" by fastforce
  with 3 have ok: "item_ok (neg, p)" by simp
  have j: "join CHR '','' (map print_item (i # j # js)) = print_item (neg, p) @ CHR '','' # join CHR '','' (map print_item (j # js))"
    by (simp add: i)
  have IH: "list_loop s True g (join CHR '','' (map print_item (j # js))) =
      (if denied (j # js) s then -1 else if g \<or> granted (j # js) s then 1 else 0)" for g
    using 3 by simp
  have d: "denied (i # j # js) s \<longleftrightarrow> neg \<and> glob (map tolower p) s \<or> denied (j # js) s"
    "granted (i # j # js) s \<longleftrightarrow> \<not> neg \<and> glob (map tolower p) s \<or> granted (j # js) s"
    by (auto simp: denied_def granted_def i)
  show ?case unfolding j list_loop_item [OF ok] IH d by simp
qed simp

section \<open>Properties\<close>

text \<open>C6: Matching a host name against a list of patterns. For a list of patterns with the wildcards \<open>*\<close> and
  \<open>?\<close>, each possibly negated, without doubled asterisks and none too long, the answer does not depend on
  their order: a negated pattern that stands for the name denies it, otherwise a plain one that does
  grants it, and otherwise there is no match. Letters of the patterns are taken as lower case.\<close>

theorem host_list_decides:
  assumes "\<forall>i \<in> set items. item_ok i" and "items \<noteq> []" and "list = join CHR '','' (map print_item items)"
  shows "match_hostname host list (length list) = (if denied items host then -1 else if granted items host then 1 else 0)"
  using list_loop_items [OF assms(1,2), of host False] assms(3) by (simp add: match_hostname_def match_pattern_list_def)

lemma demo_glob: "glob ''*.example.org'' ''www.example.org''" "\<not> glob ''10.*'' ''www.example.org''"
proof -
  show "glob ''*.example.org'' ''www.example.org''" by (rule match_sound(1)) (simp add: match_pattern.simps(2))
  show "\<not> glob ''10.*'' ''www.example.org''" by (auto elim: glob_ConsE)
qed

theorem host_list_decides_witness:
  "match_hostname ''www.example.org'' ''!10.*,*.Example.org'' 19 = 1"
proof -
  let ?items = "[(True, ''10.*''), (False, ''*.Example.org'')]"
  have ok: "\<forall>i \<in> set ?items. item_ok i" by (simp add: item_ok_def)
  have l: "map tolower ''*.Example.org'' = ''*.example.org''" "map tolower ''10.*'' = ''10.*''"
    by (simp_all add: tolower_def isupper_def char_of_def bit_0)
  have "\<not> denied ?items ''www.example.org''" "granted ?items ''www.example.org''"
    using demo_glob l by (auto simp: denied_def granted_def)
  then show ?thesis using host_list_decides [OF ok _ refl, of "''www.example.org''"] by (simp add: print_item_def eval_nat_numeral)
qed

end
