(* ===== verification/AddrMatch.thy ===== *)
theory AddrMatch
  imports Match Inet
begin

text \<open>
  Matching of addresses against networks, in \<open>addrmatch.c\<close>, and of hosts and users against lists, the
  rest of \<open>match.c\<close>. The union of an address is its four words \<open>addr32\<close>, each as the number that is stored
  there in network byte order; version 4 uses the first. \<open>getaddrinfo\<close> with \<open>AI_NUMERICHOST\<close> is a
  parameter: the socket address of a text with its length, or no answer.
\<close>

unbundle bit_operations_syntax

section \<open>Addresses\<close>

record xaddr =
  xa_af :: int
  xa_addr :: "u32 list"
  xa_scope :: u32

datatype sockaddr = Sin u32 | Sin6 u32 u32 u32 u32 u32 | Sother

type_synonym resolver = "string \<Rightarrow> (sockaddr \<times> nat) option"

definition addr_unicast_masklen :: "int \<Rightarrow> int" where
  "addr_unicast_masklen af = (if af = AF_INET then 32 else if af = AF_INET6 then 128 else -1)"

definition masklen_valid :: "int \<Rightarrow> u32 \<Rightarrow> bool" where
  "masklen_valid af masklen \<longleftrightarrow>
     (if af = AF_INET then masklen \<le> 32 else if af = AF_INET6 then masklen \<le> 128 else False)"

definition addr_sa_to_xaddr :: "sockaddr \<Rightarrow> nat \<Rightarrow> xaddr option" where
  "addr_sa_to_xaddr sa slen =
     (case sa of
        Sin a \<Rightarrow> if slen < 16 then None else Some \<lparr>xa_af = AF_INET, xa_addr = [a, 0, 0, 0], xa_scope = 0\<rparr>
      | Sin6 a b c d scope \<Rightarrow> if slen < 28 then None else Some \<lparr>xa_af = AF_INET6, xa_addr = [a, b, c, d], xa_scope = scope\<rparr>
      | Sother \<Rightarrow> None)"

text \<open>The words of a mask of \<open>l\<close> bits.\<close>

definition mask_word :: "u32 \<Rightarrow> u32" where
  "mask_word l = push_bit (unat (32 - l)) 0xffffffff AND 0xffffffff"

fun mask_words :: "nat \<Rightarrow> u32 \<Rightarrow> u32 list" where
  "mask_words 0 l = []"
| "mask_words (Suc n) l =
     (if l \<ge> 32 then 0xffffffff # mask_words n (l - 32)
      else (if l \<noteq> 0 then mask_word l else 0) # replicate n 0)"

definition addr_netmask :: "int \<Rightarrow> u32 \<Rightarrow> xaddr option" where
  "addr_netmask af l =
     (if \<not> masklen_valid af l then None
      else if af = AF_INET then Some \<lparr>xa_af = AF_INET, xa_addr = [if l = 0 then 0 else mask_word l, 0, 0, 0], xa_scope = 0\<rparr>
      else if af = AF_INET6 then Some \<lparr>xa_af = AF_INET6, xa_addr = mask_words 4 l, xa_scope = 0\<rparr>
      else None)"

definition addr_and :: "xaddr \<Rightarrow> xaddr \<Rightarrow> xaddr option" where
  "addr_and a b =
     (if xa_af a \<noteq> xa_af b then None
      else if xa_af a = AF_INET then Some (a\<lparr>xa_addr := (xa_addr a)[0 := xa_addr a ! 0 AND xa_addr b ! 0]\<rparr>)
      else if xa_af a = AF_INET6 then Some (a\<lparr>xa_addr := map2 (AND) (xa_addr a) (xa_addr b)\<rparr>)
      else None)"

fun cmp_bytes :: "byte list \<Rightarrow> byte list \<Rightarrow> int" where
  "cmp_bytes (a # as) (b # bs) = (if a \<noteq> b then if a > b then 1 else -1 else cmp_bytes as bs)"
| "cmp_bytes as bs = 0"

definition addr_cmp :: "xaddr \<Rightarrow> xaddr \<Rightarrow> int" where
  "addr_cmp a b =
     (if xa_af a \<noteq> xa_af b then if xa_af a = AF_INET6 then 1 else -1
      else if xa_af a = AF_INET
      then if xa_addr a ! 0 = xa_addr b ! 0 then 0 else if xa_addr a ! 0 > xa_addr b ! 0 then 1 else -1
      else if xa_af a = AF_INET6
      then let r = cmp_bytes (concat (map put_u32 (xa_addr a))) (concat (map put_u32 (xa_addr b)))
           in if r \<noteq> 0 then r
              else if xa_scope a = xa_scope b then 0 else if xa_scope a > xa_scope b then 1 else -1
      else -1)"

definition addr_pton :: "resolver \<Rightarrow> string \<Rightarrow> xaddr option" where
  "addr_pton gai p = (case gai p of None \<Rightarrow> None | Some (sa, slen) \<Rightarrow> addr_sa_to_xaddr sa slen)"

definition addr_invert :: "xaddr \<Rightarrow> xaddr option" where
  "addr_invert n =
     (if xa_af n = AF_INET then Some (n\<lparr>xa_addr := (xa_addr n)[0 := NOT (xa_addr n ! 0)]\<rparr>)
      else if xa_af n = AF_INET6 then Some (n\<lparr>xa_addr := map NOT (xa_addr n)\<rparr>)
      else None)"

definition addr_hostmask :: "int \<Rightarrow> u32 \<Rightarrow> xaddr option" where
  "addr_hostmask af l = (case addr_netmask af l of None \<Rightarrow> None | Some n \<Rightarrow> addr_invert n)"

definition addr_is_all0s :: "xaddr \<Rightarrow> bool" where
  "addr_is_all0s a \<longleftrightarrow>
     (if xa_af a = AF_INET then xa_addr a ! 0 = 0
      else if xa_af a = AF_INET6 then \<forall>w \<in> set (xa_addr a). w = 0
      else False)"

definition addr_host_is_all0s :: "xaddr \<Rightarrow> u32 \<Rightarrow> bool" where
  "addr_host_is_all0s a masklen =
     (case addr_hostmask (xa_af a) masklen of
        None \<Rightarrow> False
      | Some m \<Rightarrow> (case addr_and a m of None \<Rightarrow> False | Some r \<Rightarrow> addr_is_all0s r))"

section \<open>Networks\<close>

text \<open>\<open>strtoul\<close> in base 10: the value and what follows it; without a digit nothing is consumed.\<close>

definition strtoul :: "string \<Rightarrow> nat \<times> string" where
  "strtoul s =
     (let isdig = (\<lambda>c. 48 \<le> (of_char c :: nat) \<and> of_char c \<le> (57 :: nat));
          t = dropWhile (\<lambda>c. c = CHR '' '' \<or> 9 \<le> (of_char c :: nat) \<and> of_char c \<le> (13 :: nat)) s;
          neg = (t \<noteq> [] \<and> hd t = CHR ''-'');
          u = (if t \<noteq> [] \<and> (hd t = CHR ''-'' \<or> hd t = CHR ''+'') then tl t else t);
          ds = takeWhile isdig u;
          v = foldl (\<lambda>n c. 10 * n + (of_char c - 48)) 0 ds
      in if ds = [] then (0, s)
         else (if v \<ge> 2 ^ 64 then 2 ^ 64 - 1 else if neg then (2 ^ 64 - v) mod 2 ^ 64 else v, dropWhile isdig u))"

text \<open>The codes are -1 for text that is no address and -2 for a mask that does not fit the address.\<close>

definition addr_pton_cidr :: "resolver \<Rightarrow> string \<Rightarrow> int + xaddr \<times> u32" where
  "addr_pton_cidr gai p =
     (if length p > 64 then Inl (-1)
      else
        let buf = take 63 p;
            host = takeWhile (\<lambda>c. c \<noteq> CHR ''/'') buf;
            mp = (if CHR ''/'' \<in> set buf then Some (tl (dropWhile (\<lambda>c. c \<noteq> CHR ''/'') buf)) else None)
        in case (case mp of
                   None \<Rightarrow> Some None
                 | Some m \<Rightarrow> let (masklen, cp) = strtoul m in if m = [] \<or> cp \<noteq> [] \<or> masklen > 128 then None else Some (Some masklen)) of
             None \<Rightarrow> Inl (-1)
           | Some given \<Rightarrow>
               case addr_pton gai host of
                 None \<Rightarrow> Inl (-1)
               | Some tmp \<Rightarrow>
                   let masklen = (case given of None \<Rightarrow> word_of_int (addr_unicast_masklen (xa_af tmp)) | Some n \<Rightarrow> of_nat n)
                   in if \<not> masklen_valid (xa_af tmp) masklen then Inl (-2)
                      else if \<not> addr_host_is_all0s tmp masklen then Inl (-2)
                      else Inr (tmp, masklen))"

definition addr_netmatch :: "xaddr \<Rightarrow> xaddr \<Rightarrow> u32 \<Rightarrow> int" where
  "addr_netmatch host net masklen =
     (if xa_af host \<noteq> xa_af net then -1
      else case addr_netmask (xa_af host) masklen of
             None \<Rightarrow> -1
           | Some m \<Rightarrow> (case addr_and host m of None \<Rightarrow> -1 | Some r \<Rightarrow> addr_cmp r net))"

section \<open>Lists of networks\<close>

text \<open>
  The loops over \<open>strsep\<close>; \<open>try\<close> is the address to match, if there is one. The first argument of the
  second loop is the return value so far.
\<close>

function addr_list_loop :: "resolver \<Rightarrow> (string \<times> xaddr) option \<Rightarrow> int \<Rightarrow> string option \<Rightarrow> int" where
  "addr_list_loop gai try ret None = ret"
| "addr_list_loop gai try ret (Some l) =
     (let (cp, rest) = strsep CHR '','' l;
          neg = (cp \<noteq> [] \<and> hd cp = CHR ''!'');
          cp = (if neg then tl cp else cp)
      in if cp = [] then -2
         else case addr_pton_cidr gai cp of
                Inl r \<Rightarrow>
                  if r = -2 then -2
                  else if (case try of None \<Rightarrow> False | Some (addr, a) \<Rightarrow> match_pattern addr cp)
                  then if neg then -1 else addr_list_loop gai try 1 rest
                  else addr_list_loop gai try ret rest
              | Inr (net, masklen) \<Rightarrow>
                  if (case try of None \<Rightarrow> False | Some (addr, a) \<Rightarrow> addr_netmatch a net masklen = 0)
                  then if neg then -1 else addr_list_loop gai try 1 rest
                  else addr_list_loop gai try ret rest)"
  by pat_completeness auto
termination
  by (relation "measure (\<lambda>(g, t, r, l). case l of None \<Rightarrow> 0 | Some t \<Rightarrow> Suc (length t))")
    (auto split: option.splits dest: strsep_shorter [OF sym])

definition addr_match_list :: "resolver \<Rightarrow> string option \<Rightarrow> string \<Rightarrow> int" where
  "addr_match_list gai addr list =
     (case addr of
        None \<Rightarrow> addr_list_loop gai None 0 (Some list)
      | Some a \<Rightarrow> (case addr_pton gai a of None \<Rightarrow> 0 | Some x \<Rightarrow> addr_list_loop gai (Some (a, x)) 0 (Some list)))"

abbreviation VALID_CIDR_CHARS :: string where "VALID_CIDR_CHARS \<equiv> ''0123456789abcdefABCDEF.:/''"

function cidr_list_loop :: "resolver \<Rightarrow> xaddr option \<Rightarrow> int \<Rightarrow> string option \<Rightarrow> int" where
  "cidr_list_loop gai try ret None = ret"
| "cidr_list_loop gai try ret (Some l) =
     (let (cp, rest) = strsep CHR '','' l
      in if cp = [] then -1
         else if length cp > INET6_ADDRSTRLEN + 3 then -1
         else
           let ret = (if set cp \<subseteq> set VALID_CIDR_CHARS then ret else -1)
           in case addr_pton_cidr gai cp of
                Inl r \<Rightarrow> -1
              | Inr (net, masklen) \<Rightarrow>
                  cidr_list_loop gai try
                    (case try of None \<Rightarrow> ret | Some a \<Rightarrow> if addr_netmatch a net masklen = 0 then 1 else ret) rest)"
  by pat_completeness auto
termination
  by (relation "measure (\<lambda>(g, t, r, l). case l of None \<Rightarrow> 0 | Some t \<Rightarrow> Suc (length t))")
    (auto split: option.splits dest: strsep_shorter [OF sym])

definition addr_match_cidr_list :: "resolver \<Rightarrow> string option \<Rightarrow> string \<Rightarrow> int" where
  "addr_match_cidr_list gai addr list =
     (case addr of
        None \<Rightarrow> cidr_list_loop gai None 0 (Some list)
      | Some a \<Rightarrow> (case addr_pton gai a of None \<Rightarrow> 0 | Some x \<Rightarrow> cidr_list_loop gai (Some x) 0 (Some list)))"

section \<open>Hosts and users\<close>

definition match_host_and_ip :: "resolver \<Rightarrow> string \<Rightarrow> string \<Rightarrow> string \<Rightarrow> int" where
  "match_host_and_ip gai host ipaddr patterns =
     (let mip = addr_match_list gai (Some ipaddr) patterns in
      if mip = -2 then -1 else if mip = -1 then 0
      else let mhost = match_hostname host patterns (length patterns) in
           if mhost = -1 then 0 else if mhost = 0 \<and> mip = 0 then 0 else 1)"

definition match_user :: "resolver \<Rightarrow> string \<Rightarrow> string \<Rightarrow> string \<Rightarrow> string \<Rightarrow> int" where
  "match_user gai user host ipaddr pattern =
     (case strsep CHR ''@'' pattern of
        (pat, None) \<Rightarrow> if match_pattern user pat then 1 else 0
      | (pat, Some p) \<Rightarrow> if match_pattern user pat then match_host_and_ip gai host ipaddr p else 0)"

section \<open>Prefixes\<close>

text \<open>The \<open>k\<close>-th bit of an address, from the front.\<close>

definition addr_bit :: "xaddr \<Rightarrow> nat \<Rightarrow> bool" where
  "addr_bit a k = bit (xa_addr a ! (k div 32)) (31 - k mod 32)"

lemma bit_mask_word:
  assumes "0 < l" "l < 32" "j < 32"
  shows "bit (mask_word l) j \<longleftrightarrow> 31 - j < unat l"
proof -
  have ones: "(0xffffffff :: u32) = mask 32" by (simp add: mask_eq_exp_minus_1)
  have s: "unat (32 - l) = 32 - unat l" using assms by (subst unat_sub) (auto simp: word_le_nat_alt word_less_nat_alt)
  have "unat l \<noteq> 0" "unat l < 32" using assms by (auto simp: word_less_nat_alt)
  then show ?thesis using assms(3) unfolding mask_word_def s ones by (auto simp: bit_simps)
qed

lemma length_mask_words [simp]: "length (mask_words n l) = n"
  by (induction n l rule: mask_words.induct) auto

lemma bit_mask_words:
  "i < n \<Longrightarrow> j < 32 \<Longrightarrow> bit (mask_words n l ! i) j \<longleftrightarrow> 32 * i + (31 - j) < unat l"
proof (induction n l arbitrary: i rule: mask_words.induct)
  case (2 n l)
  have "(0xffffffff :: u32) = mask 32" by (simp add: mask_eq_exp_minus_1)
  then have ones: "bit (0xffffffff :: u32) j" using 2(3) by (simp only: bit_mask_iff) simp
  show ?case
  proof (cases "l \<ge> 32")
    case True
    then have u: "unat (l - 32) = unat l - 32" "unat l \<ge> 32" by (simp_all add: unat_sub word_le_nat_alt)
    show ?thesis using 2 True u ones by (cases i) (auto simp: bit_simps)
  next
    case False
    then have l: "unat l < 32" by (simp add: word_le_nat_alt)
    have e: "mask_words (Suc n) l = (if l \<noteq> 0 then mask_word l else 0) # replicate n 0" using False by simp
    have "unat l \<noteq> 0" if "l \<noteq> 0" using that by (simp add: unat_eq_0)
    then show ?thesis unfolding e using 2(2,3) l bit_mask_word [of l j]
      by (cases i; cases "l = 0") (auto simp: word_less_nat_alt)
  qed
qed simp

lemma cmp_bytes_eq: "length a = length b \<Longrightarrow> cmp_bytes a b = 0 \<longleftrightarrow> a = b"
  by (induction a b rule: cmp_bytes.induct) auto

lemma put_u32_inj: "put_u32 a = put_u32 b \<longleftrightarrow> a = b"
  by (metis get_put_u32_Nil)

lemma words_inj: "length a = length b \<Longrightarrow> concat (map put_u32 a) = concat (map put_u32 b) \<longleftrightarrow> a = b"
  by (induction a b rule: list_induct2) (auto simp: put_u32_inj append_eq_append_conv)

lemma length_words: "length (concat (map put_u32 a)) = 4 * length a"
  by (induction a) auto

text \<open>What an address is like that was parsed.\<close>

definition xaddr_ok :: "xaddr \<Rightarrow> bool" where
  "xaddr_ok a \<longleftrightarrow> length (xa_addr a) = 4 \<and> (xa_af a = AF_INET \<and> xa_scope a = 0 \<or> xa_af a = AF_INET6)"

lemma pton_ok: "addr_pton gai p = Some a \<Longrightarrow> xaddr_ok a"
  by (auto simp: addr_pton_def addr_sa_to_xaddr_def xaddr_ok_def split: option.splits sockaddr.splits if_splits)

text \<open>A word agrees with a network in the bits of the mask.\<close>

lemma masked_eq:
  fixes x :: u32
  assumes "n AND NOT m = 0"
  shows "x AND m = n \<longleftrightarrow> (\<forall>j < 32. bit m j \<longrightarrow> bit x j = bit n j)"
proof -
  have z: "bit n j \<Longrightarrow> j < 32 \<Longrightarrow> bit m j" for j
    using arg_cong [OF assms, of "\<lambda>w. bit w j"] by (auto simp: bit_simps)
  show ?thesis
  proof
    assume e: "x AND m = n"
    show "\<forall>j < 32. bit m j \<longrightarrow> bit x j = bit n j" using e by (auto simp: bit_simps)
  next
    assume "\<forall>j < 32. bit m j \<longrightarrow> bit x j = bit n j"
    then show "x AND m = n" using z by (intro bit_word_eqI) (auto simp: bit_simps)
  qed
qed

lemma prefix_words:
  assumes "\<forall>i < k. \<forall>j < 32. bit (m ! i) j \<longleftrightarrow> 32 * i + (31 - j) < l" and "l \<le> 32 * k"
  shows "(\<forall>i < k. \<forall>j < 32. bit (m ! i) j \<longrightarrow> bit (x ! i) j = bit (n ! i) j) \<longleftrightarrow>
    (\<forall>b < l. bit (x ! (b div 32)) (31 - b mod 32) = bit (n ! (b div 32)) (31 - b mod 32))"
proof
  assume a: "\<forall>i < k. \<forall>j < 32. bit (m ! i) j \<longrightarrow> bit (x ! i) j = bit (n ! i) j"
  show "\<forall>b < l. bit (x ! (b div 32)) (31 - b mod 32) = bit (n ! (b div 32)) (31 - b mod 32)"
  proof (intro allI impI)
    fix b assume b: "b < l"
    have "b div 32 < k" using b assms(2) by (simp add: div_less_iff_less_mult)
    moreover have "32 * (b div 32) + (31 - (31 - b mod 32)) = b"
    proof -
      have "b mod 32 < 32" by simp
      then have "31 - (31 - b mod 32) = b mod 32" by linarith
      then show ?thesis by simp
    qed
    ultimately show "bit (x ! (b div 32)) (31 - b mod 32) = bit (n ! (b div 32)) (31 - b mod 32)"
      using a assms(1) b by auto
  qed
next
  assume a: "\<forall>b < l. bit (x ! (b div 32)) (31 - b mod 32) = bit (n ! (b div 32)) (31 - b mod 32)"
  show "\<forall>i < k. \<forall>j < 32. bit (m ! i) j \<longrightarrow> bit (x ! i) j = bit (n ! i) j"
  proof (intro allI impI)
    fix i j :: nat assume i: "i < k" "j < 32" "bit (m ! i) j"
    then have "32 * i + (31 - j) < l" using assms(1) by blast
    with a have "bit (x ! ((32 * i + (31 - j)) div 32)) (31 - (32 * i + (31 - j)) mod 32) =
        bit (n ! ((32 * i + (31 - j)) div 32)) (31 - (32 * i + (31 - j)) mod 32)" by blast
    moreover have "(32 * i + r) div 32 = i" "(32 * i + r) mod 32 = r" if "r < 32" for r :: nat using that by simp_all
    from this [of "31 - j"] have "(32 * i + (31 - j)) div 32 = i" "(32 * i + (31 - j)) mod 32 = 31 - j" by auto
    moreover have "31 - (31 - j) = j" using i(2) by simp
    ultimately show "bit (x ! i) j = bit (n ! i) j" by simp
  qed
qed

lemma pton_cidr_facts:
  assumes "addr_pton_cidr gai p = Inr (net, l)"
  shows "xaddr_ok net" and "masklen_valid (xa_af net) l" and "addr_host_is_all0s net l"
proof -
  obtain host where "addr_pton gai host = Some net" and rest: "masklen_valid (xa_af net) l" "addr_host_is_all0s net l"
    using assms by (auto simp: addr_pton_cidr_def Let_def split: if_splits option.splits prod.splits)
  then show "xaddr_ok net" using pton_ok by blast
  show "masklen_valid (xa_af net) l" "addr_host_is_all0s net l" by (fact rest)+
qed

lemma mask_first: "l \<le> 32 \<Longrightarrow> (if l = 0 then 0 else mask_word l) = mask_words (Suc 0) l ! 0"
proof -
  assume "l \<le> 32"
  then consider "l = 32" | "l < 32" by fastforce
  then show ?thesis by cases (auto simp: mask_word_def not_le)
qed

lemma netmatch_v4:
  assumes "xaddr_ok x" "xaddr_ok net" and af: "xa_af x = AF_INET" "xa_af net = AF_INET"
    and l: "masklen_valid (xa_af net) l" and z: "addr_host_is_all0s net l"
  shows "addr_netmatch x net l = 0 \<longleftrightarrow> (\<forall>k < unat l. addr_bit x k = addr_bit net k)"
proof -
  let ?m = "mask_words (Suc 0) l"
  have len: "length (xa_addr x) = 4" "length (xa_addr net) = 4" using assms(1,2) by (auto simp: xaddr_ok_def)
  have lw: "l \<le> 32" using l af by (simp add: masklen_valid_def)
  have mask: "addr_netmask AF_INET l = Some \<lparr>xa_af = AF_INET, xa_addr = [?m ! 0, 0, 0, 0], xa_scope = 0\<rparr>"
    using lw mask_first [OF lw] by (simp add: addr_netmask_def masklen_valid_def del: mask_words.simps)
  have m: "\<forall>i < Suc 0. \<forall>j < 32. bit (?m ! i) j \<longleftrightarrow> 32 * i + (31 - j) < unat l" using bit_mask_words by blast
  have host: "xa_addr net ! 0 AND NOT (?m ! 0) = 0"
    using z af len by (simp add: addr_host_is_all0s_def addr_hostmask_def mask addr_invert_def addr_and_def addr_is_all0s_def del: mask_words.simps)
  have "addr_netmatch x net l = 0 \<longleftrightarrow> xa_addr x ! 0 AND ?m ! 0 = xa_addr net ! 0"
    using af len by (simp add: addr_netmatch_def mask addr_and_def addr_cmp_def del: mask_words.simps)
  also have "\<dots> \<longleftrightarrow> (\<forall>i < Suc 0. \<forall>j < 32. bit (?m ! i) j \<longrightarrow> bit (xa_addr x ! i) j = bit (xa_addr net ! i) j)"
    using masked_eq [OF host, of "xa_addr x ! 0"] by (simp del: mask_words.simps)
  also have "\<dots> \<longleftrightarrow> (\<forall>k < unat l. addr_bit x k = addr_bit net k)"
    unfolding addr_bit_def using m lw by (intro prefix_words) (simp_all add: word_le_nat_alt del: mask_words.simps)
  finally show ?thesis .
qed

lemma cmp_words: "length a = length b \<Longrightarrow> cmp_bytes (concat (map put_u32 a)) (concat (map put_u32 b)) = 0 \<longleftrightarrow> a = b"
  using cmp_bytes_eq [of "concat (map put_u32 a)" "concat (map put_u32 b)"] words_inj [of a b] by (simp add: length_words)

lemma netmatch_v6:
  assumes "xaddr_ok x" "xaddr_ok net" and af: "xa_af x = AF_INET6" "xa_af net = AF_INET6"
    and l: "masklen_valid (xa_af net) l" and z: "addr_host_is_all0s net l"
  shows "addr_netmatch x net l = 0 \<longleftrightarrow> xa_scope x = xa_scope net \<and> (\<forall>k < unat l. addr_bit x k = addr_bit net k)"
proof -
  let ?m = "mask_words 4 l"
  have len: "length (xa_addr x) = 4" "length (xa_addr net) = 4" using assms(1,2) by (auto simp: xaddr_ok_def)
  have lw: "l \<le> 128" using l af by (simp add: masklen_valid_def)
  have mask: "addr_netmask AF_INET6 l = Some \<lparr>xa_af = AF_INET6, xa_addr = ?m, xa_scope = 0\<rparr>"
    using lw by (simp add: addr_netmask_def masklen_valid_def)
  have m: "\<forall>i < 4. \<forall>j < 32. bit (?m ! i) j \<longleftrightarrow> 32 * i + (31 - j) < unat l" using bit_mask_words by blast
  have "\<forall>w \<in> set (map2 (AND) (xa_addr net) (map NOT ?m)). w = 0"
    using z af by (simp add: addr_host_is_all0s_def addr_hostmask_def mask addr_invert_def addr_and_def addr_is_all0s_def)
  then have host: "xa_addr net ! i AND NOT (?m ! i) = 0" if "i < 4" for i
    using that len by (auto simp: set_conv_nth)
  have "addr_netmatch x net l = 0 \<longleftrightarrow> map2 (AND) (xa_addr x) ?m = xa_addr net \<and> xa_scope x = xa_scope net"
    using af len cmp_words [of "map2 (AND) (xa_addr x) ?m" "xa_addr net"]
    by (simp add: addr_netmatch_def mask addr_and_def addr_cmp_def Let_def del: map_map)
  also have "map2 (AND) (xa_addr x) ?m = xa_addr net \<longleftrightarrow> (\<forall>i < 4. xa_addr x ! i AND ?m ! i = xa_addr net ! i)"
    using len by (auto simp: list_eq_iff_nth_eq)
  also have "\<dots> \<longleftrightarrow> (\<forall>i < 4. \<forall>j < 32. bit (?m ! i) j \<longrightarrow> bit (xa_addr x ! i) j = bit (xa_addr net ! i) j)"
    using masked_eq [OF host] by blast
  also have "\<dots> \<longleftrightarrow> (\<forall>k < unat l. addr_bit x k = addr_bit net k)"
    unfolding addr_bit_def using m lw by (intro prefix_words) (simp_all add: word_le_nat_alt)
  finally show ?thesis by blast
qed

section \<open>Properties\<close>

text \<open>C5: An address is in a network exactly when it starts with the network's prefix: for a network that
  \<open>addr_pton_cidr\<close> accepts and any address that could be parsed, \<open>addr_netmatch\<close> reports a match if and
  only if both are of the same version, have the same scope and agree in the first bits, as many as the
  mask has.\<close>

theorem cidr_match_is_prefix:
  assumes "addr_pton_cidr gai p = Inr (net, l)" and "addr_pton gai h = Some x"
  shows "addr_netmatch x net l = 0 \<longleftrightarrow>
    xa_af x = xa_af net \<and> xa_scope x = xa_scope net \<and> (\<forall>k < unat l. addr_bit x k = addr_bit net k)"
proof -
  note f = pton_cidr_facts [OF assms(1)] and x = pton_ok [OF assms(2)]
  show ?thesis
  proof (cases "xa_af x = xa_af net")
    case False
    then show ?thesis by (simp add: addr_netmatch_def)
  next
    case True
    then consider "xa_af x = AF_INET" "xa_af net = AF_INET" | "xa_af x = AF_INET6" "xa_af net = AF_INET6"
      using f(1) by (auto simp: xaddr_ok_def)
    then show ?thesis
    proof cases
      case 1
      then show ?thesis using netmatch_v4 [OF x f(1) 1 f(2,3)] x f(1) by (auto simp: xaddr_ok_def)
    next
      case 2
      then show ?thesis using netmatch_v6 [OF x f(1) 2 f(2,3)] by simp
    qed
  qed
qed

definition demo_resolver :: resolver where
  "demo_resolver p = (if p = ''10.0.0.0'' then Some (Sin 0x0a000000, 16) else if p = ''10.1.2.3'' then Some (Sin 0x0a010203, 16) else None)"

lemma demo_network:
  "addr_pton_cidr demo_resolver ''10.0.0.0/8'' = Inr (\<lparr>xa_af = AF_INET, xa_addr = [0x0a000000, 0, 0, 0], xa_scope = 0\<rparr>, 8)"
  by (simp add: addr_pton_cidr_def Let_def strtoul_def addr_pton_def demo_resolver_def addr_sa_to_xaddr_def masklen_valid_def
      addr_host_is_all0s_def addr_hostmask_def addr_netmask_def addr_invert_def addr_and_def addr_is_all0s_def mask_word_def)

theorem cidr_match_is_prefix_witness:
  "map (addr_bit \<lparr>xa_af = AF_INET, xa_addr = [0x0a010203, 0, 0, 0], xa_scope = 0\<rparr>) [0..<8] =
   map (addr_bit \<lparr>xa_af = AF_INET, xa_addr = [0x0a000000, 0, 0, 0], xa_scope = 0\<rparr>) [0..<8]"
proof -
  let ?x = "\<lparr>xa_af = AF_INET, xa_addr = [0x0a010203, 0, 0, 0], xa_scope = 0\<rparr>"
  let ?n = "\<lparr>xa_af = AF_INET, xa_addr = [0x0a000000, 0, 0, 0], xa_scope = 0\<rparr>"
  have "addr_pton demo_resolver ''10.1.2.3'' = Some ?x" by (simp add: addr_pton_def demo_resolver_def addr_sa_to_xaddr_def)
  from cidr_match_is_prefix [OF demo_network this] have "\<forall>k < 8. addr_bit ?x k = addr_bit ?n k"
    by (simp add: addr_netmatch_def addr_netmask_def masklen_valid_def addr_and_def addr_cmp_def mask_word_def)
  then show ?thesis by (simp del: upt_rec_numeral)
qed

text \<open>A list entry with a character that no address has is an error, but the error is forgotten when a
  later entry matches: the loop over the list goes on.\<close>

lemma invalid_entry_forgotten:
  "\<exists>gai. \<not> set ''10.0.0.0%x'' \<subseteq> set VALID_CIDR_CHARS \<and>
     addr_match_cidr_list gai (Some ''10.1.2.3'') ''10.0.0.0%x'' = -1 \<and>
     addr_match_cidr_list gai (Some ''10.1.2.3'') ''10.0.0.0%x,10.1.2.3'' = 1"
proof -
  let ?g = "\<lambda>p. if p = ''10.0.0.0%x'' then Some (Sin 0x0a000000, 16) else Some (Sin 0x0a010203, 16)"
  show ?thesis
    by (intro exI [of _ ?g])
      (simp add: addr_match_cidr_list_def addr_pton_cidr_def Let_def addr_pton_def addr_sa_to_xaddr_def masklen_valid_def
        addr_host_is_all0s_def addr_hostmask_def addr_netmask_def addr_invert_def addr_and_def addr_is_all0s_def mask_word_def
        addr_unicast_masklen_def addr_netmatch_def addr_cmp_def)
qed

end
