(* ===== verification/Bufbn.thy ===== *)
theory Bufbn
  imports Bufaux
begin

text \<open>
  Big numbers in buffers, \<open>bufbn.c\<close>. The numbers and their arithmetic are OpenSSL's: what the code uses of
  them is the parameter \<open>bn_lib\<close> over a type of numbers, and \<open>bn_laws\<close> is what their documentation says.
\<close>

record 'b bn_lib =
  bn_num_bits :: "'b \<Rightarrow> int"
  bn_bn2bin :: "'b \<Rightarrow> byte list"
  bn_bin2bn :: "byte list \<Rightarrow> 'b option"
  bn_is_zero :: "'b \<Rightarrow> bool"
  bn_neg :: "'b \<Rightarrow> bool"

section \<open>Protocol 1\<close>

text \<open>The result tells whether it worked; the text is what \<open>xmalloc\<close> says of a size of zero.\<close>

definition buffer_put_bignum_ret :: "'b bn_lib \<Rightarrow> buffer \<Rightarrow> 'b \<Rightarrow> (bool \<times> buffer) result" where
  "buffer_put_bignum_ret N b value =
     (let bits = bn_num_bits N value;
          bin_size = (bits + 7) div 8;
          buf = bn_bn2bin N value
      in if bin_size = 0 then Inl (Fatal ''xmalloc: zero size'')
         else if int (length buf) \<noteq> bin_size then Inr (False, b)
         else rbind (buffer_append b (put_u16 (word_of_int bits)) 2) (\<lambda>b.
              rbind (buffer_append b buf (of_nat (length buf))) (\<lambda>b. Inr (True, b))))"

definition buffer_put_bignum :: "'b bn_lib \<Rightarrow> buffer \<Rightarrow> 'b \<Rightarrow> buffer result" where
  "buffer_put_bignum N b value =
     rbind (buffer_put_bignum_ret N b value) (\<lambda>(ok, b). if ok then Inr b else Inl (Fatal ''buffer_put_bignum: buffer error''))"

text \<open>The bits are gone from the buffer when something later fails.\<close>

definition buffer_get_bignum_ret :: "'b bn_lib \<Rightarrow> buffer \<Rightarrow> 'b option \<times> buffer" where
  "buffer_get_bignum_ret N b =
     (case buffer_get_ret b 2 of
        None \<Rightarrow> (None, b)
      | Some (buf, b) \<Rightarrow>
          let bytes = (ucast (get_u16 buf) + 7) div 8 :: u32 in
          if bytes > 8 * 1024 then (None, b)
          else if buffer_len b < bytes then (None, b)
          else case bn_bin2bn N (take (unat bytes) (buffer_ptr b)) of
                 None \<Rightarrow> (None, b)
               | Some v \<Rightarrow> (case buffer_consume_ret b bytes of None \<Rightarrow> (None, b) | Some b \<Rightarrow> (Some v, b)))"

definition buffer_get_bignum :: "'b bn_lib \<Rightarrow> buffer \<Rightarrow> ('b \<times> buffer) result" where
  "buffer_get_bignum N b =
     (case buffer_get_bignum_ret N b of (None, _) \<Rightarrow> Inl (Fatal ''buffer_get_bignum: buffer error'') | (Some v, b) \<Rightarrow> Inr (v, b))"

section \<open>Protocol 2\<close>

definition buffer_put_bignum2_ret :: "'b bn_lib \<Rightarrow> buffer \<Rightarrow> 'b \<Rightarrow> (bool \<times> buffer) result" where
  "buffer_put_bignum2_ret N b value =
     (if bn_is_zero N value then rbind (buffer_put_int b 0) (\<lambda>b. Inr (True, b))
      else if bn_neg N value then Inr (False, b)
      else
        let bytes = (bn_num_bits N value + 7) div 8 + 1;
            bin = bn_bn2bin N value
        in if bytes < 2 then Inr (False, b)
           else if int (length bin) \<noteq> bytes - 1 then Inr (False, b)
           else let buf = 0 # bin; hasnohigh = (if bit (hd bin) 7 then 0 else 1 :: nat)
                in rbind (buffer_put_string b (drop hasnohigh buf) (word_of_int bytes - of_nat hasnohigh)) (\<lambda>b. Inr (True, b)))"

definition buffer_put_bignum2 :: "'b bn_lib \<Rightarrow> buffer \<Rightarrow> 'b \<Rightarrow> buffer result" where
  "buffer_put_bignum2 N b value =
     rbind (buffer_put_bignum2_ret N b value) (\<lambda>(ok, b). if ok then Inr b else Inl (Fatal ''buffer_put_bignum2: buffer error''))"

definition buffer_get_bignum2_ret :: "'b bn_lib \<Rightarrow> buffer \<Rightarrow> 'b option \<times> buffer" where
  "buffer_get_bignum2_ret N b =
     (case buffer_get_string_ret b of
        (None, b) \<Rightarrow> (None, b)
      | (Some bin, b) \<Rightarrow>
          if bin \<noteq> [] \<and> bit (hd bin) 7 then (None, b)
          else if length bin > 8 * 1024 then (None, b)
          else (bn_bin2bn N bin, b))"

definition buffer_get_bignum2 :: "'b bn_lib \<Rightarrow> buffer \<Rightarrow> ('b \<times> buffer) result" where
  "buffer_get_bignum2 N b =
     (case buffer_get_bignum2_ret N b of (None, _) \<Rightarrow> Inl (Fatal ''buffer_get_bignum2: buffer error'') | (Some v, b) \<Rightarrow> Inr (v, b))"

section \<open>Round trip\<close>

definition bn_laws :: "'b bn_lib \<Rightarrow> bool" where
  "bn_laws N \<longleftrightarrow>
     (\<forall>v. bn_is_zero N v \<longleftrightarrow> bn_bn2bin N v = []) \<and>
     (\<forall>v. int (length (bn_bn2bin N v)) = (bn_num_bits N v + 7) div 8) \<and>
     (\<forall>v. \<not> bn_neg N v \<longrightarrow> bn_bin2bn N (bn_bn2bin N v) = Some v) \<and>
     (\<forall>bs. bn_bin2bn N (0 # bs) = bn_bin2bn N bs)"

definition mpint :: "byte list \<Rightarrow> byte list" where
  "mpint bin = (if bin \<noteq> [] \<and> bit (hd bin) 7 then 0 # bin else bin)"

text \<open>A number that is not negative is stored as a string of its bytes, after a zero byte if it would look
  negative otherwise, and read back from there.\<close>

lemma put_bignum2_spec:
  assumes laws: "bn_laws N" and ok: "buffer_ok b" and v: "\<not> bn_neg N v" "length (bn_bn2bin N v) < 8 * 1024"
    and p: "buffer_put_bignum2 N b v = Inr b'"
  shows "buffer_ok b' \<and> buffer_contents b' = buffer_contents b @ string_enc (mpint (bn_bn2bin N v))"
proof -
  let ?bin = "bn_bn2bin N v"
  have bits: "int (length ?bin) = (bn_num_bits N v + 7) div 8" using laws by (simp add: bn_laws_def)
  show ?thesis
  proof (cases "?bin = []")
    case True
    then have "bn_is_zero N v" using laws by (simp add: bn_laws_def)
    then have "buffer_put_int b 0 = Inr b'" using p by (auto simp: buffer_put_bignum2_def buffer_put_bignum2_ret_def)
    from int32.put_law [OF ok _ this] True show ?thesis by (simp add: mpint_def string_enc_def)
  next
    case False
    let ?n = "if bit (hd ?bin) 7 then 0 else 1 :: nat"
    have nz: "\<not> bn_is_zero N v" using laws False by (simp add: bn_laws_def)
    have s: "drop ?n (0 # ?bin) = mpint ?bin" using False by (simp add: mpint_def)
    have l: "word_of_int ((bn_num_bits N v + 7) div 8 + 1) - of_nat ?n = (of_nat (length (mpint ?bin)) :: u32)"
      using False unfolding bits [symmetric] by (auto simp: mpint_def)
    have "buffer_put_string b (drop ?n (0 # ?bin)) (word_of_int ((bn_num_bits N v + 7) div 8 + 1) - of_nat ?n) = Inr b'"
      using p nz v(1) False unfolding buffer_put_bignum2_def buffer_put_bignum2_ret_def bits [symmetric] Let_def
      by (auto simp: rbind_eq_Inr)
    then have "buffer_put_string b (mpint ?bin) (of_nat (length (mpint ?bin))) = Inr b'" unfolding s l .
    moreover have "string_len_ok (mpint ?bin)" using v(2) by (simp add: string_len_ok_def mpint_def)
    ultimately show ?thesis using str.put_law [OF ok] by blast
  qed
qed

lemma get_bignum2_front:
  assumes laws: "bn_laws N" and ok: "buffer_ok b" and v: "\<not> bn_neg N v" "length (bn_bn2bin N v) < 8 * 1024"
    and c: "buffer_contents b = string_enc (mpint (bn_bn2bin N v)) @ r"
  shows "\<exists>b'. buffer_get_bignum2 N b = Inr (v, b') \<and> buffer_ok b' \<and> buffer_contents b' = r"
proof -
  let ?s = "mpint (bn_bn2bin N v)"
  have "string_len_ok ?s" using v(2) by (simp add: string_len_ok_def mpint_def)
  from string_ret_front [OF ok this c] obtain b' where
    b': "buffer_get_string_ret b = (Some ?s, b')" "buffer_ok b'" "buffer_contents b' = r" by blast
  have "\<not> (?s \<noteq> [] \<and> bit (hd ?s) 7)" by (simp add: mpint_def)
  moreover have "\<not> length ?s > 8 * 1024" using v(2) by (simp add: mpint_def)
  moreover have "bn_bin2bn N ?s = Some v" using laws v(1) by (simp add: bn_laws_def mpint_def)
  ultimately show ?thesis using b' by (simp add: buffer_get_bignum2_def buffer_get_bignum2_ret_def)
qed

end
