(* ===== verification/Dispatch.thy ===== *)
theory Dispatch
  imports PacketWrite
begin

text \<open>
  The table of message handlers, \<open>dispatch.c\<close>. A handler is a value of a type of names; what a handler of
  another file does is a parameter of \<open>dispatch_run\<close>. An entry without a handler is \<open>None\<close>.
\<close>

abbreviation DISPATCH_MAX :: nat where "DISPATCH_MAX \<equiv> 255"

type_synonym 'f dispatch_table = "'f option list"

definition dispatch_init :: "'f option \<Rightarrow> 'f dispatch_table" where
  "dispatch_init dflt = replicate DISPATCH_MAX dflt"

lemma unat_step: "\<not> unat (i :: u32) \<ge> DISPATCH_MAX \<Longrightarrow> unat (i + 1) = Suc (unat i)"
  using unat_add_small [of i 1] by simp

function range_loop :: "u32 \<Rightarrow> u32 \<Rightarrow> 'f option \<Rightarrow> 'f dispatch_table \<Rightarrow> 'f dispatch_table" where
  "range_loop i to fn t =
     (if i \<le> to then if unat i \<ge> DISPATCH_MAX then t else range_loop (i + 1) to fn (t[unat i := fn]) else t)"
  by pat_completeness auto
termination
proof (relation "measure (\<lambda>(i, _). DISPATCH_MAX - unat i)", goal_cases)
  case (2 i to fn t)
  then show ?case by (simp add: unat_step)
qed simp

declare range_loop.simps [simp del]

definition dispatch_range :: "u32 \<Rightarrow> u32 \<Rightarrow> 'f option \<Rightarrow> 'f dispatch_table \<Rightarrow> 'f dispatch_table" where
  "dispatch_range from to fn t = range_loop from to fn t"

definition dispatch_set :: "int \<Rightarrow> 'f option \<Rightarrow> 'f dispatch_table \<Rightarrow> 'f dispatch_table result" where
  "dispatch_set type fn t =
     (if 0 \<le> type \<and> nat type < DISPATCH_MAX then Inr (t[nat type := fn]) else Inl (MemFault ''dispatch_set: type''))"

text \<open>The two handlers of this file; the sequence number may never have been set.\<close>

definition dispatch_protocol_error :: "nat \<Rightarrow> ('c, 'z) libs \<Rightarrow> select_event list \<Rightarrow> u32 \<Rightarrow> ('c, 'z) world \<Rightarrow> ('c, 'z) world result" where
  "dispatch_protocol_error fuel L es seq w =
     (if \<not> world.compat20 w then Inl (Fatal ''protocol error'')
      else rbind (packet_start SSH2_MSG_UNIMPLEMENTED w) (\<lambda>w.
           rbind (packet_put_int seq w) (\<lambda>w.
           rbind (packet_send L w) (\<lambda>w.
             packet_write_wait fuel L es w))))"

definition dispatch_protocol_ignore :: "('c, 'z) world \<Rightarrow> ('c, 'z) world result" where
  "dispatch_protocol_ignore w = Inr w"

text \<open>What reading one message in blocking mode meets: fuel for writing, \<open>select\<close> and \<open>read\<close>.\<close>

type_synonym awaited = "nat \<times> select_event list \<times> read_event list"

text \<open>The loop: one element of the list for each message; it ends in \<open>NoReturn\<close> when the list is used up. A handler
  changes the table, the context and the world; \<open>done\<close> looks at the context.\<close>

fun dispatch_run :: "('c, 'z) libs \<Rightarrow> bool \<Rightarrow> ('k \<Rightarrow> bool) option \<Rightarrow>
    ('f \<Rightarrow> byte \<Rightarrow> u32 option \<Rightarrow> 'f dispatch_table \<times> 'k \<times> ('c, 'z) world \<Rightarrow> ('f dispatch_table \<times> 'k \<times> ('c, 'z) world) result) \<Rightarrow>
    awaited list \<Rightarrow> 'f dispatch_table \<times> 'k \<times> ('c, 'z) world \<Rightarrow> ('f dispatch_table \<times> 'k \<times> ('c, 'z) world) result" where
  "dispatch_run L blocking done run [] s = Inl NoReturn"
| "dispatch_run L blocking done run (aw # aws) (t, k, w) =
     rbind (if blocking then case aw of (fuel, es, rs) \<Rightarrow> packet_read_seqnr fuel L es rs w else packet_read_poll_seqnr L w) (\<lambda>(type, seqnr, w).
       if \<not> blocking \<and> type = SSH_MSG_NONE then Inr (t, k, w)
       else
         rbind (case (if type > 0 \<and> unat type < DISPATCH_MAX then t ! unat type else None) of
                  Some f \<Rightarrow> run f type seqnr (t, k, w)
                | None \<Rightarrow> Inl (Disconnect ''protocol error: rcvd type'')) (\<lambda>(t, k, w).
           if (case done of Some d \<Rightarrow> d k | None \<Rightarrow> False) then Inr (t, k, w)
           else dispatch_run L blocking done run aws (t, k, w)))"

section \<open>The table\<close>

text \<open>A range sets the entries between its ends that the table has, and no other.\<close>

lemma range_loop_spec:
  assumes "length t = DISPATCH_MAX" "j < DISPATCH_MAX"
  shows "length (range_loop i to fn t) = DISPATCH_MAX \<and>
    range_loop i to fn t ! j = (if unat i \<le> j \<and> j \<le> unat to then fn else t ! j)"
  using assms
proof (induction i to fn t rule: range_loop.induct)
  case (1 i to fn t)
  show ?case
  proof (cases "i \<le> to \<and> \<not> unat i \<ge> DISPATCH_MAX")
    case True
    then have "unat (i + 1) = Suc (unat i)" using unat_step by blast
    then show ?thesis using 1 True by (subst (1 2) range_loop.simps) (auto simp: nth_list_update word_le_nat_alt le_Suc_eq)
  next
    case False
    then show ?thesis using 1(2,3) by (subst (1 2) range_loop.simps) (auto simp: word_le_nat_alt)
  qed
qed

lemma dispatch_range_spec:
  assumes "length t = DISPATCH_MAX" "j < DISPATCH_MAX"
  shows "length (dispatch_range i to fn t) = DISPATCH_MAX"
    and "dispatch_range i to fn t ! j = (if unat i \<le> j \<and> j \<le> unat to then fn else t ! j)"
  using range_loop_spec [OF assms] by (simp_all add: dispatch_range_def)

end
