(* ===== verification/Kex.thy ===== *)
theory Kex
  imports ChanFlow Match Bufbn Dispatch
begin

text \<open>
  The key exchange of \<open>kex.c\<close> up to the exchange method itself: the proposals, the negotiation of
  algorithms, and the derivation of keys from what the method agreed on. The methods are reached through
  the table \<open>kex->kex\<close> of function pointers, which is a parameter, as are the digests of OpenSSL. Names
  of algorithms are texts; a handler of another file in the table of \<open>dispatch.c\<close> is a name.
\<close>

section \<open>Data\<close>

text \<open>\<open>struct Kex\<close> without the version strings and the pointers to functions, which only the exchange methods use.\<close>

datatype key_type = KEY_RSA1 | KEY_RSA | KEY_DSA | KEY_ECDSA | KEY_RSA_CERT | KEY_DSA_CERT | KEY_ECDSA_CERT
  | KEY_RSA_CERT_V00 | KEY_DSA_CERT_V00 | KEY_UNSPEC

record kex =
  kx_session_id :: "byte list"
  kx_newkeys_in :: "newkeys option"
  kx_newkeys_out :: "newkeys option"
  kx_we_need :: u32
  kx_server :: bool
  kx_name :: "string option"
  kx_hostkey_type :: key_type
  kx_kex_type :: int
  kx_roaming :: bool
  kx_my :: buffer
  kx_peer :: buffer
  kx_done :: bool
  kx_flags :: u32
  kx_evp_md :: "evp_md option"

abbreviation KEX_INIT_SENT :: u32 where "KEX_INIT_SENT \<equiv> 1"
abbreviation KEX_COOKIE_LEN :: nat where "KEX_COOKIE_LEN \<equiv> 16"
abbreviation KEX_DH1 :: string where "KEX_DH1 \<equiv> ''diffie-hellman-group1-sha1''"
abbreviation KEX_DH14 :: string where "KEX_DH14 \<equiv> ''diffie-hellman-group14-sha1''"
abbreviation KEX_DHGEX_SHA1 :: string where "KEX_DHGEX_SHA1 \<equiv> ''diffie-hellman-group-exchange-sha1''"
abbreviation KEX_DHGEX_SHA256 :: string where "KEX_DHGEX_SHA256 \<equiv> ''diffie-hellman-group-exchange-sha256''"
abbreviation KEX_RESUME :: string where "KEX_RESUME \<equiv> ''resume@appgate.com''"
abbreviation KEX_ECDH_SHA2_STEM :: string where "KEX_ECDH_SHA2_STEM \<equiv> ''ecdh-sha2-''"
abbreviation SSH_BUG_HMAC :: u32 where "SSH_BUG_HMAC \<equiv> 0x00000004"
abbreviation SSH_BUG_DERIVEKEY :: u32 where "SSH_BUG_DERIVEKEY \<equiv> 0x00040000"
abbreviation SSH_BUG_FIRSTKEX :: u32 where "SSH_BUG_FIRSTKEX \<equiv> 0x00800000"
abbreviation SSH2_MSG_KEXINIT :: byte where "SSH2_MSG_KEXINIT \<equiv> 20"
abbreviation SSH2_MSG_NEWKEYS :: byte where "SSH2_MSG_NEWKEYS \<equiv> 21"
abbreviation KEX_DH_GRP1_SHA1 :: int where "KEX_DH_GRP1_SHA1 \<equiv> 0"
abbreviation KEX_DH_GRP14_SHA1 :: int where "KEX_DH_GRP14_SHA1 \<equiv> 1"
abbreviation KEX_DH_GEX_SHA1 :: int where "KEX_DH_GEX_SHA1 \<equiv> 2"
abbreviation KEX_DH_GEX_SHA256 :: int where "KEX_DH_GEX_SHA256 \<equiv> 3"
abbreviation KEX_ECDH_SHA2 :: int where "KEX_ECDH_SHA2 \<equiv> 4"
abbreviation KEX_MAX :: int where "KEX_MAX \<equiv> 5"
abbreviation PROPOSAL_KEX_ALGS :: nat where "PROPOSAL_KEX_ALGS \<equiv> 0"
abbreviation PROPOSAL_SERVER_HOST_KEY_ALGS :: nat where "PROPOSAL_SERVER_HOST_KEY_ALGS \<equiv> 1"
abbreviation PROPOSAL_ENC_ALGS_CTOS :: nat where "PROPOSAL_ENC_ALGS_CTOS \<equiv> 2"
abbreviation PROPOSAL_ENC_ALGS_STOC :: nat where "PROPOSAL_ENC_ALGS_STOC \<equiv> 3"
abbreviation PROPOSAL_MAC_ALGS_CTOS :: nat where "PROPOSAL_MAC_ALGS_CTOS \<equiv> 4"
abbreviation PROPOSAL_MAC_ALGS_STOC :: nat where "PROPOSAL_MAC_ALGS_STOC \<equiv> 5"
abbreviation PROPOSAL_COMP_ALGS_CTOS :: nat where "PROPOSAL_COMP_ALGS_CTOS \<equiv> 6"
abbreviation PROPOSAL_COMP_ALGS_STOC :: nat where "PROPOSAL_COMP_ALGS_STOC \<equiv> 7"
abbreviation PROPOSAL_MAX :: nat where "PROPOSAL_MAX \<equiv> 10"

definition text_of :: "byte list \<Rightarrow> string" where
  "text_of bs = map (\<lambda>b. char_of (unat b)) bs"

section \<open>Names\<close>

text \<open>\<open>key.c\<close>: the curve of a name, by its number in OpenSSL, the size of its numbers and the digest that goes with it.\<close>

abbreviation NID_X9_62_prime256v1 :: int where "NID_X9_62_prime256v1 \<equiv> 415"
abbreviation NID_secp384r1 :: int where "NID_secp384r1 \<equiv> 715"
abbreviation NID_secp521r1 :: int where "NID_secp521r1 \<equiv> 716"

definition key_curve_name_to_nid :: "string \<Rightarrow> int" where
  "key_curve_name_to_nid name =
     (if name = ''nistp256'' then NID_X9_62_prime256v1 else if name = ''nistp384'' then NID_secp384r1
      else if name = ''nistp521'' then NID_secp521r1 else -1)"

definition key_curve_nid_to_bits :: "int \<Rightarrow> int" where
  "key_curve_nid_to_bits nid =
     (if nid = NID_X9_62_prime256v1 then 256 else if nid = NID_secp384r1 then 384 else if nid = NID_secp521r1 then 521 else 0)"

definition key_ec_nid_to_evpmd :: "int \<Rightarrow> evp_md result" where
  "key_ec_nid_to_evpmd nid =
     (let kbits = key_curve_nid_to_bits nid in
      if kbits = 0 then Inl (Fatal ''key_ec_nid_to_evpmd: invalid nid'')
      else if kbits \<le> 256 then Inr EVP_sha256 else if kbits \<le> 384 then Inr EVP_sha384 else Inr EVP_sha512)"

definition key_type_from_name :: "string \<Rightarrow> key_type" where
  "key_type_from_name name =
     (if name = ''rsa1'' then KEY_RSA1
      else if name = ''rsa'' then KEY_RSA
      else if name = ''dsa'' then KEY_DSA
      else if name = ''ssh-rsa'' then KEY_RSA
      else if name = ''ssh-dss'' then KEY_DSA
      else if name \<in> {''ecdsa'', ''ecdsa-sha2-nistp256'', ''ecdsa-sha2-nistp384'', ''ecdsa-sha2-nistp521''} then KEY_ECDSA
      else if name = ''ssh-rsa-cert-v00@openssh.com'' then KEY_RSA_CERT_V00
      else if name = ''ssh-dss-cert-v00@openssh.com'' then KEY_DSA_CERT_V00
      else if name = ''ssh-rsa-cert-v01@openssh.com'' then KEY_RSA_CERT
      else if name = ''ssh-dss-cert-v01@openssh.com'' then KEY_DSA_CERT
      else if name \<in> {''ecdsa-sha2-nistp256-cert-v01@openssh.com'', ''ecdsa-sha2-nistp384-cert-v01@openssh.com'',
         ''ecdsa-sha2-nistp521-cert-v01@openssh.com''} then KEY_ECDSA_CERT
      else KEY_UNSPEC)"

definition is_ecdh :: "string \<Rightarrow> bool" where
  "is_ecdh name \<longleftrightarrow> take (length KEX_ECDH_SHA2_STEM) name = KEX_ECDH_SHA2_STEM"

definition kex_ecdh_name_to_nid :: "string \<Rightarrow> int result" where
  "kex_ecdh_name_to_nid kexname =
     (if length kexname < length KEX_ECDH_SHA2_STEM then Inl (Fatal ''kexname too short'')
      else Inr (key_curve_name_to_nid (drop (length KEX_ECDH_SHA2_STEM) kexname)))"

definition kex_ecdh_name_to_evpmd :: "string \<Rightarrow> evp_md result" where
  "kex_ecdh_name_to_evpmd kexname =
     rbind (kex_ecdh_name_to_nid kexname) (\<lambda>nid.
       if nid = -1 then Inl (Fatal ''unsupported ECDH curve'') else key_ec_nid_to_evpmd nid)"

definition kex_name_ok :: "string \<Rightarrow> bool result" where
  "kex_name_ok p =
     (if p \<in> {KEX_DHGEX_SHA256, KEX_DHGEX_SHA1, KEX_DH14, KEX_DH1} then Inr True
      else if \<not> is_ecdh p then Inr False
      else rbind (kex_ecdh_name_to_nid p) (\<lambda>nid. Inr (nid \<noteq> -1)))"

fun kex_names_ok :: "string list \<Rightarrow> bool result" where
  "kex_names_ok [] = Inr True"
| "kex_names_ok (p # ps) = rbind (kex_name_ok p) (\<lambda>ok. if ok then kex_names_ok ps else Inr False)"

definition kex_names_valid :: "string option \<Rightarrow> bool result" where
  "kex_names_valid list =
     (case list of
        None \<Rightarrow> Inr False
      | Some s \<Rightarrow> if s = [] then Inr False else kex_names_ok (names CHR '','' (Some s)))"

section \<open>Proposals\<close>

definition zeroes :: "nat \<Rightarrow> buffer \<Rightarrow> buffer result" where
  "zeroes n b = fold (\<lambda>_ r. rbind r (\<lambda>b. buffer_put_char b 0)) [0..<n] (Inr b)"

definition kex_prop2buf :: "buffer \<Rightarrow> byte list option list \<Rightarrow> buffer result" where
  "kex_prop2buf b proposal =
     rbind (zeroes KEX_COOKIE_LEN (buffer_clear b)) (\<lambda>b.
     rbind (fold (\<lambda>p r. rbind r (\<lambda>b. buffer_put_cstring b p)) (take PROPOSAL_MAX proposal) (Inr b)) (\<lambda>b.
     rbind (buffer_put_char b 0) (\<lambda>b. buffer_put_int b 0)))"

fun skip_chars :: "nat \<Rightarrow> buffer \<Rightarrow> buffer result" where
  "skip_chars 0 b = Inr b"
| "skip_chars (Suc n) b = rbind (buffer_get_char b) (\<lambda>(c, b). skip_chars n b)"

fun get_cstrings :: "nat \<Rightarrow> buffer \<Rightarrow> (byte list list \<times> buffer) result" where
  "get_cstrings 0 b = Inr ([], b)"
| "get_cstrings (Suc n) b =
     rbind (buffer_get_cstring b) (\<lambda>(s, b). rbind (get_cstrings n b) (\<lambda>(ss, b). Inr (s # ss, b)))"

text \<open>The texts of a proposal and the flag that a guess of the first message follows.\<close>

definition kex_buf2prop :: "buffer \<Rightarrow> (string list \<times> byte) result" where
  "kex_buf2prop raw =
     rbind (buffer_append buffer_init (buffer_ptr raw) (buffer_len raw)) (\<lambda>b.
     rbind (skip_chars KEX_COOKIE_LEN b) (\<lambda>b.
     rbind (get_cstrings PROPOSAL_MAX b) (\<lambda>(proposal, b).
     rbind (buffer_get_char b) (\<lambda>(first_kex_follows, b).
     rbind (buffer_get_int b) (\<lambda>(reserved, b).
       Inr (map text_of proposal, first_kex_follows))))))"

section \<open>Negotiation\<close>

definition first_match :: "string \<Rightarrow> string \<Rightarrow> string \<Rightarrow> string result" where
  "first_match msg client server = (case fst (match_list client server) of None \<Rightarrow> Inl (Fatal msg) | Some n \<Rightarrow> Inr n)"

definition choose_enc :: "string \<Rightarrow> string \<Rightarrow> enc result" where
  "choose_enc client server =
     rbind (first_match ''no matching cipher found'' client server) (\<lambda>name.
       case cipher_by_name name of
         None \<Rightarrow> Inl (Fatal ''matching cipher is not supported'')
       | Some c \<Rightarrow> Inr \<lparr>enc_name = name, enc_cipher = c, enc_key_len = cipher_keylen c, enc_block_size = cipher_blocksize c,
                        enc_key = [], enc_iv = []\<rparr>)"

text \<open>The structure \<open>xcalloc\<close> made.\<close>

definition zero_mac :: mac where
  "zero_mac = \<lparr>mac_name = [], mac_enabled = False, mac_len = 0, mac_key = None, mac_key_len = 0, mac_type = 0,
     mac_evp_md = None, mac_evp_ctx = None, mac_umac_ctx = None\<rparr>"

definition choose_mac :: "mac_lib \<Rightarrow> u32 \<Rightarrow> string \<Rightarrow> string \<Rightarrow> mac result" where
  "choose_mac M fellows client server =
     rbind (first_match ''no matching mac found'' client server) (\<lambda>name.
     rbind (mac_setup M (Some zero_mac) name) (\<lambda>(r, m).
       case m of
         None \<Rightarrow> Inl (MemFault ''choose_mac: mac'')
       | Some m \<Rightarrow>
           if r < 0 then Inl (Fatal ''unsupported mac'')
           else let m = (if fellows AND SSH_BUG_HMAC \<noteq> 0 then m\<lparr>mac_key_len := 16\<rparr> else m)
                in Inr (m\<lparr>mac_name := name, mac_key := None, mac_enabled := False\<rparr>)))"

definition choose_comp :: "string \<Rightarrow> string \<Rightarrow> comp result" where
  "choose_comp client server =
     rbind (first_match ''no matching comp found'' client server) (\<lambda>name.
     rbind (if name = ''zlib@openssh.com'' then Inr COMP_DELAYED
            else if name = ''zlib'' then Inr COMP_ZLIB
            else if name = ''none'' then Inr COMP_NONE
            else Inl (Fatal ''unsupported comp'')) (\<lambda>type.
       Inr \<lparr>comp_type = type, comp_enabled = False, comp_name = name\<rparr>))"

definition choose_kex :: "string \<Rightarrow> string \<Rightarrow> (string \<times> int \<times> evp_md) result" where
  "choose_kex client server =
     rbind (first_match ''Unable to negotiate a key exchange method'' client server) (\<lambda>name.
       if name = KEX_DH1 then Inr (name, KEX_DH_GRP1_SHA1, EVP_sha1)
       else if name = KEX_DH14 then Inr (name, KEX_DH_GRP14_SHA1, EVP_sha1)
       else if name = KEX_DHGEX_SHA1 then Inr (name, KEX_DH_GEX_SHA1, EVP_sha1)
       else if name = KEX_DHGEX_SHA256 then Inr (name, KEX_DH_GEX_SHA256, EVP_sha256)
       else if is_ecdh name then rbind (kex_ecdh_name_to_evpmd name) (\<lambda>md. Inr (name, KEX_ECDH_SHA2, md))
       else Inl (Fatal ''bad kex alg''))"

definition choose_hostkeyalg :: "string \<Rightarrow> string \<Rightarrow> key_type result" where
  "choose_hostkeyalg client server =
     rbind (first_match ''no hostkey alg'' client server) (\<lambda>name.
       let t = key_type_from_name name in if t = KEY_UNSPEC then Inl (Fatal ''bad hostkey alg'') else Inr t)"

text \<open>The guess was right if the first names of both sides agree.\<close>

definition proposals_match :: "string list \<Rightarrow> string list \<Rightarrow> bool" where
  "proposals_match my peer \<longleftrightarrow>
     (\<forall>idx \<in> set [PROPOSAL_KEX_ALGS, PROPOSAL_SERVER_HOST_KEY_ALGS].
       takeWhile (\<lambda>c. c \<noteq> CHR '','') (my ! idx) = takeWhile (\<lambda>c. c \<noteq> CHR '','') (peer ! idx))"

text \<open>The algorithms of one direction, \<open>ctos\<close> from the client to the server.\<close>

definition choose_direction :: "mac_lib \<Rightarrow> u32 \<Rightarrow> bool \<Rightarrow> string list \<Rightarrow> string list \<Rightarrow> newkeys result" where
  "choose_direction M fellows ctos cprop sprop =
     (let nenc = (if ctos then PROPOSAL_ENC_ALGS_CTOS else PROPOSAL_ENC_ALGS_STOC);
          nmac = (if ctos then PROPOSAL_MAC_ALGS_CTOS else PROPOSAL_MAC_ALGS_STOC);
          ncomp = (if ctos then PROPOSAL_COMP_ALGS_CTOS else PROPOSAL_COMP_ALGS_STOC)
      in rbind (choose_enc (cprop ! nenc) (sprop ! nenc)) (\<lambda>e.
         rbind (choose_mac M fellows (cprop ! nmac) (sprop ! nmac)) (\<lambda>m.
         rbind (choose_comp (cprop ! ncomp) (sprop ! ncomp)) (\<lambda>c. Inr \<lparr>nk_enc = e, nk_mac = m, nk_comp = c\<rparr>))))"

definition need_of :: "newkeys \<Rightarrow> u32 \<Rightarrow> u32" where
  "need_of nk need = max (max (max need (enc_key_len (nk_enc nk))) (enc_block_size (nk_enc nk))) (mac_key_len (nk_mac nk))"

text \<open>The choice from the proposals of client and server, for both directions, the method and the host key.\<close>

definition kex_settle :: "mac_lib \<Rightarrow> u32 \<Rightarrow> kex \<Rightarrow> string list \<Rightarrow> string list \<Rightarrow> kex result" where
  "kex_settle M fellows kex cprop sprop =
     rbind (choose_direction M fellows (kx_server kex) cprop sprop) (\<lambda>nk_in.
     rbind (choose_direction M fellows (\<not> kx_server kex) cprop sprop) (\<lambda>nk_out.
     rbind (choose_kex (cprop ! PROPOSAL_KEX_ALGS) (sprop ! PROPOSAL_KEX_ALGS)) (\<lambda>k.
     rbind (choose_hostkeyalg (cprop ! PROPOSAL_SERVER_HOST_KEY_ALGS) (sprop ! PROPOSAL_SERVER_HOST_KEY_ALGS)) (\<lambda>hk.
       Inr (kex\<lparr>kx_newkeys_in := Some nk_in, kx_newkeys_out := Some nk_out, kx_name := Some (fst k), kx_kex_type := fst (snd k),
              kx_evp_md := Some (snd (snd k)), kx_hostkey_type := hk, kx_we_need := need_of nk_out (need_of nk_in 0)\<rparr>)))))"

text \<open>The client notes whether the server offers to resume.\<close>

definition note_roaming :: "string list \<Rightarrow> kex \<Rightarrow> kex" where
  "note_roaming peer kex =
     (if \<not> kx_server kex \<and> fst (match_list KEX_RESUME (peer ! PROPOSAL_KEX_ALGS)) \<noteq> None then kex\<lparr>kx_roaming := True\<rparr> else kex)"

text \<open>Everything \<open>kex_choose_conf\<close> decides; the flag says that the next message, a wrong guess, is skipped.\<close>

definition kex_negotiate :: "mac_lib \<Rightarrow> u32 \<Rightarrow> kex \<Rightarrow> (kex \<times> bool) result" where
  "kex_negotiate M fellows kex =
     rbind (kex_buf2prop (kx_my kex)) (\<lambda>(my, _).
     rbind (kex_buf2prop (kx_peer kex)) (\<lambda>(peer, first_kex_follows).
     rbind (kex_settle M fellows (note_roaming peer kex) (if kx_server kex then peer else my) (if kx_server kex then my else peer)) (\<lambda>kex.
       Inr (kex, first_kex_follows \<noteq> 0 \<and> \<not> proposals_match my peer \<and> fellows AND SSH_BUG_FIRSTKEX = 0))))"

definition kex_choose_conf :: "('c, 'z) libs \<Rightarrow> awaited \<Rightarrow> kex \<Rightarrow> ('c, 'z) world \<Rightarrow> (kex \<times> ('c, 'z) world) result" where
  "kex_choose_conf L aw kex w =
     rbind (kex_negotiate (l_mac L) (world.datafellows w) kex) (\<lambda>(kex, skip).
       if skip then case aw of (fuel, es, rs) \<Rightarrow> rbind (packet_read_seqnr fuel L es rs w) (\<lambda>(type, sq, w). Inr (kex, w))
       else Inr (kex, w))"

section \<open>The messages\<close>

datatype handler = Dispatch_protocol_error | Dispatch_protocol_ignore | Kex_protocol_error | Kex_input_kexinit | Handler string

abbreviation SSH2_MSG_TRANSPORT_MIN :: u32 where "SSH2_MSG_TRANSPORT_MIN \<equiv> 1"
abbreviation SSH2_MSG_TRANSPORT_MAX :: u32 where "SSH2_MSG_TRANSPORT_MAX \<equiv> 49"

definition kex_reset_dispatch :: "handler dispatch_table \<Rightarrow> handler dispatch_table result" where
  "kex_reset_dispatch t =
     dispatch_set (uint SSH2_MSG_KEXINIT) (Some Kex_input_kexinit)
       (dispatch_range SSH2_MSG_TRANSPORT_MIN SSH2_MSG_TRANSPORT_MAX (Some Kex_protocol_error) t)"

definition kex_send_kexinit :: "('c, 'z) libs \<Rightarrow> kex option \<Rightarrow> ('c, 'z) world \<Rightarrow> (kex option \<times> ('c, 'z) world) result" where
  "kex_send_kexinit L kex w =
     (case kex of
        None \<Rightarrow> Inr (None, w)
      | Some kex \<Rightarrow>
          if kx_flags kex AND KEX_INIT_SENT \<noteq> 0 then Inr (Some kex, w)
          else
            let kex = kex\<lparr>kx_done := False\<rparr> in
            if unat (buffer_len (kx_my kex)) < KEX_COOKIE_LEN then Inl (Fatal ''kex_send_kexinit: kex proposal too short'')
            else
              let (cookie, w) = random_bytes KEX_COOKIE_LEN 0 0 w;
                  my = (kx_my kex)\<lparr>b_buf := overwrite (unat (b_offset (kx_my kex))) cookie (b_buf (kx_my kex))\<rparr>;
                  kex = kex\<lparr>kx_my := my\<rparr>
              in rbind (packet_start SSH2_MSG_KEXINIT w) (\<lambda>w.
                 rbind (packet_put_raw (buffer_ptr my) (buffer_len my) w) (\<lambda>w.
                 rbind (packet_send L w) (\<lambda>w.
                   Inr (Some (kex\<lparr>kx_flags := kx_flags kex OR KEX_INIT_SENT\<rparr>), w)))))"

text \<open>\<open>zero\<close> is what \<open>xcalloc\<close> returns.\<close>

definition kex_setup :: "('c, 'z) libs \<Rightarrow> kex \<Rightarrow> byte list option list \<Rightarrow> handler dispatch_table \<times> ('c, 'z) world \<Rightarrow>
    (kex option \<times> handler dispatch_table \<times> ('c, 'z) world) result" where
  "kex_setup L zero proposal s =
     (case s of (t, w) \<Rightarrow>
        rbind (kex_prop2buf buffer_init proposal) (\<lambda>my.
        rbind (kex_send_kexinit L (Some (zero\<lparr>kx_peer := buffer_init, kx_my := my, kx_done := False\<rparr>)) w) (\<lambda>(kex, w).
        rbind (kex_reset_dispatch t) (\<lambda>t. Inr (kex, t, w)))))"

text \<open>What a handler works on, and the table of exchange methods.\<close>

type_synonym ('c, 'z) kex_state = "kex \<times> handler dispatch_table \<times> ('c, 'z) world"

type_synonym ('c, 'z) methods = "int \<Rightarrow> (('c, 'z) kex_state \<Rightarrow> ('c, 'z) kex_state result) option"

definition kex_kexinit_finish :: "('c, 'z) libs \<Rightarrow> ('c, 'z) methods \<Rightarrow> awaited \<Rightarrow> ('c, 'z) kex_state \<Rightarrow> ('c, 'z) kex_state result" where
  "kex_kexinit_finish L methods aw s =
     (case s of (kex, t, w) \<Rightarrow>
        rbind (if kx_flags kex AND KEX_INIT_SENT = 0 then kex_send_kexinit L (Some kex) w else Inr (Some kex, w)) (\<lambda>(sent, w).
        rbind (case sent of Some kex \<Rightarrow> Inr kex | None \<Rightarrow> Inl (MemFault ''kex_kexinit_finish: kex'')) (\<lambda>kex.
        rbind (kex_choose_conf L aw kex w) (\<lambda>(kex, w).
          case (if 0 \<le> kx_kex_type kex \<and> kx_kex_type kex < KEX_MAX then methods (kx_kex_type kex) else None) of
            Some f \<Rightarrow> f (kex, t, w)
          | None \<Rightarrow> Inl (Fatal ''Unsupported key exchange'')))))"

fun drop_chars :: "nat \<Rightarrow> ('c, 'z) world \<Rightarrow> ('c, 'z) world result" where
  "drop_chars 0 w = Inr w"
| "drop_chars (Suc n) w = rbind (packet_get_char w) (\<lambda>(c, w). drop_chars n w)"

fun drop_strings :: "nat \<Rightarrow> ('c, 'z) world \<Rightarrow> ('c, 'z) world result" where
  "drop_strings 0 w = Inr w"
| "drop_strings (Suc n) w = rbind (packet_get_string w) (\<lambda>(s, w). drop_strings n w)"

definition kex_input_kexinit :: "('c, 'z) libs \<Rightarrow> ('c, 'z) methods \<Rightarrow> awaited \<Rightarrow> kex option \<times> handler dispatch_table \<times> ('c, 'z) world \<Rightarrow>
    ('c, 'z) kex_state result" where
  "kex_input_kexinit L methods aw s =
     (case s of
        (None, t, w) \<Rightarrow> Inl (Fatal ''kex_input_kexinit: no kex, cannot rekey'')
      | (Some kex, t, w) \<Rightarrow>
          let (ptr, dlen) = packet_get_raw w in
          rbind (buffer_append (kx_peer kex) ptr dlen) (\<lambda>peer.
          rbind (drop_chars KEX_COOKIE_LEN w) (\<lambda>w.
          rbind (drop_strings PROPOSAL_MAX w) (\<lambda>w.
          rbind (packet_get_char w) (\<lambda>(c, w).
          rbind (packet_get_int w) (\<lambda>(i, w).
          rbind (packet_check_eom w) (\<lambda>w.
            kex_kexinit_finish L methods aw (kex\<lparr>kx_peer := peer\<rparr>, t, w))))))))"

definition kex_finish :: "('c, 'z) libs \<Rightarrow> awaited \<Rightarrow> ('c, 'z) kex_state \<Rightarrow> ('c, 'z) kex_state result" where
  "kex_finish L aw s =
     (case (aw, s) of ((fuel, es, rs), (kex, t, w)) \<Rightarrow>
        rbind (kex_reset_dispatch t) (\<lambda>t.
        rbind (packet_start SSH2_MSG_NEWKEYS w) (\<lambda>w.
        rbind (packet_send L w) (\<lambda>w.
        rbind (packet_read_expect fuel L es rs SSH2_MSG_NEWKEYS w) (\<lambda>w.
        rbind (packet_check_eom w) (\<lambda>w.
          Inr (kex\<lparr>kx_done := True, kx_peer := buffer_clear (kx_peer kex), kx_flags := kx_flags kex AND NOT KEX_INIT_SENT,
                 kx_name := None\<rparr>, t, w)))))))"

section \<open>Keys\<close>

type_synonym digest = "evp_md \<Rightarrow> byte list \<Rightarrow> byte list"

text \<open>The loop that makes a key longer: \<open>have\<close> bytes are there.\<close>

fun expand_key :: "nat \<Rightarrow> (byte list \<Rightarrow> byte list) \<Rightarrow> u32 \<Rightarrow> byte list \<Rightarrow> u32 \<Rightarrow> u32 \<Rightarrow> byte list \<Rightarrow> byte list result" where
  "expand_key 0 md mdsz prefix need have digest = (if need > have then Inl NoReturn else Inr digest)"
| "expand_key (Suc fuel) md mdsz prefix need have digest =
     (if need > have
      then expand_key fuel md mdsz prefix need (have + mdsz) (digest @ md (prefix @ take (unat have) digest))
      else Inr digest)"

definition derive_key :: "'b bn_lib \<Rightarrow> mac_lib \<Rightarrow> digest \<Rightarrow> u32 \<Rightarrow> kex \<Rightarrow> byte \<Rightarrow> u32 \<Rightarrow> byte list \<Rightarrow> 'b \<Rightarrow> byte list result" where
  "derive_key N M H fellows kex c need hash shared_secret =
     (case kx_evp_md kex of
        None \<Rightarrow> Inl (MemFault ''derive_key: evp_md'')
      | Some md \<Rightarrow>
          let mdsz = md_size M md in
          if mdsz \<le> 0 then Inl (Fatal ''bad kex md size'')
          else if roundup need (word_of_int mdsz) = 0 then Inl (Fatal ''xmalloc: zero size'')
          else
            rbind (buffer_put_bignum2 N buffer_init shared_secret) (\<lambda>b.
            let k = (if fellows AND SSH_BUG_DERIVEKEY = 0 then take (unat (buffer_len b)) (buffer_ptr b) else []);
                prefix = k @ hash
            in expand_key (unat need) (H md) (word_of_int mdsz) prefix need (word_of_int mdsz)
                 (H md (prefix @ [c] @ kx_session_id kex))))"

text \<open>The keys of one direction: initial vector, cipher and integrity.\<close>

definition keyed :: "byte list list \<Rightarrow> bool \<Rightarrow> newkeys \<Rightarrow> newkeys" where
  "keyed keys ctos nk =
     nk\<lparr>nk_enc := (nk_enc nk)\<lparr>enc_iv := keys ! (if ctos then 0 else 1), enc_key := keys ! (if ctos then 2 else 3)\<rparr>,
        nk_mac := (nk_mac nk)\<lparr>mac_key := Some (keys ! (if ctos then 4 else 5))\<rparr>\<rparr>"

fun derive_all :: "(byte \<Rightarrow> byte list result) \<Rightarrow> byte list \<Rightarrow> byte list list result" where
  "derive_all f [] = Inr []"
| "derive_all f (c # cs) = rbind (f c) (\<lambda>k. rbind (derive_all f cs) (\<lambda>ks. Inr (k # ks)))"

definition kex_derive_keys :: "'b bn_lib \<Rightarrow> mac_lib \<Rightarrow> digest \<Rightarrow> kex \<Rightarrow> byte list \<Rightarrow> 'b \<Rightarrow> ('c, 'z) world \<Rightarrow>
    (kex \<times> ('c, 'z) world) result" where
  "kex_derive_keys N M H kex hash shared_secret w =
     rbind (derive_all (\<lambda>c. derive_key N M H (world.datafellows w) kex c (kx_we_need kex) hash shared_secret) [65, 66, 67, 68, 69, 70]) (\<lambda>keys.
       case (kx_newkeys_in kex, kx_newkeys_out kex) of
         (Some nk_in, Some nk_out) \<Rightarrow>
           Inr (kex\<lparr>kx_newkeys_in := None, kx_newkeys_out := None\<rparr>,
                w\<lparr>current_keys_in := Some (keyed keys (kx_server kex) nk_in),
                  current_keys_out := Some (keyed keys (\<not> kx_server kex) nk_out)\<rparr>)
       | _ \<Rightarrow> Inl (MemFault ''kex_derive_keys: newkeys''))"

definition bn_num_bytes :: "'b bn_lib \<Rightarrow> 'b \<Rightarrow> int" where
  "bn_num_bytes N v = (bn_num_bits N v + 7) div 8"

definition derive_ssh1_session_id :: "'b bn_lib \<Rightarrow> digest \<Rightarrow> 'b \<Rightarrow> 'b \<Rightarrow> byte list \<Rightarrow> byte list result" where
  "derive_ssh1_session_id N H host_modulus server_modulus cookie =
     (let a = bn_num_bytes N host_modulus; b = bn_num_bytes N server_modulus in
      if a < 512 div 8 \<or> a > 2048 then Inl (Fatal ''derive_ssh1_session_id: bad host modulus'')
      else if b < 512 div 8 \<or> b > 2048 then Inl (Fatal ''derive_ssh1_session_id: bad server modulus'')
      else Inr (take 16 (H EVP_md5 (take (nat a) (bn_bn2bin N host_modulus) @ take (nat b) (bn_bn2bin N server_modulus) @ take 8 cookie))))"

section \<open>Agreement\<close>

text \<open>A proposal only depends on the bytes of its message.\<close>

lemma buf2prop_cong:
  assumes "buffer_ok a" "buffer_ok b" "buffer_contents a = buffer_contents b"
  shows "kex_buf2prop a = kex_buf2prop b"
proof -
  have l: "buffer_len a = buffer_len b" using assms unat_buffer_len by (metis unsigned_word_eqI)
  have p: "take (unat (buffer_len a)) (buffer_ptr a) = take (unat (buffer_len a)) (buffer_ptr b)"
    using assms contents_ptr [of a] contents_ptr [of b] l by simp
  have "buffer_append buffer_init (buffer_ptr a) (buffer_len a) = buffer_append buffer_init (buffer_ptr b) (buffer_len b)"
    unfolding buffer_append_def using p l by simp
  then show ?thesis by (simp add: kex_buf2prop_def)
qed

text \<open>What is agreed on, from the proposals of client and server.\<close>

definition agreed :: "mac_lib \<Rightarrow> u32 \<Rightarrow> string list \<Rightarrow> string list \<Rightarrow> newkeys \<Rightarrow> newkeys \<Rightarrow> string \<times> int \<times> evp_md \<Rightarrow> key_type \<Rightarrow> bool" where
  "agreed M f cprop sprop ctos stoc k hk \<longleftrightarrow>
     choose_direction M f True cprop sprop = Inr ctos \<and> choose_direction M f False cprop sprop = Inr stoc \<and>
     choose_kex (cprop ! PROPOSAL_KEX_ALGS) (sprop ! PROPOSAL_KEX_ALGS) = Inr k \<and>
     choose_hostkeyalg (cprop ! PROPOSAL_SERVER_HOST_KEY_ALGS) (sprop ! PROPOSAL_SERVER_HOST_KEY_ALGS) = Inr hk"

definition settled :: "bool \<Rightarrow> newkeys \<Rightarrow> newkeys \<Rightarrow> string \<times> int \<times> evp_md \<Rightarrow> key_type \<Rightarrow> kex \<Rightarrow> bool" where
  "settled server ctos stoc k hk kex \<longleftrightarrow>
     kx_newkeys_in kex = Some (if server then ctos else stoc) \<and> kx_newkeys_out kex = Some (if server then stoc else ctos) \<and>
     kx_name kex = Some (fst k) \<and> kx_kex_type kex = fst (snd k) \<and> kx_evp_md kex = Some (snd (snd k)) \<and>
     kx_hostkey_type kex = hk \<and> kx_we_need kex = (if server then need_of stoc (need_of ctos 0) else need_of ctos (need_of stoc 0))"

lemma need_commute: "need_of a (need_of b 0) = need_of b (need_of a 0)"
  by (simp add: need_of_def max.assoc max.commute max.left_commute)

lemma roaming_fields:
  "kx_server (note_roaming p kex) = kx_server kex" "kx_session_id (note_roaming p kex) = kx_session_id kex"
  by (simp_all add: note_roaming_def)

lemma settle_settles:
  assumes "kex_settle M f kex cprop sprop = Inr kex'"
  shows "\<exists>ctos stoc k hk. agreed M f cprop sprop ctos stoc k hk \<and> settled (kx_server kex) ctos stoc k hk kex' \<and>
    kx_session_id kex' = kx_session_id kex \<and> kx_server kex' = kx_server kex"
proof -
  obtain a b k hk where
    c: "choose_direction M f (kx_server kex) cprop sprop = Inr a" "choose_direction M f (\<not> kx_server kex) cprop sprop = Inr b"
      "choose_kex (cprop ! PROPOSAL_KEX_ALGS) (sprop ! PROPOSAL_KEX_ALGS) = Inr k"
      "choose_hostkeyalg (cprop ! PROPOSAL_SERVER_HOST_KEY_ALGS) (sprop ! PROPOSAL_SERVER_HOST_KEY_ALGS) = Inr hk"
    and k': "kex' = kex\<lparr>kx_newkeys_in := Some a, kx_newkeys_out := Some b, kx_name := Some (fst k), kx_kex_type := fst (snd k),
              kx_evp_md := Some (snd (snd k)), kx_hostkey_type := hk, kx_we_need := need_of b (need_of a 0)\<rparr>"
    using assms unfolding kex_settle_def rbind_eq_Inr by (elim exE conjE) simp
  show ?thesis
  proof (cases "kx_server kex")
    case True
    with c k' show ?thesis by (intro exI [of _ a] exI [of _ b] exI [of _ k] exI [of _ hk]) (simp add: agreed_def settled_def)
  next
    case False
    with c k' show ?thesis by (intro exI [of _ b] exI [of _ a] exI [of _ k] exI [of _ hk]) (simp add: agreed_def settled_def)
  qed
qed

lemma settle_succeeds:
  assumes "agreed M f cprop sprop ctos stoc k hk"
  shows "\<exists>kex'. kex_settle M f kex cprop sprop = Inr kex' \<and> settled (kx_server kex) ctos stoc k hk kex' \<and>
    kx_session_id kex' = kx_session_id kex \<and> kx_server kex' = kx_server kex"
  using assms by (cases "kx_server kex") (simp_all add: agreed_def settled_def kex_settle_def)

lemma negotiate_settles:
  assumes "kex_negotiate M f kex = Inr (kex', s)"
  obtains my f1 peer f2 ctos stoc k hk where
    "kex_buf2prop (kx_my kex) = Inr (my, f1)" "kex_buf2prop (kx_peer kex) = Inr (peer, f2)"
    "agreed M f (if kx_server kex then peer else my) (if kx_server kex then my else peer) ctos stoc k hk"
    "settled (kx_server kex) ctos stoc k hk kex'" "kx_session_id kex' = kx_session_id kex" "kx_server kex' = kx_server kex"
proof -
  obtain my f1 peer f2 where p: "kex_buf2prop (kx_my kex) = Inr (my, f1)" "kex_buf2prop (kx_peer kex) = Inr (peer, f2)"
    and st: "kex_settle M f (note_roaming peer kex) (if kx_server kex then peer else my) (if kx_server kex then my else peer) = Inr kex'"
    using assms unfolding kex_negotiate_def by auto
  from settle_settles [OF st, unfolded roaming_fields] that [OF p] show thesis by blast
qed

lemma negotiate_succeeds:
  assumes "kex_buf2prop (kx_my kex) = Inr (my, f1)" and "kex_buf2prop (kx_peer kex) = Inr (peer, f2)"
    and "agreed M f (if kx_server kex then peer else my) (if kx_server kex then my else peer) ctos stoc k hk"
  shows "\<exists>kex' s. kex_negotiate M f kex = Inr (kex', s) \<and> settled (kx_server kex) ctos stoc k hk kex' \<and>
    kx_session_id kex' = kx_session_id kex \<and> kx_server kex' = kx_server kex"
  using settle_succeeds [OF assms(3), of "note_roaming peer kex", unfolded roaming_fields] assms(1,2)
  by (auto simp: kex_negotiate_def)

text \<open>Two ends that exchanged their messages.\<close>

definition mirrored :: "kex \<Rightarrow> kex \<Rightarrow> bool" where
  "mirrored c s \<longleftrightarrow> \<not> kx_server c \<and> kx_server s \<and> kx_session_id c = kx_session_id s \<and>
     buffer_ok (kx_my c) \<and> buffer_ok (kx_peer c) \<and> buffer_ok (kx_my s) \<and> buffer_ok (kx_peer s) \<and>
     buffer_contents (kx_my c) = buffer_contents (kx_peer s) \<and> buffer_contents (kx_peer c) = buffer_contents (kx_my s)"

lemma both_settle:
  assumes m: "mirrored c s" and n: "kex_negotiate M f c = Inr (c', sk)"
  obtains ctos stoc k hk s' sk' where "kex_negotiate M f s = Inr (s', sk')" "settled False ctos stoc k hk c'" "settled True ctos stoc k hk s'"
    "kx_session_id c' = kx_session_id s'" "kx_server c' = False" "kx_server s' = True"
proof -
  have srv: "kx_server c = False" "kx_server s = True" using m by (simp_all add: mirrored_def)
  from negotiate_settles [OF n, unfolded srv if_False] obtain my f1 peer f2 ctos stoc k hk where
    p: "kex_buf2prop (kx_my c) = Inr (my, f1)" "kex_buf2prop (kx_peer c) = Inr (peer, f2)" and
    a: "agreed M f my peer ctos stoc k hk" "settled False ctos stoc k hk c'" "kx_session_id c' = kx_session_id c" "kx_server c' = False"
    by blast
  have "kex_buf2prop (kx_my s) = Inr (peer, f2)" "kex_buf2prop (kx_peer s) = Inr (my, f1)"
    using m p buf2prop_cong unfolding mirrored_def by metis+
  from negotiate_succeeds [OF this, of M f ctos stoc k hk, unfolded srv if_True, OF a(1)] obtain s' sk' where
    s': "kex_negotiate M f s = Inr (s', sk')" "settled True ctos stoc k hk s'" "kx_session_id s' = kx_session_id s" "kx_server s' = True"
    by blast
  have "kx_session_id c' = kx_session_id s'" using a(3) s'(3) m by (simp add: mirrored_def)
  from that [OF s'(1) a(2) s'(2) this a(4) s'(4)] show thesis .
qed

lemma derive_key_cong:
  assumes "kx_evp_md a = kx_evp_md b" "kx_session_id a = kx_session_id b"
  shows "derive_key N M H f a c need hash k = derive_key N M H f b c need hash k"
  unfolding derive_key_def assms ..

lemma choose_kex_name: "choose_kex c s = Inr k \<Longrightarrow> fst (match_list c s) = Some (fst k)"
  by (auto simp: choose_kex_def first_match_def split: option.splits if_splits)

lemma negotiate_name:
  assumes "kex_negotiate M f c = Inr (c', sk)" "\<not> kx_server c" "kex_buf2prop (kx_my c) = Inr (cprop, f1)" "kex_buf2prop (kx_peer c) = Inr (sprop, f2)"
  shows "kx_name c' = fst (match_list (cprop ! PROPOSAL_KEX_ALGS) (sprop ! PROPOSAL_KEX_ALGS))"
proof -
  have srv: "kx_server c = False" using assms(2) by simp
  from negotiate_settles [OF assms(1), unfolded srv if_False] obtain my g1 peer g2 ctos stoc k hk where
    p: "kex_buf2prop (kx_my c) = Inr (my, g1)" "kex_buf2prop (kx_peer c) = Inr (peer, g2)" and
    a: "agreed M f my peer ctos stoc k hk" "settled False ctos stoc k hk c'" "kx_session_id c' = kx_session_id c" "kx_server c' = False"
    by blast
  have "my = cprop" "peer = sprop" using p assms(3,4) by simp_all
  moreover have "choose_kex (my ! PROPOSAL_KEX_ALGS) (peer ! PROPOSAL_KEX_ALGS) = Inr k" "kx_name c' = Some (fst k)"
    using a by (simp_all add: agreed_def settled_def)
  ultimately show ?thesis using choose_kex_name by metis
qed

section \<open>Properties\<close>

text \<open>C3: Both ends of a connection negotiate the same algorithms and derive the same keys. If the client
  settles on algorithms from the proposals it sent and received and derives keys from a hash and a shared
  secret, then the server, which has the same proposals, hash and secret, succeeds as well, with the same
  method, the same type of host key and the same digest; and what one end uses to send is what the other
  uses to receive: cipher, integrity and compression with all their keys. The method is the first of the
  client's names that is among the first forty of the server's.\<close>

theorem kex_keys_agree:
  assumes "mirrored c s" and "kex_negotiate M (world.datafellows wc) c = Inr (c', sk)"
    and "kex_derive_keys N M H c' hash secret wc = Inr (c'', wc')" and "world.datafellows ws = world.datafellows wc"
    and "kex_buf2prop (kx_my c) = Inr (cprop, f1)" and "kex_buf2prop (kx_peer c) = Inr (sprop, f2)"
  shows "\<exists>s' sk' s'' ws'. kex_negotiate M (world.datafellows ws) s = Inr (s', sk') \<and>
    kex_derive_keys N M H s' hash secret ws = Inr (s'', ws') \<and>
    kx_name s' = kx_name c' \<and> kx_kex_type s' = kx_kex_type c' \<and> kx_hostkey_type s' = kx_hostkey_type c' \<and> kx_evp_md s' = kx_evp_md c' \<and>
    current_keys_out wc' = current_keys_in ws' \<and> current_keys_in wc' = current_keys_out ws' \<and> current_keys_out wc' \<noteq> None \<and>
    kx_name c' = find (\<lambda>p. p \<in> set (take MAX_PROP (names CHR '','' (Some (sprop ! PROPOSAL_KEX_ALGS)))))
      (names CHR '','' (Some (cprop ! PROPOSAL_KEX_ALGS)))"
proof -
  from both_settle [OF assms(1,2)] obtain ctos stoc k hk s' sk' where
    n: "kex_negotiate M (world.datafellows wc) s = Inr (s', sk')" and
    st: "settled False ctos stoc k hk c'" "settled True ctos stoc k hk s'" and
    e: "kx_session_id c' = kx_session_id s'" "kx_server c' = False" "kx_server s' = True" .
  have w: "kx_we_need c' = kx_we_need s'" "kx_evp_md c' = kx_evp_md s'" using st need_commute [of ctos stoc] by (simp_all add: settled_def)
  from assms(3) obtain keys where
    keys: "derive_all (\<lambda>x. derive_key N M H (world.datafellows wc) c' x (kx_we_need c') hash secret) [65, 66, 67, 68, 69, 70] = Inr keys"
    and wc': "wc' = wc\<lparr>current_keys_in := Some (keyed keys False stoc), current_keys_out := Some (keyed keys True ctos)\<rparr>"
    using st(1) e(2) by (auto simp: kex_derive_keys_def settled_def)
  have "derive_all (\<lambda>x. derive_key N M H (world.datafellows ws) s' x (kx_we_need s') hash secret) [65, 66, 67, 68, 69, 70] = Inr keys"
    using keys unfolding derive_key_cong [OF w(2) e(1)] w(1) assms(4) .
  then obtain s'' ws' where d: "kex_derive_keys N M H s' hash secret ws = Inr (s'', ws')"
      "current_keys_in ws' = Some (keyed keys True ctos)" "current_keys_out ws' = Some (keyed keys False stoc)"
    using st(2) e(3) by (auto simp: kex_derive_keys_def settled_def)
  have "kx_name c' = fst (match_list (cprop ! PROPOSAL_KEX_ALGS) (sprop ! PROPOSAL_KEX_ALGS))"
    using negotiate_name [OF assms(2) _ assms(5,6)] assms(1) by (simp add: mirrored_def)
  then show ?thesis using n d st wc' assms(4) by (auto simp: settled_def match_list_find)
qed

section \<open>Reading proposals\<close>

definition cstring_ok :: "byte list \<Rightarrow> bool" where
  "cstring_ok s \<longleftrightarrow> string_len_ok s \<and> 0 \<notin> set s"

definition proposal_enc :: "byte list \<Rightarrow> byte list list \<Rightarrow> byte \<Rightarrow> u32 \<Rightarrow> byte list" where
  "proposal_enc cookie ps follows reserved = cookie @ concat (map string_enc ps) @ [follows] @ put_u32 reserved"

lemma get_cstring_front:
  assumes "buffer_ok b" "cstring_ok s" "buffer_contents b = string_enc s @ r"
  shows "\<exists>b'. buffer_get_cstring b = Inr (s, b') \<and> buffer_ok b' \<and> buffer_contents b' = r"
proof -
  have "memchr 0 s = None" using assms(2) by (simp add: cstring_ok_def memchr_None)
  with string_ret_front [OF assms(1) _ assms(3)] assms(2) show ?thesis
    by (auto simp: cstring_ok_def buffer_get_cstring_def buffer_get_cstring_ret_def)
qed

lemma skip_chars_spec:
  "buffer_ok b \<Longrightarrow> buffer_contents b = c @ r \<Longrightarrow> \<exists>b'. skip_chars (length c) b = Inr b' \<and> buffer_ok b' \<and> buffer_contents b' = r"
proof (induction c arbitrary: b)
  case (Cons x c)
  from octet.get_law [OF Cons(2), of x "c @ r"] Cons(3) obtain b1 where
    "buffer_get_char b = Inr (x, b1)" "buffer_ok b1" "buffer_contents b1 = c @ r" by auto
  with Cons.IH [of b1] show ?case by simp
qed simp

lemma get_cstrings_spec:
  "buffer_ok b \<Longrightarrow> \<forall>s \<in> set ss. cstring_ok s \<Longrightarrow> buffer_contents b = concat (map string_enc ss) @ r \<Longrightarrow>
    \<exists>b'. get_cstrings (length ss) b = Inr (ss, b') \<and> buffer_ok b' \<and> buffer_contents b' = r"
proof (induction ss arbitrary: b)
  case (Cons s ss)
  have "cstring_ok s" and "buffer_contents b = string_enc s @ concat (map string_enc ss) @ r" using Cons(3,4) by simp_all
  from get_cstring_front [OF Cons(2) this] obtain b1 where
    "buffer_get_cstring b = Inr (s, b1)" "buffer_ok b1" "buffer_contents b1 = concat (map string_enc ss) @ r" by blast
  with Cons.IH [of b1] Cons(3) show ?case by auto
qed simp

lemma buf2prop_reads:
  assumes ok: "buffer_ok raw" and c: "buffer_contents raw = proposal_enc cookie ps follows reserved"
    and len: "length cookie = KEX_COOKIE_LEN" "length ps = PROPOSAL_MAX" "\<forall>s \<in> set ps. cstring_ok s"
    and small: "length (buffer_contents raw) \<le> 0x100000"
  shows "kex_buf2prop raw = Inr (map text_of ps, follows)"
proof -
  have ul: "unat (buffer_len raw) = length (buffer_contents raw)" using unat_buffer_len [OF ok] .
  obtain b0 where b0: "buffer_append buffer_init (buffer_ptr raw) (buffer_len raw) = Inr b0"
    using append_small [of buffer_init "buffer_len raw"] small ul by auto
  have "length (buffer_contents raw) \<le> length (buffer_ptr raw)" using contents_ptr [OF ok] ul by (metis length_take min.cobounded1 nat_le_linear)
  then have u: "unat (buffer_len raw) \<le> length (buffer_ptr raw)" using ul by simp
  have a: "buffer_ok b0" "buffer_contents b0 = cookie @ concat (map string_enc ps) @ [follows] @ put_u32 reserved"
    using append_spec [OF buffer_init_ok b0 u] unfolding contents_ptr [OF ok, symmetric] c proposal_enc_def contents_init by simp_all
  from skip_chars_spec [OF a] len(1) obtain b1 where
    b1: "skip_chars KEX_COOKIE_LEN b0 = Inr b1" "buffer_ok b1" "buffer_contents b1 = concat (map string_enc ps) @ [follows] @ put_u32 reserved"
    by metis
  from get_cstrings_spec [OF b1(2) len(3) b1(3)] len(2) obtain b2 where
    b2: "get_cstrings PROPOSAL_MAX b1 = Inr (ps, b2)" "buffer_ok b2" "buffer_contents b2 = [follows] @ put_u32 reserved"
    by metis
  from octet.get_law [OF b2(2), of follows] b2(3) obtain b3 where
    b3: "buffer_get_char b2 = Inr (follows, b3)" "buffer_ok b3" "buffer_contents b3 = put_u32 reserved" by auto
  from int32.get_law [OF b3(2), of reserved "[]"] b3(3) obtain b4 where "buffer_get_int b3 = Inr (reserved, b4)" by auto
  with b0 b1 b2 b3 show ?thesis by (simp add: kex_buf2prop_def)
qed

lemma text_of_bytes [simp]: "text_of (bytes_of s) = s"
proof -
  have "char_of (unat (of_nat (of_char c) :: byte)) = c" for c :: char
    by (simp add: unat_of_nat take_bit_nat_eq_self)
  then show ?thesis by (simp add: text_of_def bytes_of_def comp_def)
qed

text \<open>Two ends that agree on the second method the client names.\<close>

definition packed :: "byte list \<Rightarrow> buffer" where
  "packed d = \<lparr>b_buf = d @ [0], b_alloc = of_nat (Suc (length d)), b_offset = 0, b_end = of_nat (length d)\<rparr>"

lemma packed_ok: "length d < 0x100000 \<Longrightarrow> buffer_ok (packed d) \<and> buffer_contents (packed d) = d"
  by (simp add: packed_def buffer_ok_def buffer_contents_def unat_of_nat take_bit_nat_eq_self del: of_nat_Suc)

definition demo_client_proposal :: "string list" where
  "demo_client_proposal = [''ecdh-sha2-nistp256,diffie-hellman-group14-sha1'', ''ssh-rsa'', ''aes128-ctr'', ''aes128-ctr'',
     ''hmac-sha1'', ''hmac-sha1'', ''none'', ''zlib,none'', [], []]"

definition demo_server_proposal :: "string list" where
  "demo_server_proposal = [''diffie-hellman-group1-sha1,diffie-hellman-group14-sha1'', ''ssh-dss,ssh-rsa'', ''aes128-ctr'', ''aes128-ctr'',
     ''hmac-md5,hmac-sha1'', ''hmac-sha1'', ''none'', ''none'', [], []]"

definition demo_message :: "string list \<Rightarrow> buffer" where
  "demo_message ps = packed (proposal_enc (replicate 16 7) (map bytes_of ps) 0 0)"

definition demo_kex :: "bool \<Rightarrow> kex" where
  "demo_kex server = \<lparr>kx_session_id = [1, 2], kx_newkeys_in = None, kx_newkeys_out = None, kx_we_need = 0, kx_server = server, kx_name = None,
     kx_hostkey_type = KEY_UNSPEC, kx_kex_type = -1, kx_roaming = False,
     kx_my = demo_message (if server then demo_server_proposal else demo_client_proposal),
     kx_peer = demo_message (if server then demo_client_proposal else demo_server_proposal),
     kx_done = False, kx_flags = 0, kx_evp_md = None\<rparr>"

fun nat_bytes :: "nat \<Rightarrow> byte list" where
  "nat_bytes n = (if n = 0 then [] else nat_bytes (n div 256) @ [of_nat (n mod 256)])"

declare nat_bytes.simps [simp del]

definition bytes_nat :: "byte list \<Rightarrow> nat" where
  "bytes_nat bs = foldl (\<lambda>n b. n * 256 + unat b) 0 bs"

lemma bytes_nat_bytes: "bytes_nat (nat_bytes n) = n"
proof (induction n rule: nat_bytes.induct)
  case (1 n)
  then show ?case by (subst nat_bytes.simps) (simp add: bytes_nat_def unat_of_nat take_bit_nat_def)
qed

definition demo_bn :: "nat bn_lib" where
  "demo_bn = \<lparr>bn_num_bits = (\<lambda>v. 8 * int (length (nat_bytes v))), bn_bn2bin = nat_bytes, bn_bin2bn = (\<lambda>bs. Some (bytes_nat bs)),
     bn_is_zero = (\<lambda>v. v = 0), bn_neg = (\<lambda>v. False)\<rparr>"

lemma nat_bytes_Nil: "nat_bytes v = [] \<longleftrightarrow> v = 0"
  by (subst nat_bytes.simps) simp

lemma demo_bn_laws: "bn_laws demo_bn"
  unfolding bn_laws_def demo_bn_def
  by (intro conjI allI) (simp_all add: nat_bytes_Nil bytes_nat_bytes, simp add: bytes_nat_def)

lemma demo_five: "bn_bn2bin demo_bn 5 = [5]" "\<not> bn_neg demo_bn v"
  by (simp_all add: demo_bn_def nat_bytes.simps)

lemma demo_enc_length:
  "length (proposal_enc c (map bytes_of ps) f r) = length c + sum_list (map (\<lambda>p. 4 + length p) ps) + 5"
proof -
  have "length (concat (map string_enc (map bytes_of ps))) = sum_list (map (\<lambda>p. 4 + length p) ps)"
    by (induction ps) (simp_all add: string_enc_def bytes_of_def)
  then show ?thesis by (simp add: proposal_enc_def)
qed

lemma demo_message_spec:
  assumes "ps = demo_client_proposal \<or> ps = demo_server_proposal"
  shows "buffer_ok (demo_message ps)" and "kex_buf2prop (demo_message ps) = Inr (ps, 0)"
proof -
  have l: "length (proposal_enc (replicate 16 7) (map bytes_of ps) 0 0) < 0x100000"
    using assms by (auto simp: demo_enc_length demo_client_proposal_def demo_server_proposal_def)
  have c: "\<forall>s \<in> set (map bytes_of ps). cstring_ok s" "length ps = 10"
    using assms by (auto simp: demo_client_proposal_def demo_server_proposal_def cstring_ok_def string_len_ok_def bytes_of_def)
  note p = packed_ok [OF l]
  then show "buffer_ok (demo_message ps)" by (simp add: demo_message_def)
  have "kex_buf2prop (demo_message ps) = Inr (map text_of (map bytes_of ps), 0)"
    using p c l by (intro buf2prop_reads [of _ "replicate 16 7" _ 0 0]) (auto simp: demo_message_def)
  then show "kex_buf2prop (demo_message ps) = Inr (ps, 0)" by (simp add: comp_def)
qed

lemma demo_mirrored: "mirrored (demo_kex False) (demo_kex True)"
  using demo_message_spec(1) by (simp add: mirrored_def demo_kex_def)

lemma demo_choices:
  "fst (match_list (demo_client_proposal ! 0) (demo_server_proposal ! 0)) = Some ''diffie-hellman-group14-sha1''"
  "fst (match_list (demo_client_proposal ! 1) (demo_server_proposal ! 1)) = Some ''ssh-rsa''"
  "fst (match_list (demo_client_proposal ! 2) (demo_server_proposal ! 2)) = Some ''aes128-ctr''"
  "fst (match_list (demo_client_proposal ! 3) (demo_server_proposal ! 3)) = Some ''aes128-ctr''"
  "fst (match_list (demo_client_proposal ! 4) (demo_server_proposal ! 4)) = Some ''hmac-sha1''"
  "fst (match_list (demo_client_proposal ! 5) (demo_server_proposal ! 5)) = Some ''hmac-sha1''"
  "fst (match_list (demo_client_proposal ! 6) (demo_server_proposal ! 6)) = Some ''none''"
  "fst (match_list (demo_client_proposal ! 7) (demo_server_proposal ! 7)) = Some ''none''"
  by (simp_all add: match_list_find demo_client_proposal_def demo_server_proposal_def names.simps(2))

lemma demo_enc:
  "\<exists>e. choose_enc (demo_client_proposal ! 2) (demo_server_proposal ! 2) = Inr e \<and> choose_enc (demo_client_proposal ! 3) (demo_server_proposal ! 3) = Inr e \<and>
     enc_key_len e = 16 \<and> enc_block_size e = 16"
  by (simp add: choose_enc_def first_match_def demo_choices cipher_by_name_def ciphers_def cipher_keylen_def cipher_blocksize_def)

lemma demo_kex_mac:
  "\<exists>m. choose_mac zero_macs 0 (demo_client_proposal ! 4) (demo_server_proposal ! 4) = Inr m \<and>
     choose_mac zero_macs 0 (demo_client_proposal ! 5) (demo_server_proposal ! 5) = Inr m \<and> mac_key_len m = 20"
  by (simp add: choose_mac_def first_match_def demo_choices mac_setup_def macs_def mac_setup_by_id_def zero_macs_def zero_mac_def)

lemma demo_direction:
  "\<exists>nk. choose_direction zero_macs 0 ctos demo_client_proposal demo_server_proposal = Inr nk \<and>
     enc_key_len (nk_enc nk) = 16 \<and> enc_block_size (nk_enc nk) = 16 \<and> mac_key_len (nk_mac nk) = 20"
  using demo_enc demo_kex_mac
  by (cases ctos) (auto simp: choose_direction_def choose_comp_def first_match_def demo_choices)

lemma demo_negotiates:
  "\<exists>c'. kex_negotiate zero_macs 0 (demo_kex False) = Inr (c', False) \<and> kx_name c' = Some ''diffie-hellman-group14-sha1'' \<and>
     kx_evp_md c' = Some EVP_sha1 \<and> kx_we_need c' = 20 \<and> kx_newkeys_in c' \<noteq> None \<and> kx_newkeys_out c' \<noteq> None"
proof -
  obtain nki where i: "choose_direction zero_macs 0 False demo_client_proposal demo_server_proposal = Inr nki"
    "enc_key_len (nk_enc nki) = 16" "enc_block_size (nk_enc nki) = 16" "mac_key_len (nk_mac nki) = 20" using demo_direction by blast
  obtain nko where o: "choose_direction zero_macs 0 True demo_client_proposal demo_server_proposal = Inr nko"
    "enc_key_len (nk_enc nko) = 16" "enc_block_size (nk_enc nko) = 16" "mac_key_len (nk_mac nko) = 20" using demo_direction by blast
  have k: "\<exists>t. choose_kex (demo_client_proposal ! 0) (demo_server_proposal ! 0) = Inr (''diffie-hellman-group14-sha1'', t, EVP_sha1)"
    by (simp add: choose_kex_def first_match_def demo_choices)
  have h: "\<exists>hk. choose_hostkeyalg (demo_client_proposal ! 1) (demo_server_proposal ! 1) = Inr hk"
    unfolding choose_hostkeyalg_def first_match_def demo_choices option.case rbind_simps by (simp add: key_type_from_name_def)
  have p: "kex_buf2prop (kx_my (demo_kex False)) = Inr (demo_client_proposal, 0)"
    "kex_buf2prop (kx_peer (demo_kex False)) = Inr (demo_server_proposal, 0)" "\<not> kx_server (demo_kex False)"
    using demo_message_spec(2) by (simp_all add: demo_kex_def)
  have n: "need_of nko (need_of nki 0) = 20" using i o by (simp add: need_of_def)
  obtain t where t: "choose_kex (demo_client_proposal ! 0) (demo_server_proposal ! 0) = Inr (''diffie-hellman-group14-sha1'', t, EVP_sha1)" using k by blast
  obtain hk where hk: "choose_hostkeyalg (demo_client_proposal ! 1) (demo_server_proposal ! 1) = Inr hk" using h by blast
  have r: "\<not> kx_server (note_roaming demo_server_proposal (demo_kex False))" by (simp add: note_roaming_def demo_kex_def)
  show ?thesis unfolding kex_negotiate_def p rbind_simps split kex_settle_def using r p(3) i(1) o(1) t hk n by simp
qed

definition demo_digest :: digest where
  "demo_digest md bs = replicate 20 (sum_list bs)"

lemma put_bignum2_succeeds:
  assumes laws: "bn_laws N" and v: "\<not> bn_neg N v" "length (bn_bn2bin N v) < 8 * 1024"
  shows "\<exists>b. buffer_put_bignum2 N buffer_init v = Inr b"
proof -
  let ?bin = "bn_bn2bin N v"
  have i: "buffer_ok buffer_init" "buffer_contents buffer_init = []" by simp_all
  have put: "\<exists>b. buffer_put_string buffer_init s (of_nat (length s)) = Inr b" if "length s \<le> 8 * 1024" for s
  proof -
    obtain b1 where b1: "buffer_append buffer_init (put_u32 (of_nat (length s))) 4 = Inr b1" "buffer_ok b1"
        "buffer_contents b1 = put_u32 (of_nat (length s))"
      using append_ok [OF i(1), of "put_u32 (of_nat (length s))" 4] i(2) by auto
    have "length (buffer_contents b1) + length s \<le> 0x100000" using that b1(3) by simp
    moreover have "length s = unat (of_nat (length s) :: u32)" using that by (simp add: unat_of_nat take_bit_nat_eq_self)
    ultimately obtain b2 where "buffer_append b1 s (of_nat (length s)) = Inr b2" using append_ok [OF b1(2)] by blast
    with b1(1) show ?thesis by (simp add: buffer_put_string_def buffer_put_int_def)
  qed
  have bits: "int (length ?bin) = (bn_num_bits N v + 7) div 8" using laws by (simp add: bn_laws_def)
  have z: "bn_is_zero N v \<longleftrightarrow> ?bin = []" using laws by (simp add: bn_laws_def)
  have z0: "\<exists>b. buffer_put_int buffer_init 0 = Inr b"
    using append_ok [OF i(1), of "put_u32 0" 4] i(2) by (auto simp: buffer_put_int_def)
  show ?thesis
  proof (cases "?bin = []")
    case True
    then show ?thesis using z0 z by (auto simp: buffer_put_bignum2_def buffer_put_bignum2_ret_def)
  next
    case False
    let ?n = "if bit (hd ?bin) 7 then 0 else 1 :: nat"
    have s: "drop ?n (0 # ?bin) = mpint ?bin" using False by (simp add: mpint_def)
    have l: "word_of_int ((bn_num_bits N v + 7) div 8 + 1) - of_nat ?n = (of_nat (length (mpint ?bin)) :: u32)"
      using False unfolding bits [symmetric] by (auto simp: mpint_def)
    have "length (mpint ?bin) \<le> 8 * 1024" using v(2) by (simp add: mpint_def)
    then obtain b where "buffer_put_string buffer_init (mpint ?bin) (of_nat (length (mpint ?bin))) = Inr b" using put by blast
    then show ?thesis using False z v(1) s l unfolding buffer_put_bignum2_def buffer_put_bignum2_ret_def bits [symmetric] Let_def
      by simp
  qed
qed

lemma expand_enough: "\<not> need > have \<Longrightarrow> expand_key n md sz p need have d = Inr d"
  by (cases n) simp_all

lemma derive_all_Inr: "(\<And>x. \<exists>k. f x = Inr k) \<Longrightarrow> \<exists>ks. derive_all f cs = Inr ks"
proof (induction cs)
  case (Cons c cs)
  then obtain k ks where "f c = Inr k" "derive_all f cs = Inr ks" by blast
  then show ?case by simp
qed simp

lemma demo_derives:
  assumes "kx_evp_md c = Some EVP_sha1" "kx_we_need c = 20" "kx_newkeys_in c \<noteq> None" "kx_newkeys_out c \<noteq> None"
  shows "\<exists>c' w'. kex_derive_keys demo_bn zero_macs demo_digest c [9] 5 demo_world = Inr (c', w')"
proof -
  have "\<exists>k. derive_key demo_bn zero_macs demo_digest f c x 20 [9] 5 = Inr k" for f x
    using put_bignum2_succeeds [OF demo_bn_laws, of 5] assms by (auto simp: demo_five derive_key_def zero_macs_def roundup_def expand_enough Let_def)
  from derive_all_Inr [of "\<lambda>x. derive_key demo_bn zero_macs demo_digest (world.datafellows demo_world) c x 20 [9] 5", OF this]
  show ?thesis unfolding kex_derive_keys_def using assms by (auto simp del: derive_all.simps)
qed

theorem kex_keys_agree_witness:
  "\<exists>c' sk c'' wc' s' sk' s'' ws'. kex_negotiate zero_macs 0 (demo_kex False) = Inr (c', sk) \<and>
     kex_derive_keys demo_bn zero_macs demo_digest c' [9] 5 demo_world = Inr (c'', wc') \<and>
     kex_negotiate zero_macs 0 (demo_kex True) = Inr (s', sk') \<and>
     kex_derive_keys demo_bn zero_macs demo_digest s' [9] 5 demo_world = Inr (s'', ws') \<and>
     kx_name s' = Some ''diffie-hellman-group14-sha1'' \<and> current_keys_out wc' = current_keys_in ws' \<and> current_keys_out wc' \<noteq> None"
proof -
  have f: "world.datafellows demo_world = 0"
    by (simp add: demo_world_def start_world_def session_state.extend_def world.fields_def alloc_session_state_def)
  have p: "kex_buf2prop (kx_my (demo_kex False)) = Inr (demo_client_proposal, 0)"
    "kex_buf2prop (kx_peer (demo_kex False)) = Inr (demo_server_proposal, 0)"
    using demo_message_spec(2) by (simp_all add: demo_kex_def)
  obtain c' where c: "kex_negotiate zero_macs 0 (demo_kex False) = Inr (c', False)" "kx_name c' = Some ''diffie-hellman-group14-sha1''"
      "kx_evp_md c' = Some EVP_sha1" "kx_we_need c' = 20" "kx_newkeys_in c' \<noteq> None" "kx_newkeys_out c' \<noteq> None"
    using demo_negotiates by blast
  from demo_derives [OF c(3-6)] obtain c'' wc' where d: "kex_derive_keys demo_bn zero_macs demo_digest c' [9] 5 demo_world = Inr (c'', wc')"
    by blast
  from kex_keys_agree [OF demo_mirrored c(1) [folded f] d refl p] c(1,2) d show ?thesis unfolding f by metis
qed

section \<open>Key material\<close>

text \<open>Section 7.2 of RFC 4253: the first block is a hash of \<open>K\<close>, \<open>H\<close>, a letter and the session identifier, each
  further one of \<open>K\<close>, \<open>H\<close> and all blocks before it.\<close>

primrec key_stream :: "(byte list \<Rightarrow> byte list) \<Rightarrow> byte list \<Rightarrow> byte list \<Rightarrow> nat \<Rightarrow> byte list" where
  "key_stream h p x 0 = h (p @ x)"
| "key_stream h p x (Suc n) = key_stream h p x n @ h (p @ key_stream h p x n)"

lemma key_stream_numeral: "key_stream h p x (numeral n) = key_stream h p x (pred_numeral n) @ h (p @ key_stream h p x (pred_numeral n))"
  by (simp add: numeral_eq_Suc)

lemma key_stream_length: "(\<And>y. length (h y) = m) \<Longrightarrow> length (key_stream h p x n) = Suc n * m"
  by (induction n) simp_all

lemma expand_key_stream:
  assumes h: "\<And>y. length (h y) = m" and m: "0 < m" "unat need + m < 2 ^ 32" and nd: "0 < unat need"
    and "unat have = Suc i * m" and "i + j = (unat need - 1) div m" and "j \<le> fuel"
  shows "expand_key fuel h (of_nat m) p need have (key_stream h p x i) = Inr (key_stream h p x ((unat need - 1) div m))"
  using assms(5-7)
proof (induction fuel arbitrary: i j "have")
  case 0
  then have "unat need - 1 < unat have" using dividend_less_div_times [OF m(1), of "unat need - 1"] by simp
  then have "\<not> need > have" by (simp add: word_less_nat_alt)
  then show ?case using 0 by (simp add: expand_enough)
next
  case (Suc fuel)
  show ?case
  proof (cases j)
    case 0
    then have "unat need - 1 < unat have" using Suc.prems dividend_less_div_times [OF m(1), of "unat need - 1"] by simp
    then have "\<not> need > have" by (simp add: word_less_nat_alt)
    then show ?thesis using Suc.prems 0 by (simp add: expand_enough)
  next
    case (Suc j')
    have "Suc i * m \<le> (unat need - 1) div m * m" using Suc Suc.prems(2) by (intro mult_le_mono1) simp
    also have "\<dots> \<le> unat need - 1" by (rule div_times_less_eq_dividend)
    finally have lt: "unat have < unat need" using Suc.prems(1) nd by simp
    have sz: "unat (of_nat m :: u32) = m" using m(2) by (simp add: unat_of_nat take_bit_nat_eq_self)
    have u: "unat (have + of_nat m) = Suc (Suc i) * m" using unat_add_small [of "have" "of_nat m"] sz lt m(2) Suc.prems(1) by simp
    have t: "take (unat have) (key_stream h p x i) = key_stream h p x i"
      using key_stream_length [OF h] Suc.prems(1) by simp
    have "expand_key fuel h (of_nat m) p need (have + of_nat m) (key_stream h p x (Suc i)) =
        Inr (key_stream h p x ((unat need - 1) div m))"
      using Suc.IH [OF u, of j'] Suc Suc.prems by simp
    then show ?thesis using lt t by (simp add: word_less_nat_alt)
  qed
qed

lemma unat_roundup_u32:
  assumes "0 < m" "0 < unat need" "unat need + m < 2 ^ 32"
  shows "unat (roundup need (of_nat m)) = Suc ((unat need - 1) div m) * m"
proof -
  have sz: "unat (of_nat m :: u32) = m" using assms(3) by (simp add: unat_of_nat take_bit_nat_eq_self)
  have one: "unat (of_nat m - 1 :: u32) = m - 1" using unat_sub_small [of 1 "of_nat m :: u32"] sz assms(1) by simp
  have q: "(unat need + (m - 1)) div m = Suc ((unat need - 1) div m)"
  proof -
    have e: "unat need + (m - 1) = unat need - 1 + m" using assms(1,2) by simp
    show ?thesis unfolding e using assms(1) by (simp only: div_add_self2 [OF gr_implies_not0] Suc_eq_plus1)
  qed
  have a: "unat (need + (of_nat m - 1)) = unat need + (m - 1)" using unat_add_small [of need "of_nat m - 1"] one assms by simp
  have lt: "Suc ((unat need - 1) div m) * m \<le> unat need + (m - 1)" using q div_times_less_eq_dividend [of "unat need + (m - 1)" m] by simp
  have d: "unat ((need + (of_nat m - 1)) div of_nat m) = Suc ((unat need - 1) div m)" unfolding unat_div a sz q ..
  have "unat ((need + (of_nat m - 1)) div of_nat m) * unat (of_nat m :: u32) < 2 ^ LENGTH(32)"
    unfolding d sz using lt assms by simp
  then have "unat ((need + (of_nat m - 1)) div of_nat m * of_nat m) =
      unat ((need + (of_nat m - 1)) div of_nat m) * unat (of_nat m :: u32)" unfolding unat_mult_lem .
  then show ?thesis unfolding roundup_def d sz .
qed



text \<open>During a key exchange every message of the transport layer is an error, but the start of the next exchange.\<close>

lemma reset_dispatch_spec:
  assumes "length t = DISPATCH_MAX"
  shows "\<exists>t'. kex_reset_dispatch t = Inr t' \<and> length t' = DISPATCH_MAX \<and>
    (\<forall>j < DISPATCH_MAX. t' ! j = (if j = 20 then Some Kex_input_kexinit else if 1 \<le> j \<and> j \<le> 49 then Some Kex_protocol_error else t ! j))"
proof -
  let ?t = "dispatch_range SSH2_MSG_TRANSPORT_MIN SSH2_MSG_TRANSPORT_MAX (Some Kex_protocol_error) t"
  have "length ?t = DISPATCH_MAX" using dispatch_range_spec(1) [OF assms, of 0] by simp
  moreover have "?t ! j = (if 1 \<le> j \<and> j \<le> 49 then Some Kex_protocol_error else t ! j)" if "j < DISPATCH_MAX" for j
    using dispatch_range_spec(2) [OF assms that] by simp
  ultimately show ?thesis by (simp add: kex_reset_dispatch_def dispatch_set_def nth_list_update)
qed

end
