(* ===== verification/SftpAttr.thy ===== *)
theory SftpAttr
  imports Bufaux
begin

unbundle bit_operations_syntax

text \<open>
  File attributes of the file transfer protocol, \<open>sftp-common.c\<close>: the conversions from and to \<open>struct stat\<close> and
  the encoding in a buffer. Of \<open>struct stat\<close> the fields that the code reads and writes are kept, sizes and times
  as 64 bits. The printed form of a directory entry (\<open>ls_file\<close>) depends on the locale and is left out.
\<close>

section \<open>Data\<close>

record Attrib =
  at_flags :: u32
  at_size :: u64
  at_uid :: u32
  at_gid :: u32
  at_perm :: u32
  at_atime :: u32
  at_mtime :: u32

record stat =
  fs_size :: u64
  fs_uid :: u32
  fs_gid :: u32
  fs_mode :: u32
  fs_atime :: u64
  fs_mtime :: u64

abbreviation ATTR_SIZE :: u32 where "ATTR_SIZE \<equiv> 0x00000001"
abbreviation ATTR_UIDGID :: u32 where "ATTR_UIDGID \<equiv> 0x00000002"
abbreviation ATTR_PERMISSIONS :: u32 where "ATTR_PERMISSIONS \<equiv> 0x00000004"
abbreviation ATTR_ACMODTIME :: u32 where "ATTR_ACMODTIME \<equiv> 0x00000008"
abbreviation ATTR_EXTENDED :: u32 where "ATTR_EXTENDED \<equiv> 0x80000000"

definition has_attr :: "u32 \<Rightarrow> u32 \<Rightarrow> bool" where
  "has_attr f flags \<longleftrightarrow> flags AND f \<noteq> 0"

section \<open>Operations\<close>

definition attrib_clear :: "Attrib \<Rightarrow> Attrib" where
  "attrib_clear a = a\<lparr>at_flags := 0, at_size := 0, at_uid := 0, at_gid := 0, at_perm := 0, at_atime := 0, at_mtime := 0\<rparr>"

definition stat_to_attrib :: "stat \<Rightarrow> Attrib \<Rightarrow> Attrib" where
  "stat_to_attrib st a =
     (attrib_clear a)\<lparr>at_flags := ((ATTR_SIZE OR ATTR_UIDGID) OR ATTR_PERMISSIONS) OR ATTR_ACMODTIME,
        at_size := fs_size st, at_uid := fs_uid st, at_gid := fs_gid st, at_perm := fs_mode st,
        at_atime := ucast (fs_atime st), at_mtime := ucast (fs_mtime st)\<rparr>"

definition attrib_to_stat :: "Attrib \<Rightarrow> stat" where
  "attrib_to_stat a =
     (let st = \<lparr>fs_size = 0, fs_uid = 0, fs_gid = 0, fs_mode = 0, fs_atime = 0, fs_mtime = 0\<rparr>;
          st = (if has_attr ATTR_SIZE (at_flags a) then st\<lparr>fs_size := at_size a\<rparr> else st);
          st = (if has_attr ATTR_UIDGID (at_flags a) then st\<lparr>fs_uid := at_uid a, fs_gid := at_gid a\<rparr> else st);
          st = (if has_attr ATTR_PERMISSIONS (at_flags a) then st\<lparr>fs_mode := at_perm a\<rparr> else st)
      in if has_attr ATTR_ACMODTIME (at_flags a) then st\<lparr>fs_atime := ucast (at_atime a), fs_mtime := ucast (at_mtime a)\<rparr> else st)"

text \<open>A field that is only there if its flag is set; the fields of the result were cleared before.\<close>

definition get_if :: "bool \<Rightarrow> (buffer \<Rightarrow> ('a :: zero \<times> buffer) result) \<Rightarrow> buffer \<Rightarrow> ('a \<times> buffer) result" where
  "get_if c get b = (if c then get b else Inr (0, b))"

definition put_if :: "bool \<Rightarrow> (buffer \<Rightarrow> 'a \<Rightarrow> buffer result) \<Rightarrow> buffer \<Rightarrow> 'a \<Rightarrow> buffer result" where
  "put_if c put b v = (if c then put b v else Inr b)"

fun skip_extensions :: "nat \<Rightarrow> buffer \<Rightarrow> buffer result" where
  "skip_extensions 0 b = Inr b"
| "skip_extensions (Suc count) b =
     rbind (buffer_get_string b) (\<lambda>(type, b). rbind (buffer_get_string b) (\<lambda>(data, b). skip_extensions count b))"

definition decode_attrib :: "buffer \<Rightarrow> (Attrib \<times> buffer) result" where
  "decode_attrib b =
     rbind (buffer_get_int b) (\<lambda>(flags, b).
     rbind (get_if (has_attr ATTR_SIZE flags) buffer_get_int64 b) (\<lambda>(size, b).
     rbind (get_if (has_attr ATTR_UIDGID flags) buffer_get_int b) (\<lambda>(uid, b).
     rbind (get_if (has_attr ATTR_UIDGID flags) buffer_get_int b) (\<lambda>(gid, b).
     rbind (get_if (has_attr ATTR_PERMISSIONS flags) buffer_get_int b) (\<lambda>(perm, b).
     rbind (get_if (has_attr ATTR_ACMODTIME flags) buffer_get_int b) (\<lambda>(atime, b).
     rbind (get_if (has_attr ATTR_ACMODTIME flags) buffer_get_int b) (\<lambda>(mtime, b).
     rbind (if has_attr ATTR_EXTENDED flags
            then rbind (buffer_get_int b) (\<lambda>(count, b). skip_extensions (nat (sint count)) b)
            else Inr b) (\<lambda>b.
       Inr (\<lparr>at_flags = flags, at_size = size, at_uid = uid, at_gid = gid, at_perm = perm, at_atime = atime, at_mtime = mtime\<rparr>, b)))))))))"

definition encode_attrib :: "buffer \<Rightarrow> Attrib \<Rightarrow> buffer result" where
  "encode_attrib b a =
     rbind (buffer_put_int b (at_flags a)) (\<lambda>b.
     rbind (put_if (has_attr ATTR_SIZE (at_flags a)) buffer_put_int64 b (at_size a)) (\<lambda>b.
     rbind (put_if (has_attr ATTR_UIDGID (at_flags a)) buffer_put_int b (at_uid a)) (\<lambda>b.
     rbind (put_if (has_attr ATTR_UIDGID (at_flags a)) buffer_put_int b (at_gid a)) (\<lambda>b.
     rbind (put_if (has_attr ATTR_PERMISSIONS (at_flags a)) buffer_put_int b (at_perm a)) (\<lambda>b.
     rbind (put_if (has_attr ATTR_ACMODTIME (at_flags a)) buffer_put_int b (at_atime a)) (\<lambda>b.
       put_if (has_attr ATTR_ACMODTIME (at_flags a)) buffer_put_int b (at_mtime a)))))))"

section \<open>Optional fields\<close>

definition field :: "bool \<Rightarrow> byte list \<Rightarrow> byte list" where
  "field c bs = (if c then bs else [])"

context wire_codec
begin

lemma put_if_law:
  assumes "buffer_ok b" "valid v" "put_if c put b v = Inr b'"
  shows "buffer_ok b' \<and> buffer_contents b' = buffer_contents b @ field c (enc v)"
  using put_law [OF assms(1,2)] assms(1,3) by (cases c) (simp_all add: put_if_def field_def)

end

lemma get_if_int:
  assumes "buffer_ok b" "buffer_contents b = field c (put_u32 v) @ r" "\<not> c \<longrightarrow> v = 0"
  shows "\<exists>b'. get_if c buffer_get_int b = Inr (v, b') \<and> buffer_ok b' \<and> buffer_contents b' = r"
  using int32.get_law [OF assms(1), of v r] assms by (cases c) (simp_all add: get_if_def field_def)

lemma get_if_int64:
  assumes "buffer_ok b" "buffer_contents b = field c (put_u64 v) @ r" "\<not> c \<longrightarrow> v = 0"
  shows "\<exists>b'. get_if c buffer_get_int64 b = Inr (v, b') \<and> buffer_ok b' \<and> buffer_contents b' = r"
  using int64.get_law [OF assms(1), of v r] assms by (cases c) (simp_all add: get_if_def field_def)

section \<open>The codec\<close>

text \<open>Attributes that the encoding can carry: no extensions, and fields without their flag are clear.\<close>

definition attrib_valid :: "Attrib \<Rightarrow> bool" where
  "attrib_valid a \<longleftrightarrow> \<not> has_attr ATTR_EXTENDED (at_flags a) \<and>
     (\<not> has_attr ATTR_SIZE (at_flags a) \<longrightarrow> at_size a = 0) \<and>
     (\<not> has_attr ATTR_UIDGID (at_flags a) \<longrightarrow> at_uid a = 0 \<and> at_gid a = 0) \<and>
     (\<not> has_attr ATTR_PERMISSIONS (at_flags a) \<longrightarrow> at_perm a = 0) \<and>
     (\<not> has_attr ATTR_ACMODTIME (at_flags a) \<longrightarrow> at_atime a = 0 \<and> at_mtime a = 0)"

definition attrib_enc :: "Attrib \<Rightarrow> byte list" where
  "attrib_enc a = put_u32 (at_flags a) @ field (has_attr ATTR_SIZE (at_flags a)) (put_u64 (at_size a)) @
     field (has_attr ATTR_UIDGID (at_flags a)) (put_u32 (at_uid a)) @ field (has_attr ATTR_UIDGID (at_flags a)) (put_u32 (at_gid a)) @
     field (has_attr ATTR_PERMISSIONS (at_flags a)) (put_u32 (at_perm a)) @
     field (has_attr ATTR_ACMODTIME (at_flags a)) (put_u32 (at_atime a)) @ field (has_attr ATTR_ACMODTIME (at_flags a)) (put_u32 (at_mtime a))"

lemma encode_attrib_spec:
  assumes ok: "buffer_ok b" and e: "encode_attrib b a = Inr b'"
  shows "buffer_ok b' \<and> buffer_contents b' = buffer_contents b @ attrib_enc a"
proof -
  from e obtain b1 b2 b3 b4 b5 b6 where
    p: "buffer_put_int b (at_flags a) = Inr b1" "put_if (has_attr ATTR_SIZE (at_flags a)) buffer_put_int64 b1 (at_size a) = Inr b2"
      "put_if (has_attr ATTR_UIDGID (at_flags a)) buffer_put_int b2 (at_uid a) = Inr b3"
      "put_if (has_attr ATTR_UIDGID (at_flags a)) buffer_put_int b3 (at_gid a) = Inr b4"
      "put_if (has_attr ATTR_PERMISSIONS (at_flags a)) buffer_put_int b4 (at_perm a) = Inr b5"
      "put_if (has_attr ATTR_ACMODTIME (at_flags a)) buffer_put_int b5 (at_atime a) = Inr b6"
      "put_if (has_attr ATTR_ACMODTIME (at_flags a)) buffer_put_int b6 (at_mtime a) = Inr b'"
    unfolding encode_attrib_def rbind_eq_Inr by blast
  note 1 = int32.put_law [OF ok TrueI p(1)]
  note 2 = int64.put_if_law [OF conjunct1 [OF 1] TrueI p(2)]
  note 3 = int32.put_if_law [OF conjunct1 [OF 2] TrueI p(3)]
  note 4 = int32.put_if_law [OF conjunct1 [OF 3] TrueI p(4)]
  note 5 = int32.put_if_law [OF conjunct1 [OF 4] TrueI p(5)]
  note 6 = int32.put_if_law [OF conjunct1 [OF 5] TrueI p(6)]
  note 7 = int32.put_if_law [OF conjunct1 [OF 6] TrueI p(7)]
  show ?thesis using 1 2 3 4 5 6 7 by (simp add: attrib_enc_def)
qed

lemma decode_attrib_front:
  assumes ok: "buffer_ok b" and v: "attrib_valid a" and c: "buffer_contents b = attrib_enc a @ r"
  shows "\<exists>b'. decode_attrib b = Inr (a, b') \<and> buffer_ok b' \<and> buffer_contents b' = r"
proof -
  let ?f = "\<lambda>f. has_attr f (at_flags a)"
  note v' = v [unfolded attrib_valid_def]
  from int32.get_law [OF ok TrueI c [unfolded attrib_enc_def append_assoc]] obtain b1 where
    1: "buffer_get_int b = Inr (at_flags a, b1)" "buffer_ok b1"
      "buffer_contents b1 = field (?f ATTR_SIZE) (put_u64 (at_size a)) @ field (?f ATTR_UIDGID) (put_u32 (at_uid a)) @
         field (?f ATTR_UIDGID) (put_u32 (at_gid a)) @ field (?f ATTR_PERMISSIONS) (put_u32 (at_perm a)) @
         field (?f ATTR_ACMODTIME) (put_u32 (at_atime a)) @ field (?f ATTR_ACMODTIME) (put_u32 (at_mtime a)) @ r" by blast
  from get_if_int64 [OF 1(2,3)] v' obtain b2 where 2: "get_if (?f ATTR_SIZE) buffer_get_int64 b1 = Inr (at_size a, b2)" "buffer_ok b2"
    "buffer_contents b2 = field (?f ATTR_UIDGID) (put_u32 (at_uid a)) @
         field (?f ATTR_UIDGID) (put_u32 (at_gid a)) @ field (?f ATTR_PERMISSIONS) (put_u32 (at_perm a)) @
         field (?f ATTR_ACMODTIME) (put_u32 (at_atime a)) @ field (?f ATTR_ACMODTIME) (put_u32 (at_mtime a)) @ r" by blast
  from get_if_int [OF 2(2,3)] v' obtain b3 where 3: "get_if (?f ATTR_UIDGID) buffer_get_int b2 = Inr (at_uid a, b3)" "buffer_ok b3"
    "buffer_contents b3 = field (?f ATTR_UIDGID) (put_u32 (at_gid a)) @ field (?f ATTR_PERMISSIONS) (put_u32 (at_perm a)) @
         field (?f ATTR_ACMODTIME) (put_u32 (at_atime a)) @ field (?f ATTR_ACMODTIME) (put_u32 (at_mtime a)) @ r" by blast
  from get_if_int [OF 3(2,3)] v' obtain b4 where 4: "get_if (?f ATTR_UIDGID) buffer_get_int b3 = Inr (at_gid a, b4)" "buffer_ok b4"
    "buffer_contents b4 = field (?f ATTR_PERMISSIONS) (put_u32 (at_perm a)) @
         field (?f ATTR_ACMODTIME) (put_u32 (at_atime a)) @ field (?f ATTR_ACMODTIME) (put_u32 (at_mtime a)) @ r" by blast
  from get_if_int [OF 4(2,3)] v' obtain b5 where 5: "get_if (?f ATTR_PERMISSIONS) buffer_get_int b4 = Inr (at_perm a, b5)" "buffer_ok b5"
    "buffer_contents b5 = field (?f ATTR_ACMODTIME) (put_u32 (at_atime a)) @ field (?f ATTR_ACMODTIME) (put_u32 (at_mtime a)) @ r" by blast
  from get_if_int [OF 5(2,3)] v' obtain b6 where 6: "get_if (?f ATTR_ACMODTIME) buffer_get_int b5 = Inr (at_atime a, b6)" "buffer_ok b6"
    "buffer_contents b6 = field (?f ATTR_ACMODTIME) (put_u32 (at_mtime a)) @ r" by blast
  from get_if_int [OF 6(2,3)] v' obtain b7 where 7: "get_if (?f ATTR_ACMODTIME) buffer_get_int b6 = Inr (at_mtime a, b7)" "buffer_ok b7"
    "buffer_contents b7 = r" by blast
  have "decode_attrib b = Inr (a, b7)"
    unfolding decode_attrib_def 1(1) 2(1) 3(1) 4(1) 5(1) 6(1) 7(1) rbind_simps split using v' by simp
  with 7 show ?thesis by blast
qed

interpretation attr: wire_codec attrib_valid attrib_enc encode_attrib decode_attrib
  by unfold_locales (use encode_attrib_spec decode_attrib_front in \<open>blast+\<close>)

text \<open>C27: What the file server reports of a file arrives: \<open>struct stat\<close>, turned into attributes, encoded, decoded at the
  other end and turned back, is the same up to the upper halves of the two times, which the protocol does
  not carry; the buffer is used up.\<close>

theorem stat_crosses_wire:
  assumes "buffer_ok b" "buffer_contents b = []" "encode_attrib b (stat_to_attrib st a0) = Inr b'"
  shows "\<exists>a b''. decode_attrib b' = Inr (a, b'') \<and> buffer_contents b'' = [] \<and>
    attrib_to_stat a = st\<lparr>fs_atime := fs_atime st AND 0xFFFFFFFF, fs_mtime := fs_mtime st AND 0xFFFFFFFF\<rparr>"
proof -
  have m: "(0xFFFFFFFF :: u64) = mask 32" by (simp add: mask_eq_exp_minus_1)
  have low: "ucast (ucast x :: u32) = x AND (0xFFFFFFFF :: u64)" for x :: u64
    unfolding m by (intro bit_word_eqI) (auto simp: bit_simps)
  have "attrib_valid (stat_to_attrib st a0)" by (simp add: attrib_valid_def stat_to_attrib_def has_attr_def)
  from attr.put_get [OF assms(1) this assms(2,3)] show ?thesis
    by (auto simp: attrib_to_stat_def stat_to_attrib_def has_attr_def attrib_clear_def low)
qed

text \<open>Attributes with the flag of extensions are written without a count, and what reads them fails.\<close>

lemma extensions_unreadable:
  assumes ok: "buffer_ok b" and e: "buffer_contents b = []" "encode_attrib b a = Inr b'" and f: "at_flags a = ATTR_EXTENDED"
  shows "decode_attrib b' = Inl (Fatal ''buffer_get_int: buffer error'')"
proof -
  have b': "buffer_ok b'" "buffer_contents b' = put_u32 (at_flags a) @ []"
    using encode_attrib_spec [OF ok e(2)] e(1) f by (simp_all add: attrib_enc_def field_def has_attr_def)
  from int32.get_law [OF b'(1) TrueI b'(2)] obtain b1 where
    b1: "buffer_get_int b' = Inr (at_flags a, b1)" "buffer_ok b1" "buffer_contents b1 = []" by blast
  have "buffer_get_int b1 = Inl (Fatal ''buffer_get_int: buffer error'')"
    using get_ret_spec [OF b1(2), of 4] b1(3) by (simp add: buffer_get_int_def buffer_get_int_ret_def)
  then show ?thesis using b1(1) f by (simp add: decode_attrib_def get_if_def has_attr_def)
qed

definition demo_space :: buffer where
  "demo_space = \<lparr>b_buf = replicate 64 0, b_alloc = 64, b_offset = 0, b_end = 0\<rparr>"

definition demo_stat :: stat where
  "demo_stat = \<lparr>fs_size = 4096, fs_uid = 0, fs_gid = 5, fs_mode = 493, fs_atime = 0x100000001, fs_mtime = 7\<rparr>"

lemma demo_encodes: "\<exists>b'. encode_attrib demo_space (stat_to_attrib demo_stat (Attrib.fields 0 0 0 0 0 0 0)) = Inr b'"
  by (simp add: encode_attrib_def stat_to_attrib_def attrib_clear_def demo_stat_def demo_space_def has_attr_def put_if_def
    buffer_put_int_def buffer_put_int64_def buffer_append_def buffer_append_space_def buffer_rewind_def numeral_3_eq_3
    append_restart.simps(2))

theorem stat_crosses_wire_witness:
  "\<exists>b' a b''. encode_attrib demo_space (stat_to_attrib demo_stat (Attrib.fields 0 0 0 0 0 0 0)) = Inr b' \<and>
     decode_attrib b' = Inr (a, b'') \<and> fs_atime (attrib_to_stat a) = 1 \<and> fs_mode (attrib_to_stat a) = 493"
proof -
  obtain b' where e: "encode_attrib demo_space (stat_to_attrib demo_stat (Attrib.fields 0 0 0 0 0 0 0)) = Inr b'" using demo_encodes by blast
  have "buffer_ok demo_space" "buffer_contents demo_space = []"
    by (simp_all add: demo_space_def buffer_ok_def buffer_contents_def)
  from stat_crosses_wire [OF this e] e show ?thesis by (auto simp: demo_stat_def)
qed

end
