(* ===== verification/Base64.thy ===== *)
theory Base64
  imports Wire
begin

unbundle bit_operations_syntax

text \<open>
  Binary data as text: \<open>openbsd-compat/base64.c\<close> and \<open>uuencode.c\<close>, which keys are stored with. Characters are
  bytes; a C string is the list of its bytes without the NUL, and a target array a list of its size. The
  result is the one of the code, -1 for an error, together with the array as it was left.
\<close>

section \<open>Encoding\<close>

definition Base64_table :: "byte list" where
  "Base64_table = map (of_nat \<circ> of_char) ''ABCDEFGHIJKLMNOPQRSTUVWXYZabcdefghijklmnopqrstuvwxyz0123456789+/''"

abbreviation Pad64 :: byte where "Pad64 \<equiv> 61"

definition out0 :: "byte \<Rightarrow> byte" where "out0 a = drop_bit 2 a"
definition out1 :: "byte \<Rightarrow> byte \<Rightarrow> byte" where "out1 a b = push_bit 4 (a AND 3) + drop_bit 4 b"
definition out2 :: "byte \<Rightarrow> byte \<Rightarrow> byte" where "out2 b c = push_bit 2 (b AND 15) + drop_bit 6 c"
definition out3 :: "byte \<Rightarrow> byte" where "out3 c = c AND 63"

definition digit :: "byte \<Rightarrow> byte" where
  "digit v = Base64_table ! unat v"

text \<open>What is left when there are fewer than three bytes; missing ones are 0.\<close>

definition ntop_rest :: "byte list \<Rightarrow> byte list" where
  "ntop_rest src =
     (let a = src ! 0; b = (if length src = 1 then 0 else src ! 1)
      in [digit (out0 a), digit (out1 a b), if length src = 1 then Pad64 else digit (out2 b 0), Pad64])"

text \<open>The end of the text: a NUL, for which there must be room.\<close>

definition ntop_end :: "byte list \<Rightarrow> nat \<Rightarrow> int \<times> byte list" where
  "ntop_end target datalength =
     (if datalength \<ge> length target then (-1, target) else (int datalength, target[datalength := 0]))"

definition ntop_last :: "byte list \<Rightarrow> byte list \<Rightarrow> nat \<Rightarrow> int \<times> byte list" where
  "ntop_last src target datalength =
     (if datalength + 4 > length target then (-1, target)
      else ntop_end (overwrite datalength (ntop_rest src) target) (datalength + 4))"

fun ntop_loop :: "byte list \<Rightarrow> byte list \<Rightarrow> nat \<Rightarrow> int \<times> byte list" where
  "ntop_loop [] target datalength = ntop_end target datalength"
| "ntop_loop [a] target datalength = ntop_last [a] target datalength"
| "ntop_loop [a, b] target datalength = ntop_last [a, b] target datalength"
| "ntop_loop (a # b # c # src) target datalength =
     (if datalength + 4 > length target then (-1, target)
      else ntop_loop src (overwrite datalength [digit (out0 a), digit (out1 a b), digit (out2 b c), digit (out3 c)] target) (datalength + 4))"

definition b64_ntop :: "byte list \<Rightarrow> byte list \<Rightarrow> int \<times> byte list" where
  "b64_ntop src target = ntop_loop src target 0"

section \<open>Decoding\<close>

definition isblank_c :: "byte \<Rightarrow> bool" where
  "isblank_c ch \<longleftrightarrow> ch = 32 \<or> 9 \<le> ch \<and> ch \<le> 13"

fun strchr_pos :: "byte list \<Rightarrow> byte \<Rightarrow> byte option" where
  "strchr_pos [] ch = None"
| "strchr_pos (c # cs) ch = (if c = ch then Some 0 else map_option (\<lambda>n. n + 1) (strchr_pos cs ch))"

text \<open>One digit in one of the four states: the new target, index and state, or \<open>None\<close> when the target is too
  small. Without a target only the index is counted.\<close>

definition pton_digit :: "nat \<Rightarrow> byte \<Rightarrow> byte list option \<Rightarrow> nat \<Rightarrow> (byte list option \<times> nat \<times> nat) option" where
  "pton_digit state v target tarindex =
     (case target of
        None \<Rightarrow> Some (None, if state = 0 then tarindex else Suc tarindex, Suc state mod 4)
      | Some t \<Rightarrow>
          if state = 0 then
            if tarindex \<ge> length t then None else Some (Some (t[tarindex := push_bit 2 v]), tarindex, 1)
          else if state = 1 then
            if Suc tarindex \<ge> length t then None
            else Some (Some (t[tarindex := t ! tarindex OR drop_bit 4 v, Suc tarindex := push_bit 4 (v AND 15)]), Suc tarindex, 2)
          else if state = 2 then
            if Suc tarindex \<ge> length t then None
            else Some (Some (t[tarindex := t ! tarindex OR drop_bit 2 v, Suc tarindex := push_bit 6 (v AND 3)]), Suc tarindex, 3)
          else
            if tarindex \<ge> length t then None else Some (Some (t[tarindex := t ! tarindex OR v]), Suc tarindex, 0))"

text \<open>After the first pad character: in state 2 a second one must follow, then only blanks, and the bits past the last
  byte must be 0.\<close>

definition pton_tail :: "byte list \<Rightarrow> byte list option \<Rightarrow> nat \<Rightarrow> int" where
  "pton_tail src target tarindex =
     (if dropWhile isblank_c src \<noteq> [] then -1
      else case target of Some t \<Rightarrow> if t ! tarindex \<noteq> 0 then -1 else int tarindex | None \<Rightarrow> int tarindex)"

definition pton_pad :: "byte list \<Rightarrow> byte list option \<Rightarrow> nat \<Rightarrow> nat \<Rightarrow> int" where
  "pton_pad src target tarindex state =
     (if state = 0 \<or> state = 1 then -1
      else if state = 2
      then case dropWhile isblank_c src of
             [] \<Rightarrow> -1
           | c # src \<Rightarrow> if c \<noteq> Pad64 then -1 else pton_tail src target tarindex
      else pton_tail src target tarindex)"

fun pton_loop :: "byte list \<Rightarrow> byte list option \<Rightarrow> nat \<Rightarrow> nat \<Rightarrow> int \<times> byte list option" where
  "pton_loop [] target tarindex state = (if state \<noteq> 0 then -1 else int tarindex, target)"
| "pton_loop (ch # src) target tarindex state =
     (if isblank_c ch then pton_loop src target tarindex state
      else if ch = Pad64 then (pton_pad src target tarindex state, target)
      else case strchr_pos Base64_table ch of
             None \<Rightarrow> (-1, target)
           | Some v \<Rightarrow> (case pton_digit state v target tarindex of
               None \<Rightarrow> (-1, target)
             | Some (target, tarindex, state) \<Rightarrow> pton_loop src target tarindex state))"

definition b64_pton :: "byte list \<Rightarrow> byte list option \<Rightarrow> int \<times> byte list option" where
  "b64_pton src target = pton_loop src target 0 0"

section \<open>The interface\<close>

definition uuencode :: "byte list \<Rightarrow> byte list \<Rightarrow> int \<times> byte list" where
  "uuencode src target = b64_ntop src target"

definition sep_char :: "byte \<Rightarrow> bool" where
  "sep_char c \<longleftrightarrow> c = 32 \<or> c = 9"

definition uudecode :: "byte list \<Rightarrow> byte list option \<Rightarrow> int \<times> byte list option" where
  "uudecode src target =
     b64_pton (takeWhile sep_char src @ takeWhile (\<lambda>c. \<not> sep_char c) (dropWhile sep_char src)) target"

text \<open>What \<open>dump_base64\<close> prints, in lines of 70 characters.\<close>

fun in_lines :: "nat \<Rightarrow> byte list \<Rightarrow> byte list" where
  "in_lines i [] = (if i mod 70 \<noteq> 69 then [10] else [])"
| "in_lines i (c # cs) = (if i mod 70 = 69 then [c, 10] else [c]) @ in_lines (Suc i) cs"

definition dump_base64 :: "byte list \<Rightarrow> byte list result" where
  "dump_base64 data =
     (if length data > 65536 then Inr (map (of_nat \<circ> of_char) ''dump_base64: len > 65536'' @ [10])
      else if data = [] then Inl (Fatal ''xmalloc: zero size'')
      else case uuencode data (replicate (2 * length data) 0) of
             (n, buf) \<Rightarrow> Inr (in_lines 0 (take (nat n) buf)))"

section \<open>Digits\<close>

lemma table_facts: "distinct Base64_table" "length Base64_table = 64" "\<forall>c \<in> set Base64_table. \<not> isblank_c c \<and> c \<noteq> Pad64"
  by (simp_all add: Base64_table_def isblank_c_def)

lemma strchr_pos_nth: "distinct cs \<Longrightarrow> n < length cs \<Longrightarrow> strchr_pos cs (cs ! n) = Some (of_nat n)"
proof (induction cs arbitrary: n)
  case (Cons c cs)
  then show ?case by (cases n) (auto simp: nth_mem)
qed simp

lemma digit_read:
  assumes "unat v < 64"
  shows "strchr_pos Base64_table (digit v) = Some v" "\<not> isblank_c (digit v)" "digit v \<noteq> Pad64"
proof -
  have l: "unat v < length Base64_table" using assms by (simp only: table_facts)
  then show "strchr_pos Base64_table (digit v) = Some v" using strchr_pos_nth [OF table_facts(1) l] by (simp add: digit_def)
  show "\<not> isblank_c (digit v)" "digit v \<noteq> Pad64" using table_facts(3) nth_mem [OF l] unfolding digit_def by blast+
qed

lemma byte_eq8:
  assumes "bit a 0 = bit b 0" "bit a 1 = bit b 1" "bit a 2 = bit b 2" "bit a 3 = bit b 3"
    "bit a 4 = bit b 4" "bit a 5 = bit b 5" "bit a 6 = bit b 6" "bit a 7 = bit b 7"
  shows "(a :: byte) = b"
proof (rule bit_word_eqI)
  fix n assume "n < LENGTH(8)"
  then consider "n = 0" | "n = 1" | "n = 2" | "n = 3" | "n = 4" | "n = 5" | "n = 6" | "n = 7" by fastforce
  then show "bit a n = bit b n" by cases (use assms in simp_all)
qed

lemma small_digit: "take_bit 6 v = (v :: byte) \<Longrightarrow> unat v < 64"
proof -
  assume "take_bit 6 v = v"
  then have "unat v = take_bit 6 (unat v)" by (metis unsigned_take_bit_eq)
  then show ?thesis using take_bit_nat_less_exp [of 6 "unat v"] by simp
qed

lemma outs_or:
  "out1 a b = push_bit 4 (a AND 3) OR drop_bit 4 b" "out2 b c = push_bit 2 (b AND 15) OR drop_bit 6 c"
proof -
  have three: "(3 :: byte) = mask 2" and fifteen: "(15 :: byte) = mask 4" by (simp_all add: mask_eq_exp_minus_1)
  show "out1 a b = push_bit 4 (a AND 3) OR drop_bit 4 b" unfolding out1_def three
    by (rule disjunctive_add) (auto simp: bit_simps dest: bit_byte_lt)
  show "out2 b c = push_bit 2 (b AND 15) OR drop_bit 6 c" unfolding out2_def fifteen
    by (rule disjunctive_add) (auto simp: bit_simps dest: bit_byte_lt)
qed

lemma outs_small: "unat (out0 a) < 64" "unat (out1 a b) < 64" "unat (out2 b c) < 64" "unat (out3 c) < 64"
proof -
  have m: "(3 :: byte) = mask 2" "(15 :: byte) = mask 4" "(63 :: byte) = mask 6" by (simp_all add: mask_eq_exp_minus_1)
  show "unat (out0 a) < 64" "unat (out1 a b) < 64" "unat (out2 b c) < 64" "unat (out3 c) < 64"
    unfolding out0_def outs_or out3_def m by (intro small_digit byte_eq8; auto simp: bit_simps dest: bit_byte_lt)+
qed

text \<open>The three bytes of a group come back from its four digits.\<close>

lemma group_back:
  "push_bit 2 (out0 a) OR drop_bit 4 (out1 a b) = a"
  "push_bit 4 (out1 a b AND 15) OR drop_bit 2 (out2 b c) = b"
  "push_bit 6 (out2 b c AND 3) OR out3 c = c"
proof -
  have m: "(3 :: byte) = mask 2" "(15 :: byte) = mask 4" "(63 :: byte) = mask 6" by (simp_all add: mask_eq_exp_minus_1)
  show "push_bit 2 (out0 a) OR drop_bit 4 (out1 a b) = a" "push_bit 4 (out1 a b AND 15) OR drop_bit 2 (out2 b c) = b"
    "push_bit 6 (out2 b c AND 3) OR out3 c = c"
    unfolding out0_def outs_or out3_def m by (intro byte_eq8; simp add: bit_simps)+
qed

lemma last_bits: "push_bit 4 (out1 a 0 AND 15) = 0" "push_bit 6 (out2 b 0 AND 3) = 0"
proof -
  have m: "(3 :: byte) = mask 2" "(15 :: byte) = mask 4" by (simp_all add: mask_eq_exp_minus_1)
  show "push_bit 4 (out1 a 0 AND 15) = 0" "push_bit 6 (out2 b 0 AND 3) = 0"
    unfolding outs_or m by (intro byte_eq8; simp add: bit_simps)+
qed

section \<open>Round trip\<close>

fun b64_text :: "byte list \<Rightarrow> byte list" where
  "b64_text [] = []"
| "b64_text [a] = ntop_rest [a]"
| "b64_text [a, b] = ntop_rest [a, b]"
| "b64_text (a # b # c # src) = [digit (out0 a), digit (out1 a b), digit (out2 b c), digit (out3 c)] @ b64_text src"

lemma length_text: "length (b64_text d) = 4 * ((length d + 2) div 3)"
proof (induction d rule: b64_text.induct)
  case (4 a b c src)
  have "(length src + 5) div 3 = Suc ((length src + 2) div 3)" by presburger
  with 4 show ?case by (simp add: add.commute)
qed (simp_all add: ntop_rest_def Let_def)

lemma take_group: "length g = 4 \<Longrightarrow> n + 4 \<le> length t \<Longrightarrow> take (n + 4) (overwrite n g t) = take n t @ g"
  using take_overwrite_end [of n t g] by simp

text \<open>The encoder writes the text and a NUL behind it, or reports that they do not fit.\<close>

lemma ntop_end_spec:
  assumes "n < length t"
  shows "\<exists>t'. ntop_end t n = (int n, t') \<and> length t' = length t \<and> take n t' = take n t \<and> t' ! n = 0"
  using assms by (simp add: ntop_end_def)

lemma ntop_last_spec:
  assumes "length (ntop_rest src) = 4"
  shows "if n + 4 < length t
    then \<exists>t'. ntop_last src t n = (int (n + 4), t') \<and> length t' = length t \<and> take (n + 4) t' = take n t @ ntop_rest src \<and> t' ! (n + 4) = 0
    else fst (ntop_last src t n) = -1"
  using assms ntop_end_spec [of "n + 4" "overwrite n (ntop_rest src) t"] take_group [of "ntop_rest src" n t]
  by (auto simp: ntop_last_def ntop_end_def)

lemma length_rest [simp]: "length (ntop_rest src) = 4"
  by (simp add: ntop_rest_def Let_def)

lemma ntop_loop_spec:
  assumes "n + length (b64_text d) < length t"
  shows "\<exists>t'. ntop_loop d t n = (int (n + length (b64_text d)), t') \<and> length t' = length t \<and>
    take (n + length (b64_text d)) t' = take n t @ b64_text d \<and> t' ! (n + length (b64_text d)) = 0"
  using assms
proof (induction d t n rule: ntop_loop.induct)
  case (1 t n)
  then show ?case using ntop_end_spec [of n t] by simp
next
  case (2 a t n)
  then show ?case using ntop_last_spec [of "[a]" n t] by simp
next
  case (3 a b t n)
  then show ?case using ntop_last_spec [of "[a, b]" n t] by simp
next
  case (4 a b c src t n)
  let ?g = "[digit (out0 a), digit (out1 a b), digit (out2 b c), digit (out3 c)]"
  have "take (n + 4) (overwrite n ?g t) = take n t @ ?g" using 4(2) by (intro take_group) simp_all
  then show ?case using 4 by (auto simp: add.assoc eval_nat_numeral)
qed

lemma ntop_loop_full:
  assumes "n + length (b64_text d) \<ge> length t"
  shows "fst (ntop_loop d t n) = -1"
  using assms
proof (induction d t n rule: ntop_loop.induct)
  case (2 a t n)
  then show ?case using ntop_last_spec [of "[a]" n t] by simp
next
  case (3 a b t n)
  then show ?case using ntop_last_spec [of "[a, b]" n t] by simp
qed (auto simp: ntop_end_def)

text \<open>The decoder takes a group of four digits, written from a given place on.\<close>

lemma pton_step:
  assumes "unat v < 64"
  shows "pton_loop (digit v # src) t i st =
    (case pton_digit st v t i of None \<Rightarrow> (-1, t) | Some (t, i, st) \<Rightarrow> pton_loop src t i st)"
  using digit_read [OF assms] by simp

lemmas pton_steps = pton_step [OF outs_small(1)] pton_step [OF outs_small(2)] pton_step [OF outs_small(3)] pton_step [OF outs_small(4)]

lemma pton_group:
  assumes "Suc (Suc i) < length t"
  shows "pton_loop (digit (out0 a) # digit (out1 a b) # digit (out2 b c) # digit (out3 c) # src) (Some t) i 0 =
    pton_loop src (Some (t[i := a, Suc i := b, Suc (Suc i) := c])) (Suc (Suc (Suc i))) 0"
  using assms group_back(1) [of a b] group_back(2) [of a b c] group_back(3) [of b c]
  by (simp add: pton_steps pton_digit_def del: pton_loop.simps)

lemma pton_rest1:
  assumes "Suc i < length t"
  shows "pton_loop [digit (out0 a), digit (out1 a 0), Pad64, Pad64] (Some t) i 0 = (int (Suc i), Some (t[i := a, Suc i := 0]))"
proof -
  have "pton_loop [digit (out0 a), digit (out1 a 0), Pad64, Pad64] (Some t) i 0 =
      pton_loop [Pad64, Pad64] (Some (t[i := a, Suc i := 0])) (Suc i) 2"
    using assms group_back(1) [of a 0] last_bits(1) [of a] by (simp add: pton_steps pton_digit_def del: pton_loop.simps)
  then show ?thesis using assms by (simp add: pton_pad_def pton_tail_def isblank_c_def)
qed

lemma pton_rest2:
  assumes "Suc (Suc i) < length t"
  shows "pton_loop [digit (out0 a), digit (out1 a b), digit (out2 b 0), Pad64] (Some t) i 0 =
    (int (Suc (Suc i)), Some (t[i := a, Suc i := b, Suc (Suc i) := 0]))"
proof -
  have "pton_loop [digit (out0 a), digit (out1 a b), digit (out2 b 0), Pad64] (Some t) i 0 =
      pton_loop [Pad64] (Some (t[i := a, Suc i := b, Suc (Suc i) := 0])) (Suc (Suc i)) 3"
    using assms group_back(1) [of a b] group_back(2) [of a b 0] last_bits(2) [of b] by (simp add: pton_steps pton_digit_def del: pton_loop.simps)
  then show ?thesis using assms by (simp add: pton_pad_def pton_tail_def isblank_c_def)
qed

lemma pton_text:
  assumes "i + length d < length t"
  shows "\<exists>t'. pton_loop (b64_text d) (Some t) i 0 = (int (i + length d), Some t') \<and> length t' = length t \<and>
    take (i + length d) t' = take i t @ d"
  using assms
proof (induction d arbitrary: t i rule: b64_text.induct)
  case 1
  then show ?case by simp
next
  case (2 a)
  then show ?case using pton_rest1 [of i t a] by (simp add: ntop_rest_def Let_def take_Suc_conv_app_nth)
next
  case (3 a b)
  then show ?case using pton_rest2 [of i t a b] by (simp add: ntop_rest_def Let_def take_Suc_conv_app_nth)
next
  case (4 a b c src)
  let ?t = "t[i := a, Suc i := b, Suc (Suc i) := c]"
  have e: "i + length (a # b # c # src) = Suc (Suc (Suc i)) + length src" by simp
  have "Suc (Suc (Suc i)) + length src < length ?t" using 4(2) by simp
  from 4(1) [OF this] obtain t' where t': "pton_loop (b64_text src) (Some ?t) (Suc (Suc (Suc i))) 0 = (int (Suc (Suc (Suc i)) + length src), Some t')"
    "length t' = length t" "take (Suc (Suc (Suc i)) + length src) t' = take (Suc (Suc (Suc i))) ?t @ src" by auto
  have "take (Suc (Suc (Suc i))) ?t = take i t @ [a, b, c]" using 4(2) by (simp add: take_Suc_conv_app_nth)
  with t' show ?case unfolding e using pton_group [of i t] 4(2) by simp
qed

lemma text_no_blanks: "c \<in> set (b64_text d) \<Longrightarrow> \<not> isblank_c c"
proof (induction d rule: b64_text.induct)
  case (4 a b c' src)
  then show ?case using digit_read(2) [OF outs_small(1)] digit_read(2) [OF outs_small(2)] digit_read(2) [OF outs_small(3)]
    digit_read(2) [OF outs_small(4)] by auto
qed (use digit_read(2) [OF outs_small(1)] digit_read(2) [OF outs_small(2)] digit_read(2) [OF outs_small(3)] in
  \<open>auto simp: ntop_rest_def Let_def isblank_c_def\<close>)

lemma pton_blanks: "\<forall>c \<in> set bs. isblank_c c \<Longrightarrow> pton_loop (bs @ src) t i st = pton_loop src t i st"
  by (induction bs) auto

lemma sep_blank: "sep_char c \<Longrightarrow> isblank_c c"
  by (auto simp: sep_char_def isblank_c_def)

text \<open>C26: Keys survive being stored as text. Whatever the bytes, if there are any, \<open>uuencode\<close> writes four characters for each group of three
  and a NUL into a target that has room for them, and returns -1 for one that has not; \<open>uudecode\<close> of the text, after any
  blanks and before a comment, returns the number of bytes and the bytes themselves.\<close>

theorem uuencode_roundtrip:
  assumes "length out > length d" and "d \<noteq> []" and "\<forall>c \<in> set pre. sep_char c" and "post = [] \<or> sep_char (hd post)"
  shows "if length target > 4 * ((length d + 2) div 3)
    then \<exists>n target' out'. uuencode d target = (int n, target') \<and> n = 4 * ((length d + 2) div 3) \<and> target' ! n = 0 \<and>
      uudecode (pre @ take n target' @ post) (Some out) = (int (length d), Some out') \<and> take (length d) out' = d
    else fst (uuencode d target) = -1"
proof (cases "length target > 4 * ((length d + 2) div 3)")
  case True
  then obtain target' where e: "uuencode d target = (int (length (b64_text d)), target')" "take (length (b64_text d)) target' = b64_text d"
      "target' ! length (b64_text d) = 0"
    using ntop_loop_spec [of 0 d target] by (auto simp: uuencode_def b64_ntop_def length_text)
  obtain out' where o: "pton_loop (b64_text d) (Some out) 0 0 = (int (length d), Some out')" "take (length d) out' = d"
    using pton_text [of 0 d out] assms(1) by auto
  have nosep: "\<forall>c \<in> set (b64_text d). \<not> sep_char c" using text_no_blanks sep_blank by blast
  have cut: "takeWhile (\<lambda>c. \<not> sep_char c) (b64_text d @ post) = b64_text d" using nosep assms(4) by (cases post) auto
  have "b64_text d \<noteq> []" using assms(2) length_text [of d] by (cases d) auto
  then have w: "takeWhile sep_char (pre @ b64_text d @ post) = pre" "dropWhile sep_char (pre @ b64_text d @ post) = b64_text d @ post"
    using assms(3) nosep by (cases "b64_text d"; auto)+
  have "uudecode (pre @ b64_text d @ post) (Some out) = (int (length d), Some out')"
    unfolding uudecode_def b64_pton_def w cut using pton_blanks [of pre] assms(3) sep_blank o(1) by auto
  then show ?thesis using True e o(2) length_text [of d] by auto
next
  case False
  then show ?thesis using ntop_loop_full [of target 0 d] by (simp add: uuencode_def b64_ntop_def length_text)
qed

theorem uuencode_roundtrip_witness:
  "\<exists>n target' out'. uuencode [0, 255, 7, 130] (replicate 9 1) = (int n, target') \<and> n = 8 \<and>
     uudecode ([32, 9] @ take n target' @ [32, 114]) (Some [1, 1, 1, 1, 1]) = (4, Some out') \<and> take 4 out' = [0, 255, 7, 130]"
proof -
  have "take (Suc (Suc (Suc (Suc 0)))) out' = take 4 out'" for out' :: "byte list" by (simp add: eval_nat_numeral)
  with uuencode_roundtrip [of "[0, 255, 7, 130]" "[1, 1, 1, 1, 1]" "[32, 9]" "[32, 114]" "replicate 9 1"] show ?thesis
    by (auto simp: sep_char_def)
qed

text \<open>\<open>dump_base64\<close> allocates twice the number of bytes, which is too little for one or two: they are not printed.\<close>

lemma dump_loses_short: "length d \<in> {1, 2} \<Longrightarrow> dump_base64 d = Inr [10]"
proof -
  assume l: "length d \<in> {1, 2}"
  then have "fst (uuencode d (replicate (2 * length d) 0)) = -1"
    using ntop_loop_full [of "replicate (2 * length d) 0" 0 d] by (auto simp: uuencode_def b64_ntop_def length_text)
  then show ?thesis using l by (cases "uuencode d (replicate (2 * length d) 0)") (auto simp: dump_base64_def)
qed

end
