(* ===== verification/Spec2Isabelle.thy ===== *)
theory Spec2Isabelle
  imports RecvLoop ChanLink AddrMatch Kex SftpAttr Base64
begin

text \<open>
  CSBuFLO is an SSH client and server, OpenSSH 5.9p1, that hides the pages a browser loads through its SOCKS
  proxy from an observer of the encrypted connection. Until a page is known, packets of one size leave
  at an interval that adapts to the network, with padding where there is no data, and after a page the
  padding goes on up to a total that says little. For pages of a database the recorded traffic of their
  cluster, a super trace, is replayed instead. This library is a model of that program in HOL, with
  theorems on the parts that matter for its correctness. File and function names below are those under
  \<open>src/modified_openssh-5.9p1\<close>.

  \<^bold>\<open>The parts and how they interact.\<close> A session is a world (theory \<open>Packet\<close>): the \<open>session_state\<close> of \<open>packet.c\<close>,
  the static variables of the padding scheme in \<open>misc.c\<close> (\<open>cs_state\<close>), the keys of \<open>kex.c\<close>, and what the operating
  system supplies, that is random numbers, the clock and the answers of the socket, as streams. The
  client and server loops decide when and how much to send and call \<open>packet_write_poll\<close>, which pads, encrypts
  and writes; packets that arrive are taken apart by \<open>packet_read_poll_seqnr\<close>, which handles the messages of the
  padding protocol itself. Channels carry the data of the connections in between: their buffers and
  windows (\<open>channels.c\<close>), their end (\<open>nchan.c\<close>), and the SOCKS requests, which tell the scheme the page.

  Every operation is a function. One that can fail returns \<open>error + 'a\<close>: \<open>Fatal\<close>, \<open>Disconnect\<close> and \<open>CleanupExit\<close>
  are the ways in which the program ends itself, \<open>MemFault\<close> is undefined behaviour (an access outside an array, a
  null pointer, a division by zero), and \<open>NoReturn\<close> a loop that ran out of fuel. Machine integers are words
  of their width, so that sums wrap as in C; texts are lists of characters or of bytes.

  \<^bold>\<open>Theories and sources.\<close>
  \<^item> \<open>Prelude\<close>, \<open>Wire\<close>, \<open>CString\<close>, \<open>Scan\<close>: results, lists and words; \<open>get_u32\<close> and the like (\<open>misc.c\<close>); what is used
    of \<open>string.h\<close>, \<open>ctype.h\<close> and \<open>scanf\<close>.
  \<^item> \<open>SshBuffer\<close>, \<open>Bufaux\<close>, \<open>Bufbn\<close>: \<open>buffer.c\<close>, \<open>bufaux.c\<close>, \<open>bufbn.c\<close>. The record \<open>buffer\<close> is \<open>struct Buffer\<close>; \<open>buffer_ok\<close> is its
    invariant and \<open>buffer_contents\<close> the bytes it stands for. The locale \<open>byte_queue\<close> says that a buffer is a
    queue, the locale \<open>wire_codec\<close> what a pair of put and get promises; each kind of value interprets it.
  \<^item> \<open>Tau\<close>, \<open>Clusters\<close>, \<open>Supertrace\<close>, \<open>CsState\<close>: the padding scheme in \<open>misc.c\<close>, \<open>hashmap.c\<close> and \<open>load_st.c\<close>: the adaptive
    interval, the map from pages to clusters, the traces, and the state that ties them together. The two
    database files are parameters; \<open>first_wins_map\<close> is the contract of the hash map.
  \<^item> \<open>Cipher\<close>, \<open>MacAlg\<close>, \<open>Compress\<close>, \<open>Crc32\<close>, \<open>Deattack\<close>: \<open>cipher.c\<close>, \<open>mac.c\<close>, \<open>compress.c\<close>, \<open>crc32.c\<close>, \<open>deattack.c\<close>. OpenSSL, UMAC and
    zlib are the parameters \<open>evp\<close>, \<open>mac_lib\<close> and \<open>zlib\<close> of the definitions; what their documentation promises
    is a hypothesis of the theorems that need it.
  \<^item> \<open>Packet\<close>, \<open>PacketSend\<close>, \<open>PacketRecv\<close>, \<open>PacketWrite\<close>, \<open>Dispatch\<close>: \<open>packet.c\<close> and \<open>dispatch.c\<close>, one definition for each
    function and for each larger part of the long ones. \<open>PacketWire\<close>, \<open>PacketQueue\<close>, \<open>PacketShape\<close> and \<open>RecvLoop\<close> hold
    theorems on them. The locale \<open>hidden_update\<close> is what sending does not look at.
  \<^item> \<open>Shaper\<close>, \<open>Session\<close>: the sending part of \<open>clientloop.c\<close> and \<open>serverloop.c\<close> (\<open>client_process_output\<close>, \<open>process_output\<close>), and
    the steps of a whole session as inductive relations.
  \<^item> \<open>Nchan\<close>, \<open>Socks\<close>, \<open>ChanFlow\<close>, \<open>ChanLink\<close>, \<open>Inet\<close>: \<open>nchan.c\<close> and the data path and SOCKS part of \<open>channels.c\<close>,
    \<open>inet_ntop.c\<close>, and two ends of a channel with the messages between them.
  \<^item> \<open>Match\<close>, \<open>AddrMatch\<close>: \<open>match.c\<close> and \<open>addrmatch.c\<close>; \<open>getaddrinfo\<close> on numeric text is a parameter.
  \<^item> \<open>Kex\<close>: \<open>kex.c\<close> with the names of \<open>key.c\<close> and \<open>kexecdh.c\<close>. The table of exchange methods and the digests are
    parameters.
  \<^item> \<open>SftpAttr\<close>, \<open>Base64\<close>: the file attributes of \<open>sftp-common.c\<close>; \<open>uuencode.c\<close> with \<open>openbsd-compat/base64.c\<close>.

  \<^bold>\<open>What the theorems show.\<close>
  \<^item> Channels: in every run of two connected ends the bytes that come out are those that went in, in order,
    and the windows bound what is under way (\<open>ChanLink\<close>); EOF and CLOSE are sent once and a dead channel is closed
    on both halves, whatever the order of events (\<open>Nchan\<close>).
  \<^item> Key exchange: both ends agree on algorithms and keys, and derived keys are those of RFC 4253, within the
    memory that was allocated for them (\<open>Kex\<close>).
  \<^item> Packets: what is sent over a connection arrives, padding is at least four bytes and fills blocks, packets sent
    during a key exchange wait for its end, and receiving comes to an end (\<open>PacketWire\<close>, \<open>PacketQueue\<close>, \<open>RecvLoop\<close>).
  \<^item> The padding scheme: the writes of a replay depend on the trace and on the kernel, and not on the data
    (\<open>PacketShape\<close>); padding goes on to the least multiple of a power of two and stops only there (\<open>Shaper\<close>); no bytes
    are due once the end of a transcript was sent (\<open>Session\<close>); the interval is the rounded median of the last
    samples and one of four values (\<open>Tau\<close>); files are read as they are written, a page selects the trace of
    its cluster, and a replay visits its own packets in order (\<open>Clusters\<close>, \<open>Supertrace\<close>, \<open>CsState\<close>).
  \<^item> Services: buffers are queues and refuse what does not fit (\<open>SshBuffer\<close>, \<open>Bufaux\<close>); the checksum is the
    bit-serial one (\<open>Crc32\<close>), the attack detector decides and ends (\<open>Deattack\<close>), the compression loops end
    (\<open>Compress\<close>), MACs are long enough (\<open>MacAlg\<close>); SOCKS 5 requests are decoded as RFC 1928 means them (\<open>Socks\<close>); lists
    of patterns and of networks decide as documented (\<open>Match\<close>, \<open>AddrMatch\<close>); file attributes and texts of keys
    round-trip (\<open>SftpAttr\<close>, \<open>Base64\<close>).

  A few theorems state what the program does where it was meant to do something else: \<open>packet_write_poll\<close> may spin after the
  end of a transcript, a key with a space is lost in the hash map, lists of ciphers are not checked
  beyond an empty name, and the check of a buffer's room wraps.

  \<^bold>\<open>Bounds and fuel.\<close> The loop over received packets gets the length of the input and two rounds, which \<open>RecvLoop\<close> proves
  to be enough; the expansion of a key gets as many rounds as it has bytes, each adding at least one, and is proved to return in
  \<open>Kex\<close>; the loops of \<open>compress.c\<close> get one round for each block of the largest buffer, enough by \<open>Compress\<close>; the probing
  of \<open>deattack.c\<close> one for each slot of its table, enough by \<open>Deattack\<close>; \<open>discard_fill\<close> one for each of the 256 blocks of 1024 bytes in a packet of
  maximal size; \<open>buffer_append_space\<close> restarts at most three times, enough by \<open>SshBuffer\<close>. Loops that wait for the kernel end in \<open>NoReturn\<close>
  when the list of its answers is used up, and the loop of \<open>packet_write_poll\<close> has its fuel as an argument, since it need not end.

  \<^bold>\<open>Not modelled.\<close> Memory allocation does not fail, and what only prints or logs is left out. Of \<open>channels.c\<close>, \<open>clientloop.c\<close> and
  \<open>serverloop.c\<close> the rest is sockets, terminals, processes and requests of the connection protocol, which the padding
  scheme does not touch. The exchange methods, ciphers, digests and signatures are arithmetic of OpenSSL, and
  are parameters where the model uses them. Authentication, privilege separation, configuration, roaming and the
  main programs (\<open>ssh.c\<close>, \<open>sshd.c\<close>, \<open>session.c\<close>, \<open>ssh-keygen.c\<close>, \<open>sftp.c\<close> and so on) are unchanged from OpenSSH and
  consist mostly of calls to the system, on whose behaviour a model could only make assumptions. Times of \<open>select\<close> and
  delays of the network are not modelled: the clock is an arbitrary stream.
\<close>

end
